(* ===== verification/Hot_Prelude.thy ===== *)
theory Hot_Prelude
  imports Main "HOL-Library.Word" "HOL-Library.Char_ord" "HOL-Library.List_Lexorder"
    "HOL-Library.Sublist"
begin

text \<open>
  Shared base of the development: the pieces of the Rust standard library that several
  components call, and the generic lemmas about them.

  A Rust \<^verbatim>\<open>str\<close> is modelled as \<^typ>\<open>string\<close>, the list of its UTF-8 bytes: HOL's
  \<^typ>\<open>char\<close> is an 8-bit byte. Every string operation below searches for, or compares with,
  ASCII text, which means the same thing on bytes and on characters, since the bytes of a
  multi-byte UTF-8 sequence are all above 127. The order of \<^verbatim>\<open>str\<close> is the byte-wise
  lexicographic order, as is the order of \<^typ>\<open>string\<close> here. (The lexer, which counts
  characters, works on lists of code points instead; see \<^verbatim>\<open>Hot_Lexer\<close>.)

  \<^verbatim>\<open>indexmap::IndexMap\<close> and \<^verbatim>\<open>std::collections::HashMap\<close> are association lists with
  distinct keys. For an \<^verbatim>\<open>IndexMap\<close> the list order is the insertion order. For a
  \<^verbatim>\<open>HashMap\<close> it is the order in which that map happens to be iterated; theorems about
  such maps hold for every order.
\<close>

named_theorems str_simps "equations of the string operations"
named_theorems map_laws "what a lookup returns after an update of an ordered map"

section \<open>Strings\<close>

type_synonym uuid = string

text \<open>\<^verbatim>\<open>s.starts_with(p)\<close>, \<^verbatim>\<open>s.strip_prefix(p)\<close>, \<^verbatim>\<open>s.strip_suffix(c)\<close>.\<close>

definition starts_with :: "string \<Rightarrow> string \<Rightarrow> bool" where
  "starts_with s p \<longleftrightarrow> take (length p) s = p"

definition strip_prefix :: "string \<Rightarrow> string \<Rightarrow> string option" where
  "strip_prefix s p = (if starts_with s p then Some (drop (length p) s) else None)"

definition strip_suffix_char :: "string \<Rightarrow> char \<Rightarrow> string option" where
  "strip_suffix_char s c = (if s \<noteq> [] \<and> last s = c then Some (butlast s) else None)"

text \<open>\<^verbatim>\<open>s.split_once(c)\<close>: the text before and after the first \<^verbatim>\<open>c\<close>.\<close>

fun split_once :: "char \<Rightarrow> string \<Rightarrow> (string \<times> string) option" where
  "split_once c [] = None"
| "split_once c (x # xs) =
     (if x = c then Some ([], xs)
      else case split_once c xs of None \<Rightarrow> None | Some (a, b) \<Rightarrow> Some (x # a, b))"

text \<open>\<^verbatim>\<open>s.split(c)\<close>: the pieces between the separators; at least one piece.\<close>

fun split_on :: "'a \<Rightarrow> 'a list \<Rightarrow> 'a list list" where
  "split_on c [] = [[]]"
| "split_on c (x # xs) =
     (if x = c then [] # split_on c xs
      else case split_on c xs of [] \<Rightarrow> [[x]] | p # ps \<Rightarrow> (x # p) # ps)"

text \<open>\<^verbatim>\<open>parts.join(sep)\<close>.\<close>

fun join :: "'a list \<Rightarrow> 'a list list \<Rightarrow> 'a list" where
  "join sep [] = []"
| "join sep [x] = x"
| "join sep (x # y # ys) = x @ sep @ join sep (y # ys)"

text \<open>\<^verbatim>\<open>s.contains(sub)\<close>.\<close>

fun contains_sub :: "string \<Rightarrow> string \<Rightarrow> bool" where
  "contains_sub [] p = (p = [])"
| "contains_sub (x # xs) p = (starts_with (x # xs) p \<or> contains_sub xs p)"

text \<open>ASCII character classes and case folding of \<^verbatim>\<open>char\<close> and \<^verbatim>\<open>u8\<close>.\<close>

definition is_ascii_digit :: "char \<Rightarrow> bool" where
  "is_ascii_digit c \<longleftrightarrow> CHR ''0'' \<le> c \<and> c \<le> CHR ''9''"

definition is_ascii_lowercase :: "char \<Rightarrow> bool" where
  "is_ascii_lowercase c \<longleftrightarrow> CHR ''a'' \<le> c \<and> c \<le> CHR ''z''"

definition is_ascii_uppercase :: "char \<Rightarrow> bool" where
  "is_ascii_uppercase c \<longleftrightarrow> CHR ''A'' \<le> c \<and> c \<le> CHR ''Z''"

definition is_ascii_alphanumeric :: "char \<Rightarrow> bool" where
  "is_ascii_alphanumeric c \<longleftrightarrow>
     is_ascii_digit c \<or> is_ascii_lowercase c \<or> is_ascii_uppercase c"

definition to_ascii_lower_char :: "char \<Rightarrow> char" where
  "to_ascii_lower_char c =
     (if is_ascii_uppercase c then char_of (of_char c + (32 :: nat)) else c)"

definition to_ascii_lowercase :: "string \<Rightarrow> string" where
  "to_ascii_lowercase s = map to_ascii_lower_char s"

definition eq_ignore_ascii_case :: "string \<Rightarrow> string \<Rightarrow> bool" where
  "eq_ignore_ascii_case a b \<longleftrightarrow> to_ascii_lowercase a = to_ascii_lowercase b"

text \<open>
  \<^verbatim>\<open>s.parse()\<close> at an unsigned type of \<^term>\<open>w\<close> bits: an optional plus sign, then at least
  one digit and nothing else, and a value below \<^term>\<open>2 ^ w\<close>. At a signed type a minus sign
  is accepted too and the value lies in \<open>-2^(w-1) .. 2^(w-1)-1\<close>.
\<close>

fun digits_val :: "nat \<Rightarrow> string \<Rightarrow> nat option" where
  "digits_val acc [] = Some acc"
| "digits_val acc (c # cs) =
     (if is_ascii_digit c then digits_val (10 * acc + (of_char c - 48)) cs else None)"

definition parse_digits :: "string \<Rightarrow> nat option" where
  "parse_digits s = (if s = [] then None else digits_val 0 s)"

definition parse_unsigned :: "nat \<Rightarrow> string \<Rightarrow> nat option" where
  "parse_unsigned w s =
     (let body = (case s of c # cs \<Rightarrow> (if c = CHR ''+'' then cs else s) | [] \<Rightarrow> s)
      in case parse_digits body of
           None \<Rightarrow> None
         | Some n \<Rightarrow> if n < 2 ^ w then Some n else None)"

definition parse_signed :: "nat \<Rightarrow> string \<Rightarrow> int option" where
  "parse_signed w s =
     (let neg = (case s of c # _ \<Rightarrow> c = CHR ''-'' | [] \<Rightarrow> False);
          body = (case s of c # cs \<Rightarrow> (if c = CHR ''+'' \<or> c = CHR ''-'' then cs else s) | [] \<Rightarrow> s)
      in case parse_digits body of
           None \<Rightarrow> None
         | Some n \<Rightarrow>
             (let v = (if neg then - int n else int n)
              in if - (2 ^ (w - 1)) \<le> v \<and> v < 2 ^ (w - 1) then Some v else None))"

abbreviation parse_usize :: "string \<Rightarrow> nat option" where
  "parse_usize \<equiv> parse_unsigned 64"

abbreviation parse_u64 :: "string \<Rightarrow> nat option" where
  "parse_u64 \<equiv> parse_unsigned 64"

abbreviation parse_i64 :: "string \<Rightarrow> int option" where
  "parse_i64 \<equiv> parse_signed 64"

text \<open>\<^verbatim>\<open>to_string()\<close> of an unsigned and of a signed integer.\<close>

fun show_nat :: "nat \<Rightarrow> string" where
  "show_nat n = (if n < 10 then [char_of (48 + n)] else show_nat (n div 10) @ [char_of (48 + n mod 10)])"

declare show_nat.simps [simp del]

definition show_int :: "int \<Rightarrow> string" where
  "show_int i = (if i < 0 then CHR ''-'' # show_nat (nat (- i)) else show_nat (nat i))"

lemma starts_with_prefix: "starts_with s p \<longleftrightarrow> prefix p s"
  unfolding starts_with_def prefix_def
  by (metis append_eq_conv_conj append_take_drop_id)

lemma starts_with_iff: "starts_with s p \<longleftrightarrow> (\<exists>r. s = p @ r)"
  by (auto simp: starts_with_prefix prefix_def)

lemma starts_with_refl [simp]: "starts_with s s"
  by (simp add: starts_with_def)

lemma starts_with_Nil [simp]: "starts_with s []"
  by (simp add: starts_with_def)

lemma starts_with_append [simp]: "starts_with (p @ r) p"
  by (simp add: starts_with_def)

lemma starts_with_trans: "starts_with s q \<Longrightarrow> starts_with q p \<Longrightarrow> starts_with s p"
  by (auto simp: starts_with_iff)

lemma strip_prefix_Some_iff: "strip_prefix s p = Some r \<longleftrightarrow> s = p @ r"
  by (auto simp: strip_prefix_def starts_with_iff)

lemma strip_prefix_append [simp]: "strip_prefix (p @ r) p = Some r"
  by (simp add: strip_prefix_Some_iff)

lemma strip_prefix_length: "strip_prefix s p = Some r \<Longrightarrow> length r = length s - length p"
  by (auto simp: strip_prefix_Some_iff)

lemma strip_suffix_char_Some_iff: "strip_suffix_char s c = Some r \<longleftrightarrow> s = r @ [c]"
proof
  assume "strip_suffix_char s c = Some r"
  then show "s = r @ [c]"
    by (auto simp: strip_suffix_char_def split: if_splits)
next
  assume "s = r @ [c]"
  then show "strip_suffix_char s c = Some r" by (simp add: strip_suffix_char_def)
qed

lemma strip_suffix_char_None_iff: "strip_suffix_char s c = None \<longleftrightarrow> (\<forall>r. s \<noteq> r @ [c])"
  using strip_suffix_char_Some_iff [of s c] by (cases "strip_suffix_char s c") auto

lemma split_once_Some_iff: "split_once c s = Some (a, b) \<longleftrightarrow> s = a @ c # b \<and> c \<notin> set a"
proof (induction s arbitrary: a)
  case Nil
  then show ?case by simp
next
  case (Cons x xs)
  show ?case
  proof (cases a)
    case Nil
    then show ?thesis by (auto split: option.splits)
  next
    case (Cons y ys)
    have "split_once c (x # xs) = Some (y # ys, b) \<longleftrightarrow>
        x \<noteq> c \<and> x = y \<and> split_once c xs = Some (ys, b)"
      by (auto split: option.splits)
    with Cons Cons.IH show ?thesis by auto
  qed
qed

lemma split_once_None_iff: "split_once c s = None \<longleftrightarrow> c \<notin> set s"
  by (induction s) (auto split: option.splits)

lemma split_once_append [simp]: "c \<notin> set a \<Longrightarrow> split_once c (a @ c # b) = Some (a, b)"
  by (simp add: split_once_Some_iff)

lemma split_on_not_Nil [simp]: "split_on c s \<noteq> []"
  by (cases s) (auto split: list.splits)

lemma split_on_no_sep: "c \<notin> set s \<Longrightarrow> split_on c s = [s]"
  by (induction s) (auto split: list.splits)

lemma split_on_append: "c \<notin> set a \<Longrightarrow> split_on c (a @ c # b) = a # split_on c b"
  by (induction a) auto

lemma split_on_pieces: "p \<in> set (split_on c s) \<Longrightarrow> c \<notin> set p"
proof (induction s arbitrary: p)
  case Nil
  then show ?case by simp
next
  case (Cons x xs)
  show ?case
  proof (cases "split_on c xs")
    case Nil
    then show ?thesis by simp
  next
    case (Cons q qs)
    with Cons.prems Cons.IH show ?thesis by (auto split: if_splits)
  qed
qed

lemma join_Cons: "ps \<noteq> [] \<Longrightarrow> join sep (p # ps) = p @ sep @ join sep ps"
  by (cases ps) auto

text \<open>Splitting and joining with the same separator are inverse.\<close>

lemma join_split_on: "join [c] (split_on c s) = s"
proof (induction s)
  case Nil
  then show ?case by simp
next
  case (Cons x xs)
  obtain q qs where q: "split_on c xs = q # qs"
    by (meson list.exhaust split_on_not_Nil)
  show ?case
  proof (cases "x = c")
    case True
    with Cons show ?thesis by (simp add: join_Cons)
  next
    case False
    with Cons q show ?thesis by (cases qs) auto
  qed
qed

lemma split_on_join:
  "ps \<noteq> [] \<Longrightarrow> \<forall>p \<in> set ps. c \<notin> set p \<Longrightarrow> split_on c (join [c] ps) = ps"
proof (induction ps)
  case Nil
  then show ?case by simp
next
  case (Cons p ps)
  then show ?case
    by (cases ps) (auto simp: split_on_no_sep split_on_append)
qed

lemmas [str_simps] =
  strip_prefix_Some_iff strip_suffix_char_Some_iff split_once_Some_iff split_once_None_iff

text \<open>Printing and parsing an integer are inverse.\<close>

lemma of_char_digit: "d < 10 \<Longrightarrow> of_char (char_of (48 + d :: nat)) = 48 + d"
  by simp

lemma is_ascii_digit_of: "is_ascii_digit c \<longleftrightarrow> 48 \<le> (of_char c :: nat) \<and> (of_char c :: nat) \<le> 57"
  by (simp add: is_ascii_digit_def less_eq_char_def)

lemma is_ascii_digit_char: "d < 10 \<Longrightarrow> is_ascii_digit (char_of (48 + d :: nat))"
  by (simp add: is_ascii_digit_of)

lemma digits_val_append:
  "digits_val acc (a @ b) = (case digits_val acc a of None \<Rightarrow> None | Some v \<Rightarrow> digits_val v b)"
  by (induction acc a rule: digits_val.induct) auto

lemma digits_val_show_nat: "digits_val 0 (show_nat n) = Some n"
proof (induction n rule: show_nat.induct)
  case (1 n)
  show ?case
  proof (cases "n < 10")
    case True
    then show ?thesis by (subst show_nat.simps) (simp add: is_ascii_digit_char)
  next
    case False
    then show ?thesis
      by (subst show_nat.simps) (simp add: "1.IH" digits_val_append is_ascii_digit_char)
  qed
qed

lemma show_nat_digits: "list_all is_ascii_digit (show_nat n)"
proof (induction n rule: show_nat.induct)
  case (1 n)
  then show ?case by (subst show_nat.simps) (simp add: is_ascii_digit_char)
qed

lemma show_nat_not_Nil [simp]: "show_nat n \<noteq> []"
  by (subst show_nat.simps) simp

lemma parse_digits_show_nat [simp]: "parse_digits (show_nat n) = Some n"
  by (simp add: parse_digits_def digits_val_show_nat)

lemma show_nat_Cons: "show_nat n = c # cs \<Longrightarrow> is_ascii_digit c"
  using show_nat_digits [of n] by simp

lemma not_digit_sign: "\<not> is_ascii_digit CHR ''-''" "\<not> is_ascii_digit CHR ''+''"
  by (simp_all add: is_ascii_digit_of)

lemma show_nat_sign:
  obtains c cs where "show_nat n = c # cs" "c \<noteq> CHR ''-''" "c \<noteq> CHR ''+''" "parse_digits (c # cs) = Some n"
proof -
  obtain c cs where c: "show_nat n = c # cs" by (meson list.exhaust show_nat_not_Nil)
  then have "c \<noteq> CHR ''-''" "c \<noteq> CHR ''+''" using show_nat_Cons not_digit_sign by blast+
  with c that show ?thesis using parse_digits_show_nat [of n] by simp
qed

lemma parse_unsigned_show_nat: "n < 2 ^ w \<Longrightarrow> parse_unsigned w (show_nat n) = Some n"
  by (rule show_nat_sign [of n]) (simp add: parse_unsigned_def)

lemma parse_signed_show_int:
  assumes "- (2 ^ (w - 1)) \<le> i" "i < 2 ^ (w - 1)"
  shows "parse_signed w (show_int i) = Some i"
proof (cases "i < 0")
  case True
  with assms show ?thesis by (simp add: parse_signed_def show_int_def)
next
  case False
  show ?thesis
    by (rule show_nat_sign [of "nat i"]) (use False assms in \<open>simp add: parse_signed_def show_int_def\<close>)
qed

section \<open>Ordered maps\<close>

text \<open>
  \<^verbatim>\<open>IndexMap::get\<close>, \<^verbatim>\<open>contains_key\<close> and \<^verbatim>\<open>insert\<close>: inserting an existing key keeps its
  position and replaces its value, a new key goes to the end.
\<close>

abbreviation im_get :: "('k \<times> 'v) list \<Rightarrow> 'k \<Rightarrow> 'v option" where
  "im_get \<equiv> map_of"

fun im_insert :: "'k \<Rightarrow> 'v \<Rightarrow> ('k \<times> 'v) list \<Rightarrow> ('k \<times> 'v) list" where
  "im_insert k v [] = [(k, v)]"
| "im_insert k v ((k', v') # m) =
     (if k' = k then (k', v) # m else (k', v') # im_insert k v m)"

definition im_contains :: "('k \<times> 'v) list \<Rightarrow> 'k \<Rightarrow> bool" where
  "im_contains m k \<longleftrightarrow> im_get m k \<noteq> None"

fun im_remove :: "'k \<Rightarrow> ('k \<times> 'v) list \<Rightarrow> ('k \<times> 'v) list" where
  "im_remove k [] = []"
| "im_remove k ((k', v') # m) = (if k' = k then m else (k', v') # im_remove k m)"

definition im_wf :: "('k \<times> 'v) list \<Rightarrow> bool" where
  "im_wf m \<longleftrightarrow> distinct (map fst m)"

lemma im_contains_iff [simp]: "im_contains m k \<longleftrightarrow> k \<in> fst ` set m"
  by (simp add: im_contains_def map_of_eq_None_iff)

lemma map_fst_im_insert:
  "map fst (im_insert k v m) = (if k \<in> fst ` set m then map fst m else map fst m @ [k])"
  by (induction k v m rule: im_insert.induct) simp_all

lemma keys_im_insert: "fst ` set (im_insert k v m) = insert k (fst ` set m)"
proof -
  have "set (map fst (im_insert k v m)) = insert k (set (map fst m))"
    unfolding map_fst_im_insert by auto
  then show ?thesis by simp
qed

lemma im_get_insert: "im_get (im_insert k v m) k' = (if k' = k then Some v else im_get m k')"
  by (induction k v m rule: im_insert.induct) auto

lemma im_insert_fresh: "k \<notin> fst ` set m \<Longrightarrow> im_insert k v m = m @ [(k, v)]"
  by (induction k v m rule: im_insert.induct) auto

lemma im_wf_insert: "im_wf m \<Longrightarrow> im_wf (im_insert k v m)"
  by (simp add: im_wf_def map_fst_im_insert)

lemma map_fst_im_remove:
  "distinct (map fst m) \<Longrightarrow> map fst (im_remove k m) = filter (\<lambda>x. x \<noteq> k) (map fst m)"
proof (induction k m rule: im_remove.induct)
  case (1 k)
  then show ?case by simp
next
  case (2 k k' v' m)
  have "filter (\<lambda>x. x \<noteq> k) (map fst m) = map fst m" if "k \<notin> set (map fst m)"
    using that by (induction m) auto
  with 2 show ?case by auto
qed

lemma im_remove_keys: "im_wf m \<Longrightarrow> fst ` set (im_remove k m) = fst ` set m - {k}"
proof -
  assume "im_wf m"
  then have "set (map fst (im_remove k m)) = {x \<in> set (map fst m). x \<noteq> k}"
    by (simp only: im_wf_def map_fst_im_remove set_filter)
  then show ?thesis by auto
qed

lemma im_get_remove:
  "im_wf m \<Longrightarrow> im_get (im_remove k m) k' = (if k' = k then None else im_get m k')"
proof (induction k m rule: im_remove.induct)
  case (1 k)
  then show ?case by simp
next
  case (2 k k1 v1 m)
  have "im_get m k1 = None" using "2.prems" by (simp add: im_wf_def map_of_eq_None_iff)
  with 2 show ?case by (auto simp: im_wf_def)
qed

lemma set_im_remove: "set (im_remove k m) \<subseteq> set m"
  by (induction k m rule: im_remove.induct) auto

lemma im_wf_remove: "im_wf m \<Longrightarrow> im_wf (im_remove k m)"
  by (simp add: im_wf_def map_fst_im_remove)

text \<open>The contract the clients of a map rely on, and that the association lists keep it.\<close>

locale ordered_map =
  fixes get :: "'m \<Rightarrow> 'k \<Rightarrow> 'v option"
    and ins :: "'k \<Rightarrow> 'v \<Rightarrow> 'm \<Rightarrow> 'm"
    and del :: "'k \<Rightarrow> 'm \<Rightarrow> 'm"
    and inv :: "'m \<Rightarrow> bool"
  assumes get_ins: "get (ins k v m) k' = (if k' = k then Some v else get m k')"
    and get_del: "inv m \<Longrightarrow> get (del k m) k' = (if k' = k then None else get m k')"
    and inv_ins: "inv m \<Longrightarrow> inv (ins k v m)"
    and inv_del: "inv m \<Longrightarrow> inv (del k m)"
begin

lemma get_ins_same: "get (ins k v m) k = Some v"
  by (simp add: get_ins)

lemma get_ins_other: "k' \<noteq> k \<Longrightarrow> get (ins k v m) k' = get m k'"
  by (simp add: get_ins)

lemma get_del_same: "inv m \<Longrightarrow> get (del k m) k = None"
  by (simp add: get_del)

lemma get_ins_twice: "get (ins k w (ins k v m)) = get (ins k w m)"
  by (rule ext) (simp add: get_ins)

lemma get_del_ins: "inv m \<Longrightarrow> get m k = None \<Longrightarrow> get (del k (ins k v m)) = get m"
  by (rule ext) (simp add: get_ins get_del inv_ins)

end

interpretation im: ordered_map im_get im_insert im_remove im_wf
  by unfold_locales (simp_all add: im_get_insert im_get_remove im_wf_insert im_wf_remove)

lemmas [map_laws] = im.get_ins im.get_del im.inv_ins im.inv_del

lemma im_get_SomeD: "im_get m k = Some v \<Longrightarrow> (k, v) \<in> set m"
  by (rule map_of_SomeD)

lemma im_get_wf_iff: "im_wf m \<Longrightarrow> im_get m k = Some v \<longleftrightarrow> (k, v) \<in> set m"
  by (simp add: im_wf_def)

section \<open>Reachability\<close>

text \<open>
  A transition system with an inductive invariant: the contract of every state machine of
  the development. Reachability is the library's \<open>rtranclp\<close>.
\<close>

locale invariant_system =
  fixes init :: "'s \<Rightarrow> bool"
    and step :: "'s \<Rightarrow> 's \<Rightarrow> bool"
    and inv :: "'s \<Rightarrow> bool"
  assumes inv_init: "init s \<Longrightarrow> inv s"
    and inv_step: "step s t \<Longrightarrow> inv s \<Longrightarrow> inv t"
begin

lemma inv_steps: "step\<^sup>*\<^sup>* s t \<Longrightarrow> inv s \<Longrightarrow> inv t"
  by (induction rule: rtranclp_induct) (auto intro: inv_step)

lemma inv_reachable: "init s \<Longrightarrow> step\<^sup>*\<^sup>* s t \<Longrightarrow> inv t"
  by (blast intro: inv_init inv_steps)

end

end
