(* ===== verification/Hot_Val.thy ===== *)
theory Hot_Val
  imports Hot_Prelude "HOL-Library.Word"
begin

text \<open>
  The values of the language, \<^verbatim>\<open>crates/hot/src/val.rs\<close>: equality, the tagged representation of typed
  values, access and update by a dotted path, and merging.

  \<open>val\<close> has the constructors of \<^verbatim>\<open>enum Val\<close>. \<^verbatim>\<open>D256\<close> is a type of the crate \<^verbatim>\<open>fastnum\<close> and a
  boxed value is of any type with the trait \<^verbatim>\<open>ValBox\<close>: both are type parameters, and what the code
  uses of them is the record \<open>val_env\<close>. An \<^verbatim>\<open>i64\<close> is an \<open>int\<close> (nothing here computes with it).
  The entries of an \<^verbatim>\<open>IndexMap<Val, Val>\<close> are an association list in insertion order. A lookup finds
  the entry whose key is equal and has the same hash: \<open>key_eq\<close> is \<^verbatim>\<open>eq\<close> without the comparisons
  across variants, which hash differently.
\<close>

section \<open>Values\<close>

datatype ('d, 'b) val =
    VInt int
  | VDec 'd
  | VStr string
  | VBool bool
  | VVec "('d, 'b) val list"
  | VMap "(('d, 'b) val \<times> ('d, 'b) val) list"
  | VBox 'b
  | VByte "8 word"
  | VBytes "8 word list"
  | VNull

type_synonym ('d, 'b) vmap = "(('d, 'b) val \<times> ('d, 'b) val) list"

text \<open>The size of a value, by which the functions on values terminate.\<close>

primrec vsize :: "('d, 'b) val \<Rightarrow> nat" where
  "vsize (VInt _) = 1"
| "vsize (VDec _) = 1"
| "vsize (VStr _) = 1"
| "vsize (VBool _) = 1"
| "vsize (VVec xs) = 2 + sum_list (map Suc (map vsize xs))"
| "vsize (VMap m) = 2 + sum_list (map (\<lambda>(k, v). Suc (k + v)) (map (map_prod vsize vsize) m))"
| "vsize (VBox _) = 1"
| "vsize (VByte _) = 1"
| "vsize (VBytes _) = 1"
| "vsize VNull = 1"

definition vsizes :: "('d, 'b) val list \<Rightarrow> nat" where
  "vsizes xs = sum_list (map (\<lambda>x. Suc (vsize x)) xs)"

definition msize :: "('d, 'b) vmap \<Rightarrow> nat" where
  "msize m = sum_list (map (\<lambda>(k, v). Suc (vsize k + vsize v)) m)"

lemma vsizes_simps [simp]: "vsizes [] = 0" "vsizes (x # xs) = Suc (vsize x + vsizes xs)"
  by (simp_all add: vsizes_def)

lemma msize_simps [simp]: "msize [] = 0" "msize ((k, v) # m) = Suc (vsize k + vsize v + msize m)"
  by (simp_all add: msize_def)

lemma vsize_VVec [simp]: "vsize (VVec xs) = 2 + vsizes xs"
  by (simp add: vsizes_def comp_def)

lemma vsize_VMap [simp]: "vsize (VMap m) = 2 + msize m"
  by (simp add: msize_def comp_def case_prod_unfold)

declare vsize.simps(5,6) [simp del]

text \<open>
  What is used of \<^verbatim>\<open>D256\<close> (\<^verbatim>\<open>==\<close>, \<^verbatim>\<open><\<close>, \<^verbatim>\<open><=\<close>, \<^verbatim>\<open>floor\<close>, \<^verbatim>\<open>to_i64\<close>, \<^verbatim>\<open>from\<close>, \<^verbatim>\<open>from_str\<close>), of
  \<^verbatim>\<open>serde_json::Number\<close> (parsing, and its \<^verbatim>\<open>as_i64\<close>), of the crate \<^verbatim>\<open>regex\<close> (compiling a pattern,
  \<open>None\<close> when it is refused, and matching; \<open>max_regex_input\<close> is the configured limit of its input) and of boxed values (\<^verbatim>\<open>equals\<close>). \<open>display\<close> is the text of
  a value in a message.
\<close>

record ('d, 'b) val_env =
  dec_eq :: "'d \<Rightarrow> 'd \<Rightarrow> bool"
  dec_less :: "'d \<Rightarrow> 'd \<Rightarrow> bool"
  dec_le :: "'d \<Rightarrow> 'd \<Rightarrow> bool"
  dec_floor :: "'d \<Rightarrow> 'd"
  dec_to_i64 :: "'d \<Rightarrow> int option"
  dec_of_i64 :: "int \<Rightarrow> 'd"
  dec_parse :: "string \<Rightarrow> 'd option"
  json_number :: "string \<Rightarrow> int option option"
  regex_match :: "string \<Rightarrow> (string \<Rightarrow> bool) option"
  max_regex_input :: nat
  box_eq :: "'b \<Rightarrow> 'b \<Rightarrow> bool"
  display :: "('d, 'b) val \<Rightarrow> string"

function key_eq :: "('d, 'b) val_env \<Rightarrow> ('d, 'b) val \<Rightarrow> ('d, 'b) val \<Rightarrow> bool"
  and keys_eq :: "('d, 'b) val_env \<Rightarrow> ('d, 'b) val list \<Rightarrow> ('d, 'b) val list \<Rightarrow> bool"
  and key_entries :: "('d, 'b) val_env \<Rightarrow> ('d, 'b) vmap \<Rightarrow> ('d, 'b) vmap \<Rightarrow> bool" where
  "key_eq E (VInt a) w = (case w of VInt b \<Rightarrow> a = b | _ \<Rightarrow> False)"
| "key_eq E (VDec a) w = (case w of VDec b \<Rightarrow> dec_eq E a b | _ \<Rightarrow> False)"
| "key_eq E (VStr a) w = (case w of VStr b \<Rightarrow> a = b | _ \<Rightarrow> False)"
| "key_eq E (VBool a) w = (case w of VBool b \<Rightarrow> a = b | _ \<Rightarrow> False)"
| "key_eq E (VVec a) w = (case w of VVec b \<Rightarrow> keys_eq E a b | _ \<Rightarrow> False)"
| "key_eq E (VMap a) w = (case w of VMap b \<Rightarrow> length a = length b \<and> key_entries E a b | _ \<Rightarrow> False)"
| "key_eq E (VBox a) w = (case w of VBox b \<Rightarrow> box_eq E a b | _ \<Rightarrow> False)"
| "key_eq E (VByte a) w = (case w of VByte b \<Rightarrow> a = b | _ \<Rightarrow> False)"
| "key_eq E (VBytes a) w = (case w of VBytes b \<Rightarrow> a = b | _ \<Rightarrow> False)"
| "key_eq E VNull w = (case w of VNull \<Rightarrow> True | _ \<Rightarrow> False)"
| "keys_eq E [] ys = (ys = [])"
| "keys_eq E (x # xs) ys = (case ys of [] \<Rightarrow> False | y # ys' \<Rightarrow> key_eq E x y \<and> keys_eq E xs ys')"
| "key_entries E [] b = True"
| "key_entries E ((k, v) # a) b =
     ((case find (\<lambda>e. key_eq E k (fst e)) b of None \<Rightarrow> False | Some e \<Rightarrow> key_eq E v (snd e)) \<and>
      key_entries E a b)"
  by pat_completeness auto
termination
  by (relation "measure (case_sum (\<lambda>(_, v, _). vsize v)
      (case_sum (\<lambda>(_, xs, _). vsizes xs) (\<lambda>(_, m, _). msize m)))") auto

text \<open>\<^verbatim>\<open>IndexMap::get\<close>, \<^verbatim>\<open>contains_key\<close> and \<^verbatim>\<open>insert\<close>, which keeps the key it finds.\<close>

definition map_get :: "('d, 'b) val_env \<Rightarrow> ('d, 'b) vmap \<Rightarrow> ('d, 'b) val \<Rightarrow> ('d, 'b) val option" where
  "map_get E m k = map_option snd (find (\<lambda>e. key_eq E k (fst e)) m)"

definition contains_key :: "('d, 'b) val_env \<Rightarrow> ('d, 'b) vmap \<Rightarrow> ('d, 'b) val \<Rightarrow> bool" where
  "contains_key E m k \<longleftrightarrow> map_get E m k \<noteq> None"

fun map_insert :: "('d, 'b) val_env \<Rightarrow> ('d, 'b) val \<Rightarrow> ('d, 'b) val \<Rightarrow> ('d, 'b) vmap \<Rightarrow> ('d, 'b) vmap" where
  "map_insert E k v [] = [(k, v)]"
| "map_insert E k v ((k', v') # m) =
     (if key_eq E k k' then (k', v) # m else (k', v') # map_insert E k v m)"

definition byte_eq_int :: "8 word \<Rightarrow> int \<Rightarrow> bool" where
  "byte_eq_int a b \<longleftrightarrow> 0 \<le> b \<and> b \<le> 255 \<and> uint a = b"

definition byte_eq_val :: "8 word \<Rightarrow> ('d, 'b) val \<Rightarrow> bool" where
  "byte_eq_val byte v = (case v of VInt i \<Rightarrow> byte_eq_int byte i | VByte b \<Rightarrow> byte = b | _ \<Rightarrow> False)"

definition bytes_eq_vec :: "8 word list \<Rightarrow> ('d, 'b) val list \<Rightarrow> bool" where
  "bytes_eq_vec bytes vs \<longleftrightarrow> length bytes = length vs \<and> list_all2 byte_eq_val bytes vs"

function val_eq :: "('d, 'b) val_env \<Rightarrow> ('d, 'b) val \<Rightarrow> ('d, 'b) val \<Rightarrow> bool"
  and vals_eq :: "('d, 'b) val_env \<Rightarrow> ('d, 'b) val list \<Rightarrow> ('d, 'b) val list \<Rightarrow> bool"
  and entries_eq :: "('d, 'b) val_env \<Rightarrow> ('d, 'b) vmap \<Rightarrow> ('d, 'b) vmap \<Rightarrow> bool" where
  "val_eq E (VInt a) w = (case w of VInt b \<Rightarrow> a = b | VByte b \<Rightarrow> byte_eq_int b a | _ \<Rightarrow> False)"
| "val_eq E (VDec a) w = (case w of VDec b \<Rightarrow> dec_eq E a b | _ \<Rightarrow> False)"
| "val_eq E (VStr a) w = (case w of VStr b \<Rightarrow> a = b | _ \<Rightarrow> False)"
| "val_eq E (VBool a) w = (case w of VBool b \<Rightarrow> a = b | _ \<Rightarrow> False)"
| "val_eq E (VVec a) w = (case w of VVec b \<Rightarrow> vals_eq E a b | VBytes b \<Rightarrow> bytes_eq_vec b a | _ \<Rightarrow> False)"
| "val_eq E (VMap a) w = (case w of VMap b \<Rightarrow> length a = length b \<and> entries_eq E a b | _ \<Rightarrow> False)"
| "val_eq E (VBox a) w = (case w of VBox b \<Rightarrow> box_eq E a b | _ \<Rightarrow> False)"
| "val_eq E (VByte a) w = (case w of VByte b \<Rightarrow> a = b | VInt b \<Rightarrow> byte_eq_int a b | _ \<Rightarrow> False)"
| "val_eq E (VBytes a) w = (case w of VBytes b \<Rightarrow> a = b | VVec b \<Rightarrow> bytes_eq_vec a b | _ \<Rightarrow> False)"
| "val_eq E VNull w = (case w of VNull \<Rightarrow> True | _ \<Rightarrow> False)"
| "vals_eq E [] ys = (ys = [])"
| "vals_eq E (x # xs) ys = (case ys of [] \<Rightarrow> False | y # ys' \<Rightarrow> val_eq E x y \<and> vals_eq E xs ys')"
| "entries_eq E [] b = True"
| "entries_eq E ((k, v) # a) b =
     ((case find (\<lambda>e. key_eq E k (fst e)) b of None \<Rightarrow> False | Some e \<Rightarrow> val_eq E v (snd e)) \<and>
      entries_eq E a b)"
  by pat_completeness auto
termination
  by (relation "measure (case_sum (\<lambda>(_, v, _). vsize v)
      (case_sum (\<lambda>(_, xs, _). vsizes xs) (\<lambda>(_, m, _). msize m)))") auto

section \<open>Typed values\<close>

text \<open>A lookup of a string key needs no \<open>val_env\<close>: see \<open>map_get_str\<close>.\<close>

definition str_get :: "('d, 'b) vmap \<Rightarrow> string \<Rightarrow> ('d, 'b) val option" where
  "str_get m s = im_get m (VStr s)"

definition tagged_type_name :: "('d, 'b) vmap \<Rightarrow> string option" where
  "tagged_type_name m = (case str_get m ''$type'' of Some (VStr name) \<Rightarrow> Some name | _ \<Rightarrow> None)"

definition names_variant :: "string \<Rightarrow> bool" where
  "names_variant type_name \<longleftrightarrow> CHR ''.'' \<in> set (last (split_on CHR ''/'' type_name))"

definition wrapper_key :: "('d, 'b) val \<Rightarrow> bool" where
  "wrapper_key k = (case k of VStr name \<Rightarrow> name \<in> {''$type'', ''$val'', ''$origin''} | _ \<Rightarrow> False)"

definition is_tagged_wrapper :: "('d, 'b) vmap \<Rightarrow> bool" where
  "is_tagged_wrapper m =
     (case tagged_type_name m of
        None \<Rightarrow> False
      | Some type_name \<Rightarrow>
          (if \<not> starts_with type_name ''::'' then False
           else if str_get m ''$val'' \<noteq> None then list_all (\<lambda>e. wrapper_key (fst e)) m
           else length m = 1 \<and> names_variant type_name))"

definition has_type :: "string \<Rightarrow> ('d, 'b) val \<Rightarrow> bool" where
  "has_type name v = (case v of VMap m \<Rightarrow> tagged_type_name m = Some name | _ \<Rightarrow> False)"

definition is_ok :: "('d, 'b) val \<Rightarrow> bool" where
  "is_ok v = has_type ''::hot::type/Result.Ok'' v"

definition is_err :: "('d, 'b) val \<Rightarrow> bool" where
  "is_err v = has_type ''::hot::type/Result.Err'' v"

definition payload :: "('d, 'b) val \<Rightarrow> ('d, 'b) val option" where
  "payload v = (case v of VMap m \<Rightarrow> str_get m ''$val'' | _ \<Rightarrow> None)"

definition unwrap_ok :: "('d, 'b) val \<Rightarrow> ('d, 'b) val option" where
  "unwrap_ok v = (if is_ok v then payload v else None)"

definition unwrap_err :: "('d, 'b) val \<Rightarrow> ('d, 'b) val option" where
  "unwrap_err v = (if is_err v then payload v else None)"

definition is_cancelled :: "('d, 'b) val \<Rightarrow> bool" where
  "is_cancelled v \<longleftrightarrow> has_type ''::hot::run/Cancellation'' v \<or> has_type ''::hot::task/Cancellation'' v"

definition unwrap_cancelled :: "('d, 'b) val \<Rightarrow> ('d, 'b) val option" where
  "unwrap_cancelled v = (if is_cancelled v then payload v else None)"

definition is_type :: "('d, 'b) val \<Rightarrow> string \<Rightarrow> bool" where
  "is_type v type_name = has_type type_name v"

definition val_ok :: "('d, 'b) val \<Rightarrow> ('d, 'b) val" where
  "val_ok v = VMap [(VStr ''$type'', VStr ''::hot::type/Result.Ok''), (VStr ''$val'', v)]"

definition val_err :: "('d, 'b) val \<Rightarrow> ('d, 'b) val" where
  "val_err v = VMap [(VStr ''$type'', VStr ''::hot::type/Result.Err''), (VStr ''$val'', v)]"

definition constructed :: "string \<Rightarrow> ('d, 'b) vmap \<Rightarrow> ('d, 'b) val" where
  "constructed type_name flds =
     VMap [(VStr ''$type'', VStr type_name), (VStr ''$val'', VMap flds)]"

definition typed_map :: "string \<Rightarrow> ('d, 'b) vmap \<Rightarrow> ('d, 'b) val" where
  "typed_map type_name content = VMap (im_insert (VStr ''$type'') (VStr type_name) content)"

definition typed_fields :: "('d, 'b) val \<Rightarrow> ('d, 'b) val option" where
  "typed_fields v =
     (case v of
        VMap m \<Rightarrow>
          (if \<not> is_tagged_wrapper m \<or> is_err v then None
           else case str_get m ''$val'' of Some (VMap flds) \<Rightarrow> Some (VMap flds) | _ \<Rightarrow> None)
      | _ \<Rightarrow> None)"

definition as_fields :: "('d, 'b) val \<Rightarrow> ('d, 'b) val" where
  "as_fields v = (case typed_fields v of Some flds \<Rightarrow> flds | None \<Rightarrow> v)"

definition map_spread_entries :: "('d, 'b) val \<Rightarrow> ('d, 'b) vmap option" where
  "map_spread_entries source =
     (case source of
        VMap m \<Rightarrow>
          (if \<not> is_tagged_wrapper m \<or> is_err source then Some m
           else case typed_fields source of Some (VMap flds) \<Rightarrow> Some flds | _ \<Rightarrow> None)
      | _ \<Rightarrow> None)"

definition as_scalar :: "('d, 'b) val \<Rightarrow> ('d, 'b) val" where
  "as_scalar v =
     (case v of
        VMap m \<Rightarrow>
          (if \<not> is_tagged_wrapper m \<or> (case tagged_type_name m of Some n \<Rightarrow> names_variant n | None \<Rightarrow> False)
           then v
           else case str_get m ''$val'' of
                  Some (VInt i) \<Rightarrow> VInt i
                | Some (VDec d) \<Rightarrow> VDec d
                | Some (VStr s) \<Rightarrow> VStr s
                | Some (VBool b) \<Rightarrow> VBool b
                | _ \<Rightarrow> v)
      | _ \<Rightarrow> v)"

text \<open>
  The wrapper's entries are collected with the payload in place of what \<^verbatim>\<open>$val\<close> has. Its keys are
  distinct, so this is an insert at \<^verbatim>\<open>$val\<close>, which is there.
\<close>

definition with_type_of :: "('d, 'b) val \<Rightarrow> ('d, 'b) val \<Rightarrow> ('d, 'b) val" where
  "with_type_of original flds =
     (case original of
        VMap m \<Rightarrow>
          (if typed_fields original = None then flds
           else VMap (im_insert (VStr ''$val'') flds m))
      | _ \<Rightarrow> flds)"

function is_truthy :: "('d, 'b) val \<Rightarrow> bool"
  and ok_truthy :: "('d, 'b) vmap \<Rightarrow> bool" where
  "is_truthy (VBool b) = b"
| "is_truthy VNull = False"
| "is_truthy (VMap m) =
     (if is_ok (VMap m) then ok_truthy m else \<not> is_err (VMap m))"
| "is_truthy (VInt _) = True"
| "is_truthy (VDec _) = True"
| "is_truthy (VStr _) = True"
| "is_truthy (VVec _) = True"
| "is_truthy (VBox _) = True"
| "is_truthy (VByte _) = True"
| "is_truthy (VBytes _) = True"
| "ok_truthy [] = False"
| "ok_truthy ((k, v) # m) = (if k = VStr ''$val'' then is_truthy v else ok_truthy m)"
  by pat_completeness auto
termination
  by (relation "measure (case_sum vsize msize)") auto

definition is_struct_like_type :: "('d, 'b) val \<Rightarrow> bool" where
  "is_struct_like_type v =
     (case v of VMap m \<Rightarrow> str_get m ''$type'' \<noteq> None \<and> str_get m ''$val'' \<noteq> None | _ \<Rightarrow> False)"

section \<open>Paths\<close>

text \<open>
  The member a step of a path names: of a map the key, or the field of its \<^verbatim>\<open>$val\<close> map when the key
  is not there and the map is struct-like; of a vector the element at an index.
\<close>

definition map_member :: "('d, 'b) vmap \<Rightarrow> string \<Rightarrow> ('d, 'b) val option" where
  "map_member m part =
     (case str_get m part of
        Some value \<Rightarrow> Some value
      | None \<Rightarrow>
          (if is_struct_like_type (VMap m) then
             (case str_get m ''$val'' of Some (VMap val_map) \<Rightarrow> str_get val_map part | _ \<Rightarrow> None)
           else None))"

definition vec_member :: "('d, 'b) val list \<Rightarrow> string \<Rightarrow> ('d, 'b) val option" where
  "vec_member xs part =
     (case parse_usize part of
        Some index \<Rightarrow> (if index < length xs then Some (xs ! index) else None)
      | None \<Rightarrow> None)"

fun get_by_deep_path_parts :: "('d, 'b) val \<Rightarrow> string list \<Rightarrow> ('d, 'b) val option" where
  "get_by_deep_path_parts v [] = Some v"
| "get_by_deep_path_parts v (part # rest) =
     (case v of
        VMap m \<Rightarrow>
          (case map_member m part of
             Some value \<Rightarrow> (if rest = [] then Some value else get_by_deep_path_parts value rest)
           | None \<Rightarrow> None)
      | VVec xs \<Rightarrow>
          (case vec_member xs part of
             Some value \<Rightarrow> (if rest = [] then Some value else get_by_deep_path_parts value rest)
           | None \<Rightarrow> None)
      | _ \<Rightarrow> (if rest = [] then Some v else None))"

definition val_get :: "('d, 'b) val \<Rightarrow> string \<Rightarrow> ('d, 'b) val option" where
  "val_get v path =
     (if path = [] then Some v else get_by_deep_path_parts v (split_on CHR ''.'' path))"

text \<open>\<^verbatim>\<open>Vec::resize(n, Val::Null)\<close> of a shorter vector.\<close>

definition resize :: "('d, 'b) val list \<Rightarrow> nat \<Rightarrow> ('d, 'b) val list" where
  "resize xs n = xs @ replicate (n - length xs) VNull"

definition starts_numeric :: "string list \<Rightarrow> bool" where
  "starts_numeric parts \<longleftrightarrow> parts \<noteq> [] \<and> parse_usize (hd parts) \<noteq> None"

function set_by_deep_path_parts ::
    "('d, 'b) val \<Rightarrow> string list \<Rightarrow> ('d, 'b) val \<Rightarrow> ('d, 'b) val" where
  "set_by_deep_path_parts v [] value = value"
| "set_by_deep_path_parts v (part # rest) value =
     (case v of
        VMap m \<Rightarrow>
          (if rest = [] then
             (if is_struct_like_type v \<and> part \<noteq> ''$type'' \<and> part \<noteq> ''$val'' then
                (case str_get m ''$val'' of
                   Some (VMap val_map) \<Rightarrow>
                     VMap (im_insert (VStr ''$val'') (VMap (im_insert (VStr part) value val_map)) m)
                 | _ \<Rightarrow> VMap (im_insert (VStr ''$val'') (VMap [(VStr part, value)]) m))
              else VMap (im_insert (VStr part) value m))
           else
             (case str_get m part of
                Some existing \<Rightarrow>
                  VMap (im_insert (VStr part) (set_by_deep_path_parts existing rest value) m)
              | None \<Rightarrow>
                  (case (if is_struct_like_type v then str_get m ''$val'' else None) of
                     Some (VMap val_map) \<Rightarrow>
                       VMap (im_insert (VStr ''$val'')
                         (VMap (im_insert (VStr part)
                           (case str_get val_map part of
                              Some existing \<Rightarrow> set_by_deep_path_parts existing rest value
                            | None \<Rightarrow> set_by_deep_path_parts (VMap []) rest value) val_map)) m)
                   | _ \<Rightarrow>
                       VMap (im_insert (VStr part)
                         (if starts_numeric rest then set_by_deep_path_parts (VVec []) rest value
                          else set_by_deep_path_parts (VMap []) rest value) m))))
      | VVec xs \<Rightarrow>
          (case parse_usize part of
             Some index \<Rightarrow>
               (let new_vec = (if index \<ge> length xs then resize xs (index + 1) else xs)
                in VVec (new_vec[index :=
                     (if rest = [] then value
                      else set_by_deep_path_parts (new_vec ! index) rest value)]))
           | None \<Rightarrow>
               VMap [(VStr part,
                 if rest = [] then value else set_by_deep_path_parts (VMap []) rest value)])
      | _ \<Rightarrow>
          (let next = (if rest = [] then value
                       else if starts_numeric rest then set_by_deep_path_parts (VVec []) rest value
                       else set_by_deep_path_parts (VMap []) rest value)
           in case parse_usize part of
                Some index \<Rightarrow> VVec ((replicate (index + 1) VNull)[index := next])
              | None \<Rightarrow> VMap [(VStr part, next)]))"
  by pat_completeness auto
termination
  by (relation "measure (\<lambda>(_, parts, _). length parts)") auto

definition val_set :: "('d, 'b) val \<Rightarrow> string \<Rightarrow> ('d, 'b) val \<Rightarrow> ('d, 'b) val" where
  "val_set v path value =
     (if path = [] then value else set_by_deep_path_parts v (split_on CHR ''.'' path) value)"

section \<open>Merging\<close>

function merge :: "('d, 'b) val_env \<Rightarrow> ('d, 'b) val \<Rightarrow> ('d, 'b) val \<Rightarrow> ('d, 'b) val"
  and merge_entries ::
    "('d, 'b) val_env \<Rightarrow> ('d, 'b) vmap \<Rightarrow> ('d, 'b) vmap \<Rightarrow> ('d, 'b) vmap \<Rightarrow> ('d, 'b) vmap" where
  "merge E (VMap m1) other =
     (case other of
        VMap m2 \<Rightarrow>
          (if m1 = [] then VMap m2
           else if m2 = [] then VMap m1
           else if \<not> list_ex (\<lambda>e. contains_key E m1 (fst e)) m2 then
             VMap (fold (\<lambda>(k, v). map_insert E k v) m2 (fold (\<lambda>(k, v). map_insert E k v) m1 []))
           else
             VMap (fold (\<lambda>(k, v) result. if contains_key E m1 k then result else map_insert E k v result)
               m2 (merge_entries E m1 m2 [])))
      | _ \<Rightarrow> other)"
| "merge E (VInt _) other = other"
| "merge E (VDec _) other = other"
| "merge E (VStr _) other = other"
| "merge E (VBool _) other = other"
| "merge E (VVec _) other = other"
| "merge E (VBox _) other = other"
| "merge E (VByte _) other = other"
| "merge E (VBytes _) other = other"
| "merge E VNull other = other"
| "merge_entries E [] m2 result = result"
| "merge_entries E ((key, value1) # rest) m2 result =
     merge_entries E rest m2
       (map_insert E key
         (case map_get E m2 key of Some value2 \<Rightarrow> merge E value1 value2 | None \<Rightarrow> value1) result)"
  by pat_completeness auto
termination
  by (relation "measure (case_sum (\<lambda>(_, v, _). vsize v) (\<lambda>(_, m, _). msize m))") auto

section \<open>Lookups of string keys\<close>

lemma key_eq_str [simp]: "key_eq E (VStr s) w \<longleftrightarrow> w = VStr s"
  by (cases w) auto

lemma val_eq_str [simp]: "val_eq E (VStr s) w \<longleftrightarrow> w = VStr s"
  by (cases w) auto

declare key_eq.simps(3) [simp del] val_eq.simps(3) [simp del]

lemma map_get_str: "map_get E m (VStr s) = str_get m s"
  unfolding map_get_def str_get_def by (induction m) auto

lemma map_insert_str: "map_insert E (VStr s) v m = im_insert (VStr s) v m"
  by (induction m) auto

lemma str_get_insert [simp]:
  "str_get (im_insert (VStr k) v m) s = (if s = k then Some v else str_get m s)"
  by (simp add: str_get_def im_get_insert)

lemma str_get_simps [simp]:
  "str_get [] s = None" "str_get ((k, v) # m) s = (if k = VStr s then Some v else str_get m s)"
  by (simp_all add: str_get_def)

lemma msize_mem: "(k, v) \<in> set m \<Longrightarrow> vsize k + vsize v < msize m"
  by (induction m) fastforce+

lemma vsizes_mem: "x \<in> set xs \<Longrightarrow> vsize x < vsizes xs"
  by (induction xs) fastforce+

lemma str_get_mem: "str_get m s = Some v \<Longrightarrow> (VStr s, v) \<in> set m"
  unfolding str_get_def by (rule im_get_SomeD)

lemma vsize_pos [simp]: "0 < vsize v"
  by (cases v) simp_all

lemma str_get_size: "str_get m s = Some v \<Longrightarrow> vsize v < msize m"
  using msize_mem [OF str_get_mem] vsize_pos [of "VStr s"] by (metis add_lessD1 add.commute)

definition str_keyed :: "('d, 'b) vmap \<Rightarrow> bool" where
  "str_keyed m \<longleftrightarrow> (\<forall>e \<in> set m. \<exists>s. fst e = VStr s) \<and> distinct (map fst m)"

lemma str_keyed_Cons:
  "str_keyed (e # m) \<longleftrightarrow> (\<exists>s v. e = (VStr s, v) \<and> str_get m s = None) \<and> str_keyed m"
  by (cases e) (auto simp: str_keyed_def str_get_def map_of_eq_None_iff)

lemma str_keyed_code [code]:
  "str_keyed m \<longleftrightarrow> list_all (\<lambda>e. case fst e of VStr _ \<Rightarrow> True | _ \<Rightarrow> False) m \<and> distinct (map fst m)"
proof -
  have "(\<exists>s. k = VStr s) \<longleftrightarrow> (case k of VStr _ \<Rightarrow> True | _ \<Rightarrow> False)" for k :: "('a, 'b) val"
    by (cases k) auto
  then show ?thesis by (simp add: str_keyed_def list_all_iff)
qed

section \<open>An instance\<close>

text \<open>Decimals with one fractional digit, as a number of tenths: an instance of what is used of \<^verbatim>\<open>D256\<close>.\<close>

definition tenths_env :: "(int, unit) val_env" where
  "tenths_env =
     \<lparr>dec_eq = (=), dec_less = (<), dec_le = (\<le>), dec_floor = (\<lambda>d. d div 10 * 10), dec_to_i64 = (\<lambda>d. Some (d div 10)),
      dec_of_i64 = (\<lambda>n. n * 10), dec_parse = (\<lambda>s. map_option (\<lambda>n. n * 10) (parse_signed 64 s)),
      json_number = (\<lambda>s. map_option Some (parse_signed 64 s)), regex_match = (\<lambda>p. Some (\<lambda>s. contains_sub s p)), max_regex_input = 1000000,
      box_eq = (=), display = (\<lambda>_. ''value'')\<rparr>"

lemma tenths_env_simps [simp]:
  "dec_eq tenths_env = (=)" "dec_less tenths_env = (<)" "dec_le tenths_env = (\<le>)" "dec_floor tenths_env d = d div 10 * 10"
  "dec_to_i64 tenths_env d = Some (d div 10)" "dec_of_i64 tenths_env n = n * 10" "box_eq tenths_env = (=)"
  by (simp_all add: tenths_env_def)

end
