(* ===== verification/Hot_Path.thy ===== *)
theory Hot_Path
  imports Hot_Val
begin

text \<open>
  What \<open>Val::get\<close>, \<open>Val::set\<close> and \<open>Val::merge\<close> of \<^verbatim>\<open>crates/hot/src/val.rs\<close> promise: reading the path
  just written, leaving the others alone, and the lookup of a merged map. Allocation does not fail: an index beyond the
  length fills a vector with \<^verbatim>\<open>Null\<close> up to it, where a vector of \<^verbatim>\<open>index + 1\<close> elements that does not fit the memory ends the program.
\<close>

section \<open>Reading what was written\<close>

text \<open>
  The one write a read does not see: the last part names a member that a struct-like map has beside
  its \<^verbatim>\<open>$type\<close> and \<^verbatim>\<open>$val\<close>. The write goes into the \<^verbatim>\<open>$val\<close> map, the read finds the member first.
\<close>

fun shadowed :: "('d, 'b) val \<Rightarrow> string list \<Rightarrow> bool" where
  "shadowed v [] = False"
| "shadowed v (part # rest) =
     (case v of
        VMap m \<Rightarrow>
          (if rest = [] then
             is_struct_like_type v \<and> part \<notin> {''$type'', ''$val''} \<and> str_get m part \<noteq> None
           else case map_member m part of Some u \<Rightarrow> shadowed u rest | None \<Rightarrow> False)
      | VVec xs \<Rightarrow>
          (case vec_member xs part of Some u \<Rightarrow> rest \<noteq> [] \<and> shadowed u rest | None \<Rightarrow> False)
      | _ \<Rightarrow> False)"

lemma get_step_map:
  "get_by_deep_path_parts (VMap m) (part # rest) =
     (case map_member m part of Some u \<Rightarrow> get_by_deep_path_parts u rest | None \<Rightarrow> None)"
  by (cases rest) (auto split: option.split)

lemma get_step_vec:
  "get_by_deep_path_parts (VVec xs) (part # rest) =
     (case vec_member xs part of Some u \<Rightarrow> get_by_deep_path_parts u rest | None \<Rightarrow> None)"
  by (cases rest) (auto split: option.split)

lemma map_member_insert:
  "map_member (im_insert (VStr part) u m) part = Some u"
  by (simp add: map_member_def)

lemma map_member_insert_val:
  assumes "is_struct_like_type (VMap m)" "str_get m part = None"
  shows "map_member (im_insert (VStr ''$val'') (VMap w) m) part = str_get w part"
proof -
  have "part \<noteq> ''$val''" using assms by (auto simp: is_struct_like_type_def)
  then show ?thesis using assms by (simp add: map_member_def is_struct_like_type_def)
qed

lemma vec_member_update:
  assumes "parse_usize part = Some index"
  shows "vec_member ((if index \<ge> length xs then resize xs (index + 1) else xs)[index := u]) part = Some u"
  using assms by (auto simp: vec_member_def resize_def)

lemma vec_member_resize:
  assumes "parse_usize part = Some index"
  shows "(if index \<ge> length xs then resize xs (index + 1) else xs) ! index =
    (case vec_member xs part of Some u \<Rightarrow> u | None \<Rightarrow> VNull)"
  using assms by (auto simp: vec_member_def resize_def nth_append)

lemma vec_member_new:
  "parse_usize part = Some i \<Longrightarrow> i < n \<Longrightarrow> vec_member ((replicate n VNull)[i := u]) part = Some u"
  by (simp add: vec_member_def)

lemma shadowed_scalar [simp]: "\<not> shadowed VNull parts" "\<not> shadowed (VMap []) parts" "\<not> shadowed (VVec []) parts"
  by (cases parts; simp add: map_member_def vec_member_def is_struct_like_type_def split: option.split)+

declare set_by_deep_path_parts.simps(2) [simp del] get_by_deep_path_parts.simps(2) [simp del]
  shadowed.simps(2) [simp del]

definition member :: "('d, 'b) val \<Rightarrow> string \<Rightarrow> ('d, 'b) val option" where
  "member v part = (case v of VMap m \<Rightarrow> map_member m part | VVec xs \<Rightarrow> vec_member xs part | _ \<Rightarrow> None)"

definition container :: "('d, 'b) val \<Rightarrow> bool" where
  "container v = (case v of VMap _ \<Rightarrow> True | VVec _ \<Rightarrow> True | _ \<Rightarrow> False)"

lemma container_simps [simp]: "container (VMap m)" "container (VVec xs)" "member (VMap m) = map_member m"
  "member (VVec xs) = vec_member xs"
  by (auto simp: container_def member_def)

lemma get_step:
  "container v \<Longrightarrow> get_by_deep_path_parts v (part # rest) =
     (case member v part of Some u \<Rightarrow> get_by_deep_path_parts u rest | None \<Rightarrow> None)"
  by (cases v) (auto simp: container_def get_step_map get_step_vec)

text \<open>What a write leaves at the first part of its path: the member there, written further on.\<close>

definition fresh_for :: "string list \<Rightarrow> ('d, 'b) val" where
  "fresh_for rest = (if starts_numeric rest then VVec [] else VMap [])"

lemma set_last_map:
  assumes "\<not> shadowed (VMap m) [part]"
  shows "container (set_by_deep_path_parts (VMap m) [part] x) \<and>
    member (set_by_deep_path_parts (VMap m) [part] x) part = Some x"
  using assms
  by (auto simp: set_by_deep_path_parts.simps(2) shadowed.simps(2) map_member_insert
      map_member_insert_val split: option.split val.split)

lemma set_map:
  assumes "rest \<noteq> []"
  shows "\<exists>u. container (set_by_deep_path_parts (VMap m) (part # rest) x) \<and>
    member (set_by_deep_path_parts (VMap m) (part # rest) x) part = Some (set_by_deep_path_parts u rest x) \<and>
    (map_member m part = Some u \<or> map_member m part = None \<and> u \<in> {VMap [], fresh_for rest})"
proof (cases "str_get m part")
  case (Some u)
  then show ?thesis using assms
    by (auto simp: set_by_deep_path_parts.simps(2) map_member_insert map_member_def)
next
  case None
  show ?thesis
  proof (cases "\<exists>w. is_struct_like_type (VMap m) \<and> str_get m ''$val'' = Some (VMap w)")
    case True
    then obtain w where w: "is_struct_like_type (VMap m)" "str_get m ''$val'' = Some (VMap w)" by blast
    have "map_member m part = str_get w part" using None w by (simp add: map_member_def)
    then show ?thesis using assms None w
      by (cases "str_get w part")
        (auto simp: set_by_deep_path_parts.simps(2) map_member_insert_val)
  next
    case False
    then have "map_member m part = None" using None
      by (auto simp: map_member_def split: option.split val.split)
    moreover have "set_by_deep_path_parts (VMap m) (part # rest) x =
        VMap (im_insert (VStr part) (set_by_deep_path_parts (fresh_for rest) rest x) m)"
      using assms None False
      by (auto simp: set_by_deep_path_parts.simps(2) fresh_for_def split: option.split val.split)
    ultimately show ?thesis by (auto simp: map_member_insert)
  qed
qed

lemma set_vec:
  "\<exists>u. container (set_by_deep_path_parts (VVec xs) (part # rest) x) \<and>
    member (set_by_deep_path_parts (VVec xs) (part # rest) x) part = Some (set_by_deep_path_parts u rest x) \<and>
    (vec_member xs part = Some u \<or> vec_member xs part = None \<and> u \<in> {VNull, VMap []})"
proof (cases "parse_usize part")
  case (Some index)
  let ?new = "if index \<ge> length xs then resize xs (index + 1) else xs"
  have "set_by_deep_path_parts (VVec xs) (part # rest) x =
      VVec (?new[index := set_by_deep_path_parts (?new ! index) rest x])"
    using Some by (cases "rest = []")
      (simp_all add: set_by_deep_path_parts.simps(2) [of "VVec xs"] Let_def split del: if_split)
  then show ?thesis
    using vec_member_update [OF Some, of xs] vec_member_resize [OF Some, of xs]
    by (cases "vec_member xs part") (simp_all split del: if_split, blast+)
next
  case None
  then have "vec_member xs part = None" by (simp add: vec_member_def)
  moreover have "set_by_deep_path_parts (VVec xs) (part # rest) x =
      VMap [(VStr part, set_by_deep_path_parts (VMap []) rest x)]"
    using None by (cases "rest = []") (simp_all add: set_by_deep_path_parts.simps(2) [of "VVec xs"])
  ultimately show ?thesis by (intro exI [of _ "VMap []"]) (simp add: map_member_def)
qed

lemma set_scalar:
  assumes "\<not> container v"
  shows "\<exists>u. container (set_by_deep_path_parts v (part # rest) x) \<and>
    member (set_by_deep_path_parts v (part # rest) x) part = Some (set_by_deep_path_parts u rest x) \<and>
    u \<in> {VMap [], fresh_for rest}"
proof -
  have eq: "set_by_deep_path_parts v (part # rest) x =
    (case parse_usize part of
       Some index \<Rightarrow> VVec ((replicate (index + 1) VNull)[index := set_by_deep_path_parts (fresh_for rest) rest x])
     | None \<Rightarrow> VMap [(VStr part, set_by_deep_path_parts (fresh_for rest) rest x)])"
    using assms
    by (cases v; cases rest) (auto simp: set_by_deep_path_parts.simps(2) container_def fresh_for_def Let_def
        starts_numeric_def split: option.split)
  then show ?thesis
  proof (cases "parse_usize part")
    case (Some i)
    have "vec_member ((replicate (i + 1) VNull)[i := set_by_deep_path_parts (fresh_for rest) rest x]) part =
        Some (set_by_deep_path_parts (fresh_for rest) rest x)"
      by (rule vec_member_new [OF Some]) simp
    with Some eq show ?thesis by (intro exI [of _ "fresh_for rest"]) (simp only: option.case container_simps insertI1 insertI2 simp_thms)
  qed (auto simp: map_member_def)
qed

lemma set_step:
  assumes "\<not> shadowed v (part # rest)"
  shows "\<exists>u. container (set_by_deep_path_parts v (part # rest) x) \<and>
    member (set_by_deep_path_parts v (part # rest) x) part = Some (set_by_deep_path_parts u rest x) \<and>
    \<not> shadowed u rest"
proof (cases "container v")
  case False
  from set_scalar [OF this, of part rest x] obtain u where
    "container (set_by_deep_path_parts v (part # rest) x)"
    "member (set_by_deep_path_parts v (part # rest) x) part = Some (set_by_deep_path_parts u rest x)"
    "u \<in> {VMap [], fresh_for rest}" by blast
  moreover from this have "\<not> shadowed u rest" by (cases "starts_numeric rest") (auto simp: fresh_for_def)
  ultimately show ?thesis by blast
next
  case True
  then consider m where "v = VMap m" "rest = []" | m where "v = VMap m" "rest \<noteq> []" | xs where "v = VVec xs"
    by (cases v) (auto simp: container_def)
  then show ?thesis
  proof cases
    case 1
    then show ?thesis using set_last_map [of m part x] assms by auto
  next
    case 2
    from set_map [OF this(2), of m part x] obtain u where
      "container (set_by_deep_path_parts (VMap m) (part # rest) x)"
      "member (set_by_deep_path_parts (VMap m) (part # rest) x) part = Some (set_by_deep_path_parts u rest x)"
      "map_member m part = Some u \<or> map_member m part = None \<and> u \<in> {VMap [], fresh_for rest}" by blast
    moreover from this(3) have "\<not> shadowed u rest"
      using 2 assms by (cases "starts_numeric rest") (auto simp: shadowed.simps(2) fresh_for_def)
    ultimately show ?thesis unfolding 2(1) by blast
  next
    case 3
    from set_vec [of xs part rest x] obtain u where
      "container (set_by_deep_path_parts (VVec xs) (part # rest) x)"
      "member (set_by_deep_path_parts (VVec xs) (part # rest) x) part = Some (set_by_deep_path_parts u rest x)"
      "vec_member xs part = Some u \<or> vec_member xs part = None \<and> u \<in> {VNull, VMap []}" by blast
    moreover from this(3) have "\<not> shadowed u rest"
      using 3 assms by (cases "rest = []") (auto simp: shadowed.simps(2) [of _ part])
    ultimately show ?thesis unfolding 3 by blast
  qed
qed

lemma get_set_parts:
  "\<not> shadowed v parts \<Longrightarrow> get_by_deep_path_parts (set_by_deep_path_parts v parts x) parts = Some x"
proof (induction parts arbitrary: v)
  case (Cons part rest)
  from set_step [OF Cons.prems, of x] Cons.IH show ?case by (auto simp: get_step)
qed simp

section \<open>Leaving other paths alone\<close>

definition field_part :: "string \<Rightarrow> bool" where
  "field_part part \<longleftrightarrow> part \<noteq> ''$type'' \<and> part \<noteq> ''$val''"

lemma struct_like_insert:
  "field_part a \<Longrightarrow> is_struct_like_type (VMap (im_insert (VStr a) u m)) = is_struct_like_type (VMap m)"
  by (auto simp: is_struct_like_type_def field_part_def)

lemma map_member_insert_other:
  assumes "field_part a" "a \<noteq> b"
  shows "map_member (im_insert (VStr a) u m) b = map_member m b"
proof -
  have "''$val'' \<noteq> a" using assms(1) by (auto simp: field_part_def)
  then show ?thesis using assms(2)
    by (cases "str_get m b") (simp_all add: map_member_def struct_like_insert [OF assms(1)])
qed

lemma map_member_val_other:
  assumes "is_struct_like_type (VMap m)" "field_part b" "a \<noteq> b"
    "w = (case str_get m ''$val'' of Some (VMap w') \<Rightarrow> w' | _ \<Rightarrow> [])"
  shows "map_member (im_insert (VStr ''$val'') (VMap (im_insert (VStr a) u w)) m) b = map_member m b"
  using assms
  by (auto simp: map_member_def field_part_def is_struct_like_type_def split: option.splits val.splits)

lemma set_map_other:
  assumes "field_part a" "field_part b" "a \<noteq> b"
  shows "\<exists>m'. set_by_deep_path_parts (VMap m) (a # rest) x = VMap m' \<and> map_member m' b = map_member m b"
proof (cases "is_struct_like_type (VMap m) \<and> (rest = [] \<or> str_get m a = None \<and> (\<exists>w. str_get m ''$val'' = Some (VMap w)))")
  case True
  then have sl: "is_struct_like_type (VMap m)" by simp
  let ?w = "case str_get m ''$val'' of Some (VMap w') \<Rightarrow> w' | _ \<Rightarrow> []"
  have "\<exists>u. set_by_deep_path_parts (VMap m) (a # rest) x =
      VMap (im_insert (VStr ''$val'') (VMap (im_insert (VStr a) u ?w)) m)"
    using True assms(1)
    by (cases "rest = []")
      (auto simp: set_by_deep_path_parts.simps(2) [of _ a] field_part_def split: option.splits val.splits)
  then obtain u where u: "set_by_deep_path_parts (VMap m) (a # rest) x =
      VMap (im_insert (VStr ''$val'') (VMap (im_insert (VStr a) u ?w)) m)" ..
  show ?thesis unfolding u using map_member_val_other [OF sl assms(2,3) refl, of u] by blast
next
  case False
  have "\<exists>u. set_by_deep_path_parts (VMap m) (a # rest) x = VMap (im_insert (VStr a) u m)"
    using False assms(1)
    by (cases "rest = []")
      (auto simp: set_by_deep_path_parts.simps(2) [of _ a] field_part_def split: option.splits val.splits)
  then show ?thesis using map_member_insert_other [OF assms(1,3)] by auto
qed

lemma set_member:
  assumes "container v" "member v part = Some u" "rest \<noteq> []"
  shows "container (set_by_deep_path_parts v (part # rest) x) \<and>
    member (set_by_deep_path_parts v (part # rest) x) part = Some (set_by_deep_path_parts u rest x)"
proof (cases v)
  case (VVec xs)
  then show ?thesis using set_vec [of xs part rest x] assms(2) by auto
next
  case (VMap m)
  then show ?thesis using set_map [OF assms(3), of m part x] assms(2) by auto
qed (use assms(1) in \<open>auto simp: container_def\<close>)

lemma get_set_other:
  assumes "get_by_deep_path_parts v pre = Some (VMap m)" "field_part a" "field_part b" "a \<noteq> b"
  shows "get_by_deep_path_parts (set_by_deep_path_parts v (pre @ a # p) x) (pre @ b # q) =
    get_by_deep_path_parts v (pre @ b # q)"
  using assms(1)
proof (induction pre arbitrary: v)
  case Nil
  then show ?case using set_map_other [OF assms(2-4), of m p x] by (auto simp: get_step_map)
next
  case (Cons part pre)
  have v: "container v"
    using Cons.prems by (cases v) (auto simp: get_by_deep_path_parts.simps(2) split: if_splits)
  then obtain u where u: "member v part = Some u" "get_by_deep_path_parts u pre = Some (VMap m)"
    using Cons.prems by (auto simp: get_step split: option.splits)
  show ?case using set_member [OF v u(1), of "pre @ a # p" x] Cons.IH [OF u(2)] u(1) v
    by (simp add: get_step)
qed

lemma get_append:
  "get_by_deep_path_parts v p = Some u \<Longrightarrow> container u \<or> q = [] \<Longrightarrow>
   get_by_deep_path_parts v (p @ q) = get_by_deep_path_parts u q"
proof (induction p arbitrary: v)
  case (Cons part p)
  show ?case
  proof (cases "container v")
    case True
    then show ?thesis using Cons by (auto simp: get_step split: option.splits)
  next
    case False
    then have "p = [] \<and> u = v"
      using Cons.prems(1) by (cases v) (auto simp: get_by_deep_path_parts.simps(2) container_def split: if_splits)
    then show ?thesis using Cons.prems False by auto
  qed
qed simp

section \<open>Merging\<close>

lemma fold_insert_keyed:
  assumes "str_keyed m" "\<And>s. VStr s \<in> fst ` set m \<Longrightarrow> VStr s \<notin> fst ` set acc"
  shows "fold (\<lambda>(k, v). map_insert E k v) m acc = acc @ m"
  using assms
proof (induction m arbitrary: acc)
  case (Cons e m)
  then obtain s v where e: "e = (VStr s, v)" "str_get m s = None" "str_keyed m" by (auto simp: str_keyed_Cons)
  then have "im_insert (VStr s) v acc = acc @ [(VStr s, v)]" using Cons.prems(2) [of s] by (simp add: im_insert_fresh)
  then show ?case using Cons.IH [OF e(3), of "acc @ [(VStr s, v)]"] Cons.prems(2) e
    by (auto simp: map_insert_str str_get_def map_of_eq_None_iff)
qed simp

lemma merge_entries_keyed:
  assumes "str_keyed m" "\<And>s. VStr s \<in> fst ` set m \<Longrightarrow> VStr s \<notin> fst ` set acc"
  shows "merge_entries E m m2 acc = acc @ map (\<lambda>(k, v). (k, case map_get E m2 k of Some w \<Rightarrow> merge E v w | None \<Rightarrow> v)) m"
  using assms
proof (induction m arbitrary: acc)
  case (Cons e m)
  then obtain s v where e: "e = (VStr s, v)" "str_get m s = None" "str_keyed m" by (auto simp: str_keyed_Cons)
  let ?v = "case map_get E m2 (VStr s) of Some w \<Rightarrow> merge E v w | None \<Rightarrow> v"
  have "im_insert (VStr s) ?v acc = acc @ [(VStr s, ?v)]"
    using Cons.prems(2) [of s] e by (simp add: im_insert_fresh)
  then show ?case using Cons.IH [OF e(3), of "acc @ [(VStr s, ?v)]"] Cons.prems(2) e
    by (auto simp: map_insert_str str_get_def map_of_eq_None_iff)
qed simp

lemma fold_new_keyed:
  assumes "str_keyed m" "\<And>s. VStr s \<in> fst ` set m \<Longrightarrow> \<not> P (VStr s) \<Longrightarrow> VStr s \<notin> fst ` set acc"
  shows "fold (\<lambda>(k, v) result. if P k then result else map_insert E k v result) m acc =
    acc @ filter (\<lambda>e. \<not> P (fst e)) m"
  using assms
proof (induction m arbitrary: acc)
  case (Cons e m)
  then obtain s v where e: "e = (VStr s, v)" "str_get m s = None" "str_keyed m" by (auto simp: str_keyed_Cons)
  show ?case
  proof (cases "P (VStr s)")
    case True
    then show ?thesis using Cons.IH [OF e(3), of acc] Cons.prems(2) e by auto
  next
    case False
    then have "im_insert (VStr s) v acc = acc @ [(VStr s, v)]"
      using Cons.prems(2) [of s] e by (simp add: im_insert_fresh)
    then show ?thesis using False Cons.IH [OF e(3), of "acc @ [(VStr s, v)]"] Cons.prems(2) e
      by (auto simp: map_insert_str str_get_def map_of_eq_None_iff)
  qed
qed simp

text \<open>What a merge of two maps is on every path through the code: the entries of the first, merged
  with those of the second, then the entries only the second has.\<close>

definition merged :: "('d, 'b) val_env \<Rightarrow> ('d, 'b) vmap \<Rightarrow> ('d, 'b) vmap \<Rightarrow> ('d, 'b) vmap" where
  "merged E m1 m2 =
     map (\<lambda>(k, v). (k, case map_get E m2 k of Some w \<Rightarrow> merge E v w | None \<Rightarrow> v)) m1 @
     filter (\<lambda>e. \<not> contains_key E m1 (fst e)) m2"

lemma contains_str: "contains_key E m (VStr s) \<longleftrightarrow> VStr s \<in> fst ` set m"
  by (auto simp: contains_key_def map_get_str str_get_def map_of_eq_None_iff)

lemma merge_maps:
  assumes "str_keyed m1" "str_keyed m2"
  shows "merge E (VMap m1) (VMap m2) = VMap (merged E m1 m2)"
proof -
  have keys1: "fst e \<in> fst ` set m1 \<Longrightarrow> \<exists>s. fst e = VStr s" for e using assms(1) by (auto simp: str_keyed_def)
  consider "m1 = []" | "m2 = []" | "m1 \<noteq> []" "m2 \<noteq> []" "\<not> list_ex (\<lambda>e. contains_key E m1 (fst e)) m2"
    | "m1 \<noteq> []" "m2 \<noteq> []" "list_ex (\<lambda>e. contains_key E m1 (fst e)) m2" by blast
  then show ?thesis
  proof cases
    case 1
    then show ?thesis by (simp add: merged_def contains_key_def map_get_def)
  next
    case 2
    then show ?thesis by (simp add: merged_def map_get_def case_prod_unfold)
  next
    case 3
    have none: "map_get E m2 (VStr s) = None" if "VStr s \<in> fst ` set m1" for s
    proof (rule ccontr)
      assume "map_get E m2 (VStr s) \<noteq> None"
      then obtain e where "e \<in> set m2" "fst e = VStr s"
        by (force simp: map_get_str str_get_def dest: im_get_SomeD)
      moreover from this(2) have "contains_key E m1 (fst e)" using that contains_str [of E m1 s] by simp
      ultimately show False using 3(3) by (auto simp: list_ex_iff)
    qed
    have "map (\<lambda>(k, v). (k, case map_get E m2 k of Some w \<Rightarrow> merge E v w | None \<Rightarrow> v)) m1 = m1"
      using none assms(1) by (intro map_idI) (force simp: str_keyed_def)
    moreover have "filter (\<lambda>e. \<not> contains_key E m1 (fst e)) m2 = m2"
      using 3(3) by (auto simp: list_ex_iff filter_id_conv)
    moreover have "fold (\<lambda>(k, v). map_insert E k v) m2 (fold (\<lambda>(k, v). map_insert E k v) m1 []) = m1 @ m2"
      using fold_insert_keyed [OF assms(1), of "[]" E] fold_insert_keyed [OF assms(2), of m1 E] 3(3)
      by (force simp: list_ex_iff contains_str)
    ultimately show ?thesis using 3 by (simp add: merged_def)
  next
    case 4
    have "merge_entries E m1 m2 [] =
        map (\<lambda>(k, v). (k, case map_get E m2 k of Some w \<Rightarrow> merge E v w | None \<Rightarrow> v)) m1"
      using merge_entries_keyed [OF assms(1), of "[]" E m2] by simp
    then show ?thesis using 4 fold_new_keyed [OF assms(2), of "contains_key E m1" "merge_entries E m1 m2 []" E]
      by (simp add: merged_def contains_str image_image case_prod_unfold)
  qed
qed

lemma str_get_merged:
  assumes "str_keyed m1" "str_keyed m2"
  shows "str_get (merged E m1 m2) s =
    (case (str_get m1 s, str_get m2 s) of
       (Some v, Some w) \<Rightarrow> Some (merge E v w) | (Some v, None) \<Rightarrow> Some v | (None, r) \<Rightarrow> r)"
proof -
  have one: "str_get (map (\<lambda>(k, v). (k, f k v)) m @ r) s =
      (case str_get m s of Some v \<Rightarrow> Some (f (VStr s) v) | None \<Rightarrow> str_get r s)" for f m r
    by (induction m) auto
  have two: "str_get (filter (\<lambda>e. \<not> contains_key E m1 (fst e)) m) s =
      (if contains_key E m1 (VStr s) then None else str_get m s)" for m
    by (induction m) auto
  show ?thesis unfolding merged_def one two
    by (auto simp: map_get_str contains_key_def split: option.splits)
qed

section \<open>Properties\<close>

text \<open>C21. Reading a path of a value after writing it returns what was written, whatever the value
  and whatever is created or replaced on the way, unless the last part names a member that a typed
  value keeps beside its fields.\<close>
theorem val_get_set:
  assumes "\<not> shadowed v (split_on CHR ''.'' path)"
  shows "val_get (val_set v path x) path = Some x"
  using get_set_parts [OF assms] by (simp add: val_get_def val_set_def)

theorem val_get_set_witness:
  "val_get (val_set (constructed ''::app/Server'' [(VStr ''port'', VInt 1)]) ''opts.1.name'' (VStr ''x'') :: (unit, unit) val)
    ''opts.1.name'' = Some (VStr ''x'')"
  by (rule val_get_set) (simp add: constructed_def shadowed.simps(2) map_member_def vec_member_def is_struct_like_type_def)

text \<open>Writing below one field of a map leaves every path below another field of it as it was,
  at any depth and also when the map is a typed value.\<close>
theorem val_set_frame:
  assumes "get_by_deep_path_parts v pre = Some (VMap m)" "a \<noteq> b"
    "a \<notin> {''$type'', ''$val''}" "b \<notin> {''$type'', ''$val''}"
  shows "get_by_deep_path_parts (set_by_deep_path_parts v (pre @ a # p) x) (pre @ b # q) =
    get_by_deep_path_parts v (pre @ b # q)"
  using get_set_other [OF assms(1)] assms(2-4) by (simp add: field_part_def)

theorem val_set_frame_witness:
  "get_by_deep_path_parts
     (set_by_deep_path_parts (VMap [(VStr ''u'', constructed ''::app/User'' [(VStr ''age'', VInt 7)])])
       [''u'', ''name''] (VStr ''J'')) [''u'', ''age''] = Some (VInt 7 :: (unit, unit) val)"
proof -
  have "get_by_deep_path_parts
     (set_by_deep_path_parts (VMap [(VStr ''u'', constructed ''::app/User'' [(VStr ''age'', VInt 7)])])
       ([''u''] @ ''name'' # []) (VStr ''J'')) ([''u''] @ ''age'' # []) =
     get_by_deep_path_parts (VMap [(VStr ''u'', constructed ''::app/User'' [(VStr ''age'', VInt 7)])] :: (unit, unit) val)
       ([''u''] @ ''age'' # [])"
    by (rule val_set_frame) (simp_all add: get_step_map map_member_def constructed_def)
  then show ?thesis by (simp add: get_step_map map_member_def constructed_def is_struct_like_type_def)
qed

text \<open>Reading a path in two steps agrees with reading it at once when the first step ends in a
  map or a vector, but not when it ends in a scalar: a scalar answers any single part with itself, so
  reading on from it finds a value that the whole path does not have.\<close>
theorem val_get_two_steps:
  "(get_by_deep_path_parts v p = Some u \<longrightarrow> container u \<longrightarrow>
     get_by_deep_path_parts v (p @ q) = get_by_deep_path_parts u q) \<and>
   (\<not> container u \<longrightarrow> get_by_deep_path_parts u [a] = Some u \<and> get_by_deep_path_parts u [a, b] = None)"
  using get_append [of v p u q] by (cases u) (auto simp: get_by_deep_path_parts.simps(2) container_def)

theorem val_get_two_steps_witness:
  "get_by_deep_path_parts (VMap [(VStr ''n'', VMap [(VStr ''k'', VInt 1)])]) ([''n''] @ [''k'']) =
     Some (VInt 1 :: (unit, unit) val) \<and>
   get_by_deep_path_parts (VInt 5 :: (unit, unit) val) [''x''] = Some (VInt 5)"
proof -
  have "get_by_deep_path_parts (VMap [(VStr ''n'', VMap [(VStr ''k'', VInt 1)])]) ([''n''] @ [''k'']) =
      get_by_deep_path_parts (VMap [(VStr ''k'', VInt 1)] :: (unit, unit) val) [''k'']"
    using val_get_two_steps [of "VMap [(VStr ''n'', VMap [(VStr ''k'', VInt 1)])]" "[''n'']"
        "VMap [(VStr ''k'', VInt 1)]" "[''k'']"] by (simp add: get_step_map map_member_def)
  moreover have "get_by_deep_path_parts (VInt 5 :: (unit, unit) val) [''x''] = Some (VInt 5)"
    using val_get_two_steps [where u = "VInt 5 :: (unit, unit) val" and a = "''x''"] by (simp add: container_def)
  ultimately show ?thesis by (simp add: get_step_map map_member_def)
qed

text \<open>Merging two maps with string keys, by whichever of the fast paths the code takes, gives a
  map that looks up a key of both as the merge of their values and any other key where it is, and that
  keeps the keys of the first map in order, followed by the new keys of the second.\<close>
theorem merge_lookup:
  assumes "str_keyed m1" "str_keyed m2"
  shows "\<exists>m. merge E (VMap m1) (VMap m2) = VMap m \<and>
    map fst m = map fst m1 @ filter (\<lambda>k. k \<notin> set (map fst m1)) (map fst m2) \<and>
    (\<forall>s. str_get m s =
       (case (str_get m1 s, str_get m2 s) of
          (Some v, Some w) \<Rightarrow> Some (merge E v w) | (Some v, None) \<Rightarrow> Some v | (None, r) \<Rightarrow> r))"
proof (intro exI [of _ "merged E m1 m2"] conjI allI)
  show "merge E (VMap m1) (VMap m2) = VMap (merged E m1 m2)" by (rule merge_maps [OF assms])
  have "contains_key E m1 (fst e) \<longleftrightarrow> fst e \<in> fst ` set m1" if e: "e \<in> set m2" for e
  proof -
    obtain s where "fst e = VStr s" using assms(2) e by (auto simp: str_keyed_def)
    then show ?thesis using contains_str [of E m1 s] by simp
  qed
  then show "map fst (merged E m1 m2) = map fst m1 @ filter (\<lambda>k. k \<notin> set (map fst m1)) (map fst m2)"
    by (simp add: merged_def case_prod_unfold comp_def filter_map cong: filter_cong)
qed (rule str_get_merged [OF assms])

theorem merge_lookup_witness:
  "str_get (case merge tenths_env (VMap [(VStr ''s'', VMap [(VStr ''t'', VInt 1)])]) (VMap [(VStr ''s'', VMap [(VStr ''l'', VInt 2)])])
     of VMap m \<Rightarrow> m) ''s'' =
   Some (merge tenths_env (VMap [(VStr ''t'', VInt 1)]) (VMap [(VStr ''l'', VInt 2)]))"
proof -
  let ?a = "[(VStr ''s'', VMap [(VStr ''t'', VInt 1)])] :: (int, unit) vmap"
    and ?b = "[(VStr ''s'', VMap [(VStr ''l'', VInt 2)])] :: (int, unit) vmap"
  have "str_keyed ?a" "str_keyed ?b" by (simp_all add: str_keyed_def)
  from merge_lookup [OF this, of tenths_env] obtain m where m: "merge tenths_env (VMap ?a) (VMap ?b) = VMap m"
    "\<forall>s. str_get m s =
       (case (str_get ?a s, str_get ?b s) of
          (Some v, Some w) \<Rightarrow> Some (merge tenths_env v w) | (Some v, None) \<Rightarrow> Some v | (None, r) \<Rightarrow> r)" by blast
  show ?thesis unfolding m(1) val.case using m(2) [rule_format, of "''s''"]
    by (simp del: merge.simps)
qed

end
