(* ===== verification/Hot_Constraint.thy ===== *)
theory Hot_Constraint
  imports Hot_Val
begin

text \<open>
  Runtime checks of \<^verbatim>\<open>where\<close> constraints and declared types: the specs the compiler builds for
  primitive annotations (\<^verbatim>\<open>crates/hot/src/lang/compiler/constraint_specs.rs\<close>), the kind masks of the
  bytecode (\<^verbatim>\<open>param_mask\<close> in \<^verbatim>\<open>bytecode.rs\<close>) and the checks of the virtual machine
  (\<^verbatim>\<open>crates/hot/src/lang/runtime/vm/constraints.rs\<close>).

  A spec is a value, a map with a \<^verbatim>\<open>kind\<close> entry, as in the code; \<open>view_of\<close> reads the entries that the
  branch of \<^verbatim>\<open>check_value\<close> for that kind reads. \<open>check_value\<close> takes fuel: \<open>None\<close> is a check that has not
  ended yet. Of the virtual machine the state has what the checks use. Running a predicate is running
  a function of the checked program, so the call is the parameter \<open>ctx_call\<close>.
\<close>

unbundle bit_operations_syntax

section \<open>Kinds of values\<close>

definition K_NULL :: "32 word" where "K_NULL = 1"
definition K_BOOL :: "32 word" where "K_BOOL = 2"
definition K_INT :: "32 word" where "K_INT = 4"
definition K_DEC :: "32 word" where "K_DEC = 8"
definition K_STR :: "32 word" where "K_STR = 16"
definition K_VEC :: "32 word" where "K_VEC = 32"
definition K_MAP :: "32 word" where "K_MAP = 64"
definition K_BYTES :: "32 word" where "K_BYTES = 128"
definition K_BYTE :: "32 word" where "K_BYTE = 256"

fun kind_of :: "('d, 'b) val \<Rightarrow> 32 word option" where
  "kind_of VNull = Some K_NULL"
| "kind_of (VBool _) = Some K_BOOL"
| "kind_of (VInt _) = Some K_INT"
| "kind_of (VDec _) = Some K_DEC"
| "kind_of (VStr _) = Some K_STR"
| "kind_of (VVec _) = Some K_VEC"
| "kind_of (VMap _) = Some K_MAP"
| "kind_of (VBytes _) = Some K_BYTES"
| "kind_of (VByte _) = Some K_BYTE"
| "kind_of (VBox _) = None"

definition accepts :: "('d, 'b) val \<Rightarrow> 32 word \<Rightarrow> bool" where
  "accepts value kinds = (case kind_of value of Some k \<Rightarrow> kinds AND k \<noteq> 0 | None \<Rightarrow> False)"

definition passes :: "('d, 'b) val \<Rightarrow> 32 word \<Rightarrow> bool \<Rightarrow> bool" where
  "passes value kinds each =
     (if \<not> each then accepts value kinds
      else case value of VVec items \<Rightarrow> list_all (\<lambda>item. accepts item kinds) items | _ \<Rightarrow> False)"

section \<open>Specs\<close>

definition node :: "string \<Rightarrow> (string \<times> ('d, 'b) val) list \<Rightarrow> ('d, 'b) val" where
  "node kind entries =
     VMap (fold (\<lambda>(k, v). im_insert (VStr k) v) entries [(VStr ''kind'', VStr kind)])"

definition spec_entry :: "('d, 'b) val \<Rightarrow> string \<Rightarrow> ('d, 'b) val option" where
  "spec_entry spec key = (case spec of VMap entries \<Rightarrow> str_get entries key | _ \<Rightarrow> None)"

definition get_str :: "('d, 'b) val \<Rightarrow> string \<Rightarrow> string option" where
  "get_str spec key = (case spec_entry spec key of Some (VStr s) \<Rightarrow> Some s | _ \<Rightarrow> None)"

lemma spec_entry_size: "spec_entry spec key = Some v \<Longrightarrow> vsize v < vsize spec"
  by (cases spec) (auto simp: spec_entry_def dest: str_get_size)

lemma spec_member_size: "spec_entry spec key = Some (VVec vs) \<Longrightarrow> v \<in> set vs \<Longrightarrow> vsize v < vsize spec"
  using spec_entry_size [of spec key "VVec vs"] vsizes_mem [of v vs] by simp

datatype builtin_type = BStr | BInt | BDec | BBool | BVec | BMap | BNull

datatype literal_type = LStr string | LInt int | LDec string | LBool bool | LNull

datatype type_expr =
    TSimple string
  | TGeneric string "type_expr list"
  | TUnion "type_expr list"
  | TOptional type_expr
  | TNamed string
  | TBuiltin builtin_type
  | TLiteral literal_type
  | TAny

fun builtin_name :: "builtin_type \<Rightarrow> string" where
  "builtin_name BStr = ''Str''"
| "builtin_name BInt = ''Int''"
| "builtin_name BDec = ''Dec''"
| "builtin_name BBool = ''Bool''"
| "builtin_name BVec = ''Vec''"
| "builtin_name BMap = ''Map''"
| "builtin_name BNull = ''Null''"

fun literal_val :: "('d, 'b) val_env \<Rightarrow> literal_type \<Rightarrow> ('d, 'b) val" where
  "literal_val E (LStr s) = VStr s"
| "literal_val E (LInt n) = VInt n"
| "literal_val E (LDec d) = (case dec_parse E d of Some x \<Rightarrow> VDec x | None \<Rightarrow> VStr d)"
| "literal_val E (LBool b) = VBool b"
| "literal_val E LNull = VNull"

definition is_base_type_name :: "string \<Rightarrow> bool" where
  "is_base_type_name name \<longleftrightarrow>
     name \<in> {''Str'', ''Int'', ''Dec'', ''Bool'', ''Vec'', ''Map'', ''Null'', ''Fn'', ''Bytes'', ''Byte''}"

definition base_mask :: "string \<Rightarrow> 32 word" where
  "base_mask type =
     (if type = ''Int'' then K_INT
      else if type = ''Dec'' then K_DEC
      else if type = ''Str'' then K_STR
      else if type = ''Bool'' then K_BOOL
      else if type = ''Vec'' then K_VEC
      else if type = ''Map'' then K_MAP
      else if type = ''Bytes'' then K_BYTES
      else if type = ''Byte'' then K_BYTE
      else if type = ''Null'' then K_NULL
      else 0)"

function spec_mask :: "('d, 'b) val \<Rightarrow> 32 word" where
  "spec_mask spec =
     (if get_str spec ''kind'' = Some ''base'' then
        (case get_str spec ''type'' of Some type \<Rightarrow> base_mask type | None \<Rightarrow> 0)
      else if get_str spec ''kind'' = Some ''optional'' then
        K_NULL OR (case spec_entry spec ''inner'' of Some inner \<Rightarrow> spec_mask inner | None \<Rightarrow> 0)
      else if get_str spec ''kind'' = Some ''union'' then
        (case spec_entry spec ''members'' of
           Some (VVec members) \<Rightarrow> foldl (OR) 0 (map spec_mask members)
         | _ \<Rightarrow> 0)
      else 0)"
  by pat_completeness auto
termination
  by (relation "measure vsize") (auto dest: spec_entry_size spec_member_size)

declare spec_mask.simps [simp del]

definition base_check :: "bool \<Rightarrow> string \<Rightarrow> ('d, 'b) val" where
  "base_check tagged name =
     node ''base'' ((''type'', VStr name) # (if tagged then [(''tagged'', VBool True)] else []))"

definition primitive :: "string \<Rightarrow> bool" where
  "primitive name \<longleftrightarrow> is_base_type_name name \<and> name \<noteq> ''Fn''"

text \<open>\<^verbatim>\<open>collect::<Option<Vec<_>>>\<close>.\<close>

fun all_some :: "'a option list \<Rightarrow> 'a list option" where
  "all_some [] = Some []"
| "all_some (x # xs) = (case x of None \<Rightarrow> None | Some y \<Rightarrow> map_option ((#) y) (all_some xs))"

fun plain_param_spec :: "type_expr \<Rightarrow> ('d, 'b) val option" where
  "plain_param_spec (TBuiltin builtin) = Some (base_check False (builtin_name builtin))"
| "plain_param_spec (TSimple name) = (if primitive name then Some (base_check False name) else None)"
| "plain_param_spec (TNamed name) = (if primitive name then Some (base_check False name) else None)"
| "plain_param_spec (TGeneric name _) =
     (if name = ''Vec'' \<or> name = ''Map'' then Some (base_check False name) else None)"
| "plain_param_spec (TOptional inner) =
     (case plain_param_spec inner of
        None \<Rightarrow> None
      | Some inner \<Rightarrow> Some (node ''optional'' [(''inner'', inner)]))"
| "plain_param_spec (TUnion members) =
     (case all_some (map plain_param_spec members) of
        None \<Rightarrow> None
      | Some members \<Rightarrow> Some (node ''union'' [(''members'', VVec members)]))"
| "plain_param_spec (TLiteral _) = None"
| "plain_param_spec TAny = None"

fun plain_field_spec :: "type_expr \<Rightarrow> ('d, 'b) val option" where
  "plain_field_spec (TBuiltin builtin) = Some (base_check True (builtin_name builtin))"
| "plain_field_spec (TSimple name) = (if primitive name then Some (base_check True name) else None)"
| "plain_field_spec (TNamed name) = (if primitive name then Some (base_check True name) else None)"
| "plain_field_spec (TGeneric name params) =
     (if name = ''Vec'' then
        (case map plain_field_spec params of
           [elem] \<Rightarrow>
             Some (case elem of
                     Some elem \<Rightarrow> node ''vec'' [(''elem'', elem), (''tagged'', VBool True)]
                   | None \<Rightarrow> base_check True ''Vec'')
         | _ \<Rightarrow> Some (base_check True name))
      else if name = ''Map'' then
        (case map plain_field_spec params of
           [key, value] \<Rightarrow>
             (if key = None \<and> value = None then Some (base_check True ''Map'')
              else Some (node ''map''
                ([(''elem'', case value of Some value \<Rightarrow> value | None \<Rightarrow> node ''any'' []),
                  (''tagged'', VBool True)] @
                 (case key of Some key \<Rightarrow> [(''key'', key)] | None \<Rightarrow> []))))
         | _ \<Rightarrow> Some (base_check True name))
      else None)"
| "plain_field_spec (TOptional inner) =
     (case plain_field_spec inner of
        None \<Rightarrow> None
      | Some inner \<Rightarrow> Some (node ''optional'' [(''inner'', inner)]))"
| "plain_field_spec (TUnion members) =
     (case all_some (map plain_field_spec members) of
        None \<Rightarrow> None
      | Some members \<Rightarrow> Some (node ''union'' [(''members'', VVec members)]))"
| "plain_field_spec (TLiteral _) = None"
| "plain_field_spec TAny = None"

definition field_check :: "('d, 'b) val \<Rightarrow> ('d, 'b) val" where
  "field_check spec =
     (let elem = spec_entry spec ''elem'';
          items = (case elem of Some elem \<Rightarrow> spec_mask elem | None \<Rightarrow> 0);
          any_items = (case elem of Some elem \<Rightarrow> get_str elem ''kind'' = Some ''any'' | None \<Rightarrow> False);
          key = spec_entry spec ''key'';
          keys = (case key of Some key \<Rightarrow> spec_mask key | None \<Rightarrow> 0);
          accepted =
            (if get_str spec ''kind'' = Some ''vec'' \<and> items \<noteq> 0 then K_VEC
             else if get_str spec ''kind'' = Some ''map'' \<and> (items \<noteq> 0 \<or> any_items) \<and>
                     (key = None \<or> keys \<noteq> 0) then K_MAP
             else spec_mask spec)
      in VVec [VInt (uint accepted), VInt (uint items), VInt (uint keys), spec])"

section \<open>The spec cache\<close>

type_synonym ('d, 'b) specs = "(string \<times> ('d, 'b) val) list"

definition node_kind :: "('d, 'b) val \<Rightarrow> string" where
  "node_kind nd = (case get_str nd ''kind'' of Some kind \<Rightarrow> kind | None \<Rightarrow> ''any'')"

definition node_child :: "('d, 'b) val \<Rightarrow> string \<Rightarrow> ('d, 'b) val option" where
  "node_child nd key = (case spec_entry nd key of Some VNull \<Rightarrow> None | r \<Rightarrow> r)"

definition node_name :: "('d, 'b) val \<Rightarrow> string" where
  "node_name nd = (case get_str nd ''type'' of Some name \<Rightarrow> name | None \<Rightarrow> [])"

lemma node_child_size: "node_child nd key = Some v \<Longrightarrow> vsize v < vsize nd"
  by (auto simp: node_child_def split: option.splits val.splits dest: spec_entry_size)

function reaches_type :: "('d, 'b) specs \<Rightarrow> ('d, 'b) val \<Rightarrow> string \<Rightarrow> string list \<Rightarrow> string list \<Rightarrow>
    bool \<times> string list \<times> string list"
  and reaches_any :: "('d, 'b) specs \<Rightarrow> ('d, 'b) val list \<Rightarrow> string \<Rightarrow> string list \<Rightarrow> string list \<Rightarrow>
    bool \<times> string list \<times> string list" where
  "reaches_type specs nd target path seen =
     (if node_kind nd = ''named'' then
        (if node_name nd = target then (True, path @ [node_name nd], seen)
         else
           (case im_get specs (node_name nd) of
              None \<Rightarrow> (False, path, seen)
            | Some spec \<Rightarrow>
                (if node_name nd \<in> set seen then (False, path, seen)
                 else
                   (case reaches_type specs spec target (path @ [node_name nd]) (node_name nd # seen) of
                      (True, path', seen') \<Rightarrow> (True, path', seen')
                    | (False, path', seen') \<Rightarrow> (False, butlast path', seen')))))
      else if node_kind nd = ''union'' then
        (case spec_entry nd ''members'' of
           Some (VVec members) \<Rightarrow> reaches_any specs members target path seen
         | _ \<Rightarrow> (False, path, seen))
      else if node_kind nd = ''optional'' then
        (case node_child nd ''inner'' of
           Some inner \<Rightarrow> reaches_type specs inner target path seen
         | None \<Rightarrow> (False, path, seen))
      else if node_kind nd = ''refine'' then
        (case node_child nd ''base'' of
           Some base \<Rightarrow> reaches_type specs base target path seen
         | None \<Rightarrow> (False, path, seen))
      else if node_kind nd = ''struct'' \<or> node_kind nd = ''enum'' then
        (case node_child nd ''invariant'' of
           Some invariant \<Rightarrow> reaches_type specs invariant target path seen
         | None \<Rightarrow> (False, path, seen))
      else (False, path, seen))"
| "reaches_any specs [] target path seen = (False, path, seen)"
| "reaches_any specs (member # members) target path seen =
     (case reaches_type specs member target path seen of
        (True, path', seen') \<Rightarrow> (True, path', seen')
      | (False, path', seen') \<Rightarrow> reaches_any specs members target path' seen')"
  by pat_completeness auto

lemma reaches_seen:
  "reaches_type_reaches_any_dom (Inl (specs, nd, target, path, seen)) \<Longrightarrow>
     set seen \<subseteq> set (snd (snd (reaches_type specs nd target path seen)))"
  "reaches_type_reaches_any_dom (Inr (specs, members, target, path, seen)) \<Longrightarrow>
     set seen \<subseteq> set (snd (snd (reaches_any specs members target path seen)))"
proof (induction specs nd target path seen and specs members target path seen
    rule: reaches_type_reaches_any.pinduct)
  case (1 specs nd target path seen)
  note IH = "1.IH" and dom = "1.hyps"
  consider "node_kind nd = ''named''" | "node_kind nd = ''union''" | "node_kind nd = ''optional''"
    | "node_kind nd = ''refine''" | "node_kind nd = ''struct'' \<or> node_kind nd = ''enum''"
    | "node_kind nd \<notin> {''named'', ''union'', ''optional'', ''refine'', ''struct'', ''enum''}" by blast
  then show ?case
  proof cases
    case 1
    then show ?thesis
      using IH(1) by (auto simp: reaches_type.psimps [OF dom] split: option.split prod.split bool.split)
  next
    case 2
    then show ?thesis
      using IH(2) by (auto simp: reaches_type.psimps [OF dom] split: option.split val.split)
  next
    case 3
    then show ?thesis using IH(3) by (auto simp: reaches_type.psimps [OF dom] split: option.split)
  next
    case 4
    then show ?thesis using IH(4) by (auto simp: reaches_type.psimps [OF dom] split: option.split)
  next
    case 5
    then show ?thesis using IH(5) by (auto simp: reaches_type.psimps [OF dom] split: option.split)
  next
    case 6
    then show ?thesis by (simp add: reaches_type.psimps [OF dom])
  qed
next
  case (2 specs target path seen)
  then show ?case by (simp add: reaches_any.psimps)
next
  case (3 specs member members target path seen)
  obtain b p s where r: "reaches_type specs member target path seen = (b, p, s)" by (metis prod_cases3)
  have "set seen \<subseteq> set s" using "3.IH"(1) r by simp
  then show ?case using "3.IH"(2) [OF r [symmetric]] r
    by (cases b) (auto simp: reaches_any.psimps(2) [OF "3.hyps"])
qed

definition unseen :: "('d, 'b) specs \<Rightarrow> string list \<Rightarrow> nat" where
  "unseen specs seen = card (fst ` set specs - set seen)"

lemma unseen_insert: "im_get specs name = Some spec \<Longrightarrow> name \<notin> set seen \<Longrightarrow> unseen specs (name # seen) < unseen specs seen"
  unfolding unseen_def by (rule psubset_card_mono) (force dest: im_get_SomeD)+

lemma unseen_mono: "set seen \<subseteq> set seen' \<Longrightarrow> unseen specs seen' \<le> unseen specs seen"
  unfolding unseen_def by (rule card_mono) auto

termination reaches_type
proof (relation "measures [case_sum (\<lambda>(specs, _, _, _, seen). unseen specs seen)
        (\<lambda>(specs, _, _, _, seen). unseen specs seen),
      case_sum (\<lambda>(_, nd, _). vsize nd) (\<lambda>(_, members, _). vsizes members)]", goal_cases)
  case (2 specs nd target path seen spec)
  then show ?case by (simp add: unseen_insert)
next
  case (3 specs nd target path seen members)
  then show ?case by (auto dest!: spec_entry_size)
next
  case (8 specs member members target path seen x y path' seen')
  then have "set seen \<subseteq> set (snd (snd (reaches_type specs member target path seen)))" by (intro reaches_seen)
  moreover have "reaches_type specs member target path seen = (False, path', seen')" using 8 by simp
  ultimately have "unseen specs seen' \<le> unseen specs seen" by (intro unseen_mono) simp
  then show ?case by (auto simp: le_less)
qed (auto dest: node_child_size)

end
