(* ===== verification/Hot_Check.thy ===== *)
theory Hot_Check
  imports Hot_Constraint
begin

text \<open>
  The checks of \<^verbatim>\<open>crates/hot/src/lang/runtime/vm/constraints.rs\<close>: definitions. A check ends with an
  error of the virtual machine (\<open>VmErr\<close>), with what failed (\<open>Failed\<close>) or with the checked value
  (\<open>Checked\<close>), the two levels of \<^verbatim>\<open>VmResult<Result<Val, Box<Failure>>>\<close>, and leaves a state of the
  virtual machine. The loops of \<open>check_value\<close> take the check of a part as an argument.
\<close>

section \<open>State and results\<close>

definition PREDICATE_FUEL :: nat where "PREDICATE_FUEL = 1000000"
definition PREDICATE_DEPTH :: nat where "PREDICATE_DEPTH = 256"

datatype guard_stop = StopFuel | StopDepth | StopNative string

record guard =
  g_fuel :: nat
  g_depth_base :: nat
  g_stopped :: "guard_stop option"

text \<open>The part of the virtual machine the checks read and write.\<close>

record vm =
  vm_constraint :: "guard option"
  vm_depth :: nat
  vm_failed :: bool
  vm_failure_msg :: "string option"
  vm_cancelled :: bool
  vm_proven :: "(nat \<times> 64 word) option"

datatype ('d, 'b) failure_kind =
    Violation
  | BaseMismatch string
  | Ambiguous string string
  | NotOneOf
  | Missing "string list"
  | Refused "('d, 'b) val"
  | Evaluation "('d, 'b) val"
  | Budget string int

record ('d, 'b) failure =
  fl_kind :: "('d, 'b) failure_kind"
  fl_constraint :: string
  fl_predicate :: string
  fl_location :: "('d, 'b) val"
  fl_path :: "('d, 'b) val list"
  fl_value_type :: string

datatype ('d, 'b, 'a) checked = VmErr string | Failed "('d, 'b) failure" | Checked 'a

datatype ('d, 'b) predicate_outcome =
    Pass
  | Fail
  | NotBool string
  | PredErr "('d, 'b) val"
  | Halted string
  | NativeCall string
  | OutOfBudget string int

text \<open>
  What a check runs with: the crates' operations, the spec cache of the program, the call of a
  function of the program, and which natives are pure.
\<close>

record ('d, 'b) ctx =
  ctx_env :: "('d, 'b) val_env"
  ctx_specs :: "('d, 'b) specs"
  ctx_cycles :: "(string \<times> string list) list"
  ctx_call :: "vm \<Rightarrow> string \<Rightarrow> ('d, 'b) val \<Rightarrow> (string + ('d, 'b) val) \<times> vm"

section \<open>The budget of a predicate\<close>

definition guard_new :: "nat \<Rightarrow> guard" where
  "guard_new depth_base = \<lparr>g_fuel = PREDICATE_FUEL, g_depth_base = depth_base, g_stopped = None\<rparr>"

definition stop_with :: "guard_stop \<Rightarrow> guard \<Rightarrow> guard" where
  "stop_with why g = g\<lparr>g_stopped := (case g_stopped g of None \<Rightarrow> Some why | s \<Rightarrow> s)\<rparr>"

definition charge_constraint_fuel :: "vm \<Rightarrow> string option \<times> vm" where
  "charge_constraint_fuel s =
     (case vm_constraint s of
        None \<Rightarrow> (None, s)
      | Some g \<Rightarrow>
          (if g_fuel g = 0 then
             (Some ''A `where` predicate ran out of its instruction budget'',
              s\<lparr>vm_constraint := Some (stop_with StopFuel g)\<rparr>)
           else (None, s\<lparr>vm_constraint := Some (g\<lparr>g_fuel := g_fuel g - 1\<rparr>)\<rparr>)))"

definition check_constraint_depth :: "vm \<Rightarrow> string option \<times> vm" where
  "check_constraint_depth s =
     (case vm_constraint s of
        None \<Rightarrow> (None, s)
      | Some g \<Rightarrow>
          (if vm_depth s > g_depth_base g + PREDICATE_DEPTH then
             (Some ''A `where` predicate ran out of its call-depth budget'',
              s\<lparr>vm_constraint := Some (stop_with StopDepth g)\<rparr>)
           else (None, s)))"

definition check_constraint_native :: "(string \<Rightarrow> bool) \<Rightarrow> string \<Rightarrow> vm \<Rightarrow> string option \<times> vm" where
  "check_constraint_native is_pure_native name s =
     (case vm_constraint s of
        None \<Rightarrow> (None, s)
      | Some g \<Rightarrow>
          (if \<not> is_pure_native name then
             (Some (''`'' @ name @ ''` isn't allowed in a `where` predicate''),
              s\<lparr>vm_constraint := Some (stop_with (StopNative name) g)\<rparr>)
           else (None, s)))"

definition get_val_type_name :: "('d, 'b) val \<Rightarrow> string" where
  "get_val_type_name v =
     (case v of
        VStr _ \<Rightarrow> ''Str''
      | VInt _ \<Rightarrow> ''Int''
      | VDec _ \<Rightarrow> ''Dec''
      | VBool _ \<Rightarrow> ''Bool''
      | VVec _ \<Rightarrow> ''Vec''
      | VMap m \<Rightarrow>
          (case tagged_type_name m of
             Some type_name \<Rightarrow> last (split_on CHR ''/'' type_name)
           | None \<Rightarrow> ''Map'')
      | VBytes _ \<Rightarrow> ''Bytes''
      | VByte _ \<Rightarrow> ''Byte''
      | VNull \<Rightarrow> ''Null''
      | VBox _ \<Rightarrow> ''Any'')"

definition run_predicate ::
    "('d, 'b) ctx \<Rightarrow> vm \<Rightarrow> string \<Rightarrow> ('d, 'b) val \<Rightarrow> ('d, 'b) predicate_outcome \<times> vm" where
  "run_predicate C s predicate candidate =
     (let outermost = (vm_constraint s = None);
          s1 = (if outermost then s\<lparr>vm_constraint := Some (guard_new (vm_depth s))\<rparr> else s);
          (result, s2) = ctx_call C s1 predicate candidate;
          stopped = (case vm_constraint s2 of Some g \<Rightarrow> g_stopped g | None \<Rightarrow> None);
          s3 = (if outermost then s2\<lparr>vm_constraint := None\<rparr> else s2);
          halted = (\<not> vm_failed s1 \<and> vm_failed s3 \<or> \<not> vm_cancelled s1 \<and> vm_cancelled s3);
          halt_message = (if halted \<and> vm_failed s3 then vm_failure_msg s3 else None);
          s4 = (if halted then s3\<lparr>vm_failed := False, vm_failure_msg := None, vm_cancelled := False\<rparr> else s3)
      in (case stopped of
            Some StopFuel \<Rightarrow> OutOfBudget ''instructions'' (int PREDICATE_FUEL)
          | Some StopDepth \<Rightarrow> OutOfBudget ''depth'' (int PREDICATE_DEPTH)
          | Some (StopNative name) \<Rightarrow> NativeCall name
          | None \<Rightarrow>
              (case result of
                 Inr (VBool True) \<Rightarrow> Pass
               | Inr (VBool False) \<Rightarrow> Fail
               | Inr value \<Rightarrow>
                   (if is_err value then PredErr (case unwrap_err value of Some e \<Rightarrow> e | None \<Rightarrow> VNull)
                    else NotBool (get_val_type_name value))
               | Inl message \<Rightarrow> Halted (case halt_message of Some m \<Rightarrow> m | None \<Rightarrow> message)),
          s4))"

section \<open>Nodes\<close>

text \<open>What the branch of \<^verbatim>\<open>check_value\<close> for a node's kind reads of the node.\<close>

datatype ('d, 'b) node_view =
    NBase string bool
  | NLiteral string "('d, 'b) val list"
  | NOptional "('d, 'b) val"
  | NUnion "('d, 'b) val list"
  | NVec "('d, 'b) val" bool
  | NMap "('d, 'b) val" "('d, 'b) val option" bool
  | NStruct string "('d, 'b) vmap" "('d, 'b) val option"
  | NEnum "('d, 'b) val option"
  | NNamed string
  | NRefine
      (refine_base: "('d, 'b) val") (refine_pred: string) (refine_fast: "('d, 'b) val option")
      (refine_constraint: string) (refine_source: string) (refine_location: "('d, 'b) val")
  | NAny

definition is_tagged_node :: "('d, 'b) val \<Rightarrow> bool" where
  "is_tagged_node nd \<longleftrightarrow> spec_entry nd ''tagged'' = Some (VBool True)"

definition entry_or_null :: "('d, 'b) val \<Rightarrow> string \<Rightarrow> ('d, 'b) val" where
  "entry_or_null nd key = (case spec_entry nd key of Some v \<Rightarrow> v | None \<Rightarrow> VNull)"

definition entry_vec :: "('d, 'b) val \<Rightarrow> string \<Rightarrow> ('d, 'b) val list" where
  "entry_vec nd key = (case spec_entry nd key of Some (VVec vs) \<Rightarrow> vs | _ \<Rightarrow> [])"

definition str_or :: "('d, 'b) val \<Rightarrow> string \<Rightarrow> string \<Rightarrow> string" where
  "str_or nd key other = (case get_str nd key of Some s \<Rightarrow> s | None \<Rightarrow> other)"

definition view_of :: "('d, 'b) val \<Rightarrow> ('d, 'b) node_view" where
  "view_of nd =
     (if node_kind nd = ''base'' then NBase (str_or nd ''type'' ''Any'') (is_tagged_node nd)
      else if node_kind nd = ''literal'' then NLiteral (str_or nd ''type'' []) (entry_vec nd ''values'')
      else if node_kind nd = ''optional'' then NOptional (entry_or_null nd ''inner'')
      else if node_kind nd = ''union'' then NUnion (entry_vec nd ''members'')
      else if node_kind nd = ''vec'' then NVec (entry_or_null nd ''elem'') (is_tagged_node nd)
      else if node_kind nd = ''map'' then
        NMap (entry_or_null nd ''elem'') (spec_entry nd ''key'') (is_tagged_node nd)
      else if node_kind nd = ''struct'' then
        NStruct (str_or nd ''type'' ''Map'')
          (case spec_entry nd ''fields'' of Some (VMap field_specs) \<Rightarrow> field_specs | _ \<Rightarrow> [])
          (node_child nd ''invariant'')
      else if node_kind nd = ''enum'' then NEnum (node_child nd ''invariant'')
      else if node_kind nd = ''named'' then NNamed (node_name nd)
      else if node_kind nd = ''refine'' then
        NRefine (entry_or_null nd ''base'') (str_or nd ''pred'' []) (spec_entry nd ''fast'')
          (str_or nd ''constraint'' ''<inline>'') (str_or nd ''source'' []) (entry_or_null nd ''location'')
      else NAny)"

section \<open>Failures\<close>

definition short_name :: "string \<Rightarrow> string" where
  "short_name name = last (split_on CHR ''/'' name)"

definition failure :: "('d, 'b) failure_kind \<Rightarrow> ('d, 'b) val \<Rightarrow> ('d, 'b) val list \<Rightarrow> ('d, 'b) failure" where
  "failure kind value path =
     \<lparr>fl_kind = kind, fl_constraint = [], fl_predicate = [], fl_location = VNull, fl_path = path,
      fl_value_type = get_val_type_name value\<rparr>"

definition base_mismatch :: "string \<Rightarrow> ('d, 'b) val \<Rightarrow> ('d, 'b) val list \<Rightarrow> ('d, 'b) failure" where
  "base_mismatch expected value path = failure (BaseMismatch expected) value path"

definition literal_text :: "('d, 'b) val_env \<Rightarrow> ('d, 'b) val list \<Rightarrow> string" where
  "literal_text E values =
     join '' | '' (map (\<lambda>v. case v of VStr s \<Rightarrow> CHR 34 # s @ [CHR 34] | _ \<Rightarrow> display E v) values)"

definition with_article :: "string \<Rightarrow> string" where
  "with_article type_name =
     (if type_name \<noteq> [] \<and> hd type_name \<in> set ''AEIOU'' then ''an '' else ''a '') @ type_name"

section \<open>Base types\<close>

definition is_tagged_over :: "('d, 'b) val \<Rightarrow> (('d, 'b) val \<Rightarrow> bool) \<Rightarrow> bool" where
  "is_tagged_over value acc =
     (case value of
        VMap m \<Rightarrow>
          \<not> is_err value \<and> tagged_type_name m \<noteq> None \<and>
          (case str_get m ''$val'' of Some inner \<Rightarrow> acc inner | None \<Rightarrow> False)
      | _ \<Rightarrow> False)"

definition passes_as_is :: "('d, 'b) val \<Rightarrow> 32 word \<Rightarrow> 32 word \<Rightarrow> 32 word \<Rightarrow> bool" where
  "passes_as_is value kinds item_kinds key_kinds =
     (let plain = (\<lambda>v ks. accepts v ks \<and> \<not> is_err v);
          is_of = (\<lambda>v ks. ks = 0 \<or> plain v ks)
      in if \<not> plain value kinds then False
         else if item_kinds = 0 \<and> key_kinds = 0 then True
         else case value of
                VVec items \<Rightarrow> list_all (\<lambda>item. is_of item item_kinds) items
              | VMap entries \<Rightarrow> list_all (\<lambda>(key, item). is_of key key_kinds \<and> is_of item item_kinds) entries
              | _ \<Rightarrow> False)"

text \<open>Whether a value is of a base type as it is.\<close>

definition base_matches :: "string \<Rightarrow> ('d, 'b) val \<Rightarrow> bool" where
  "base_matches expected value \<longleftrightarrow>
     expected = ''Any'' \<or>
     (case value of
        VInt _ \<Rightarrow> expected = ''Int''
      | VDec _ \<Rightarrow> expected = ''Dec''
      | VStr _ \<Rightarrow> expected \<in> {''Str'', ''Fn''}
      | VBool _ \<Rightarrow> expected = ''Bool''
      | VNull \<Rightarrow> expected = ''Null''
      | VVec _ \<Rightarrow> expected = ''Vec''
      | VMap _ \<Rightarrow> expected = ''Map''
      | VBytes _ \<Rightarrow> expected = ''Bytes''
      | VByte _ \<Rightarrow> expected = ''Byte''
      | VBox _ \<Rightarrow> expected = ''Fn'')"

text \<open>\<open>None\<close> is a mismatch, which \<open>check_base\<close> describes.\<close>

definition base_value :: "('d, 'b) val_env \<Rightarrow> string \<Rightarrow> ('d, 'b) val \<Rightarrow> ('d, 'b) val option" where
  "base_value E expected value =
     (if base_matches expected value then Some value
      else case value of
             VDec d \<Rightarrow>
               (if expected = ''Int'' \<and> dec_eq E (dec_floor E d) d
                then map_option VInt (dec_to_i64 E d) else None)
           | VInt n \<Rightarrow> (if expected = ''Dec'' then Some (VDec (dec_of_i64 E n)) else None)
           | _ \<Rightarrow> None)"

definition check_base ::
    "('d, 'b) val_env \<Rightarrow> ('d, 'b) val \<Rightarrow> string \<Rightarrow> ('d, 'b) val list \<Rightarrow> ('d, 'b, ('d, 'b) val) checked" where
  "check_base E value expected path =
     (case base_value E expected value of
        Some v \<Rightarrow> Checked v
      | None \<Rightarrow> Failed (base_mismatch expected value path))"

definition check_tagged_base ::
    "('d, 'b) val_env \<Rightarrow> ('d, 'b) val \<Rightarrow> string \<Rightarrow> ('d, 'b) val list \<Rightarrow> ('d, 'b, ('d, 'b) val) checked" where
  "check_tagged_base E value expected path =
     (if is_err value then Failed (base_mismatch expected value path)
      else if is_tagged_over value (\<lambda>inner. base_value E expected inner \<noteq> None) then Checked value
      else check_base E value expected path)"

section \<open>Fast forms\<close>

definition chars_count :: "string \<Rightarrow> nat" where
  "chars_count s = length (filter (\<lambda>c. \<not> (128 \<le> (of_char c :: nat) \<and> (of_char c :: nat) < 192)) s)"

definition val_number :: "('d, 'b) val_env \<Rightarrow> ('d, 'b) val \<Rightarrow> 'd option" where
  "val_number E v = (case v of VInt n \<Rightarrow> Some (dec_of_i64 E n) | VDec d \<Rightarrow> Some d | _ \<Rightarrow> None)"

definition val_length :: "('d, 'b) val \<Rightarrow> int option" where
  "val_length v =
     (case as_fields v of
        VStr s \<Rightarrow> Some (int (chars_count s))
      | VVec items \<Rightarrow> Some (int (length items))
      | VMap entries \<Rightarrow> Some (int (length entries))
      | _ \<Rightarrow> None)"

definition val_int :: "('d, 'b) val \<Rightarrow> int option" where
  "val_int v = (case v of VInt n \<Rightarrow> Some n | _ \<Rightarrow> None)"

definition both :: "('a \<Rightarrow> 'a \<Rightarrow> bool) \<Rightarrow> 'a option \<Rightarrow> 'a option \<Rightarrow> bool option" where
  "both f x y = (case (x, y) of (Some a, Some b) \<Rightarrow> Some (f a b) | _ \<Rightarrow> None)"

text \<open>\<^verbatim>\<open>std::mem::discriminant\<close>.\<close>

definition same_variant :: "('d, 'b) val \<Rightarrow> ('d, 'b) val \<Rightarrow> bool" where
  "same_variant v w \<longleftrightarrow> kind_of v = kind_of w"

text \<open>\<^verbatim>\<open>::hot::regex/is-match\<close> of two strings; \<open>None\<close> is its error.\<close>

definition regex_is_match :: "('d, 'b) val_env \<Rightarrow> string \<Rightarrow> string \<Rightarrow> bool option" where
  "regex_is_match E text pattern =
     (if length text > max_regex_input E then None
      else map_option (\<lambda>m. m text) (regex_match E pattern))"

definition fast_keyword ::
    "('d, 'b) val_env \<Rightarrow> ('d, 'b) val \<Rightarrow> string \<Rightarrow> ('d, 'b) val \<Rightarrow> bool option" where
  "fast_keyword E value keyword bound =
     (if keyword = ''minimum'' then both (\<lambda>a b. dec_le E b a) (val_number E value) (val_number E bound)
      else if keyword = ''maximum'' then both (dec_le E) (val_number E value) (val_number E bound)
      else if keyword = ''exclusiveMinimum'' then both (\<lambda>a b. dec_less E b a) (val_number E value) (val_number E bound)
      else if keyword = ''exclusiveMaximum'' then both (dec_less E) (val_number E value) (val_number E bound)
      else if keyword = ''$minLength'' then both (\<lambda>a b. a \<ge> b) (val_length value) (val_int bound)
      else if keyword = ''$maxLength'' then both (\<lambda>a b. a \<le> b) (val_length value) (val_int bound)
      else if keyword = ''enum'' then
        (case bound of
           VVec values \<Rightarrow>
             (if list_ex (\<lambda>v. val_eq E v value) values then Some True
              else if list_all (\<lambda>v. same_variant v value) values then Some False
              else None)
         | _ \<Rightarrow> None)
      else if keyword = ''const'' then
        (if same_variant value bound then Some (val_eq E value bound) else None)
      else if keyword = ''pattern'' then
        (case (value, bound) of
           (VStr text, VStr pattern) \<Rightarrow> regex_is_match E text pattern
         | _ \<Rightarrow> None)
      else None)"

fun fast_keywords ::
    "('d, 'b) val_env \<Rightarrow> ('d, 'b) val \<Rightarrow> ('d, 'b) vmap \<Rightarrow> bool \<Rightarrow> bool option" where
  "fast_keywords E value [] passed = Some passed"
| "fast_keywords E value ((VStr keyword, bound) # rest) passed =
     (case fast_keyword E value keyword bound of
        None \<Rightarrow> None
      | Some good \<Rightarrow> fast_keywords E value rest (passed \<and> good))"
| "fast_keywords E value (_ # rest) passed = None"

definition fast_check :: "('d, 'b) val_env \<Rightarrow> ('d, 'b) val \<Rightarrow> ('d, 'b) val \<Rightarrow> bool option" where
  "fast_check E value fast =
     (case fast of VMap keywords \<Rightarrow> fast_keywords E value keywords True | _ \<Rightarrow> None)"

section \<open>Checking a value\<close>

text \<open>The failure a union reports when no member takes the value.\<close>

definition is_base_mismatch :: "('d, 'b) failure \<Rightarrow> bool" where
  "is_base_mismatch f = (case fl_kind f of BaseMismatch _ \<Rightarrow> True | _ \<Rightarrow> False)"

definition expected_here :: "('d, 'b) val list \<Rightarrow> ('d, 'b) failure \<Rightarrow> string list" where
  "expected_here path f =
     (case fl_kind f of
        BaseMismatch expected \<Rightarrow> (if length (fl_path f) = length path then [expected] else [])
      | _ \<Rightarrow> [])"

definition union_failure :: "('d, 'b) val \<Rightarrow> ('d, 'b) val list \<Rightarrow> ('d, 'b) failure list \<Rightarrow>
    ('d, 'b, ('d, 'b) val) checked" where
  "union_failure value path failures =
     (let expected = concat (map (expected_here path) failures)
      in if length expected > 1 \<and> length expected = length failures
         then Failed (base_mismatch (join '' | '' expected) value path)
         else case filter (\<lambda>f. \<not> is_base_mismatch f \<or> length (fl_path f) > length path) failures of
                f # _ \<Rightarrow> Failed f
              | [] \<Rightarrow> (case failures of f # _ \<Rightarrow> Failed f | [] \<Rightarrow> Checked value))"

type_synonym ('d, 'b) checker =
  "vm \<Rightarrow> ('d, 'b) val \<Rightarrow> ('d, 'b) val \<Rightarrow> ('d, 'b) val list \<Rightarrow> (('d, 'b, ('d, 'b) val) checked \<times> vm) option"

fun check_union :: "('d, 'b) checker \<Rightarrow> ('d, 'b) val \<Rightarrow> ('d, 'b) val list \<Rightarrow> ('d, 'b) failure list \<Rightarrow>
    vm \<Rightarrow> ('d, 'b) val list \<Rightarrow> (('d, 'b, ('d, 'b) val) checked \<times> vm) option" where
  "check_union chk value path failures s [] = Some (union_failure value path failures, s)"
| "check_union chk value path failures s (member # members) =
     (case chk s value member path of
        None \<Rightarrow> None
      | Some (VmErr e, s') \<Rightarrow> Some (VmErr e, s')
      | Some (Checked v, s') \<Rightarrow> Some (Checked v, s')
      | Some (Failed f, s') \<Rightarrow> check_union chk value path (failures @ [f]) s' members)"

fun check_items :: "('d, 'b) checker \<Rightarrow> ('d, 'b) val \<Rightarrow> ('d, 'b) val list \<Rightarrow> nat \<Rightarrow> ('d, 'b) val list \<Rightarrow>
    vm \<Rightarrow> ('d, 'b) val list \<Rightarrow> (('d, 'b, ('d, 'b) val list) checked \<times> vm) option" where
  "check_items chk elem path index checked_items s [] = Some (Checked checked_items, s)"
| "check_items chk elem path index checked_items s (item # items) =
     (case chk s item elem (path @ [VInt (int index)]) of
        None \<Rightarrow> None
      | Some (VmErr e, s') \<Rightarrow> Some (VmErr e, s')
      | Some (Failed f, s') \<Rightarrow> Some (Failed f, s')
      | Some (Checked v, s') \<Rightarrow> check_items chk elem path (Suc index) (checked_items @ [v]) s' items)"

definition json_number_key :: "('d, 'b) val_env \<Rightarrow> string \<Rightarrow> ('d, 'b) val option" where
  "json_number_key E text =
     (case json_number E text of
        None \<Rightarrow> None
      | Some (Some n) \<Rightarrow> Some (VInt n)
      | Some None \<Rightarrow> map_option VDec (dec_parse E text))"

definition check_map_key :: "('d, 'b) val_env \<Rightarrow> ('d, 'b) checker \<Rightarrow> vm \<Rightarrow> ('d, 'b) val \<Rightarrow> ('d, 'b) val \<Rightarrow>
    ('d, 'b) val list \<Rightarrow> (('d, 'b, ('d, 'b) val) checked \<times> vm) option" where
  "check_map_key E chk s key spec path =
     (case chk s key spec path of
        Some (Failed f, s') \<Rightarrow>
          (case (case key of VStr text \<Rightarrow> json_number_key E text | _ \<Rightarrow> None) of
             Some number \<Rightarrow>
               (case chk s' number spec path of
                  Some (Failed _, s'') \<Rightarrow> Some (Failed f, s'')
                | r \<Rightarrow> r)
           | None \<Rightarrow> Some (Failed f, s'))
      | r \<Rightarrow> r)"

definition check_map_entry :: "('d, 'b) val_env \<Rightarrow> ('d, 'b) checker \<Rightarrow> vm \<Rightarrow> ('d, 'b) val \<Rightarrow> ('d, 'b) val \<Rightarrow>
    ('d, 'b) val option \<Rightarrow> ('d, 'b) val \<Rightarrow> ('d, 'b) val list \<Rightarrow>
    (('d, 'b, ('d, 'b) val \<times> ('d, 'b) val) checked \<times> vm) option" where
  "check_map_entry E chk s key item key_spec elem path =
     (case (case key_spec of Some spec \<Rightarrow> check_map_key E chk s key spec path | None \<Rightarrow> Some (Checked key, s)) of
        None \<Rightarrow> None
      | Some (VmErr e, s') \<Rightarrow> Some (VmErr e, s')
      | Some (Failed f, s') \<Rightarrow> Some (Failed f, s')
      | Some (Checked key', s') \<Rightarrow>
          (case chk s' item elem path of
             None \<Rightarrow> None
           | Some (VmErr e, s'') \<Rightarrow> Some (VmErr e, s'')
           | Some (Failed f, s'') \<Rightarrow> Some (Failed f, s'')
           | Some (Checked item', s'') \<Rightarrow> Some (Checked (key', item'), s'')))"

fun check_entries :: "('d, 'b) val_env \<Rightarrow> ('d, 'b) checker \<Rightarrow> ('d, 'b) val option \<Rightarrow> ('d, 'b) val \<Rightarrow>
    ('d, 'b) val list \<Rightarrow> ('d, 'b) vmap \<Rightarrow> vm \<Rightarrow> ('d, 'b) vmap \<Rightarrow>
    (('d, 'b, ('d, 'b) vmap) checked \<times> vm) option" where
  "check_entries E chk key_spec elem path checked_entries s [] = Some (Checked checked_entries, s)"
| "check_entries E chk key_spec elem path checked_entries s ((key, item) # entries) =
     (case check_map_entry E chk s key item key_spec elem (path @ [key]) of
        None \<Rightarrow> None
      | Some (VmErr e, s') \<Rightarrow> Some (VmErr e, s')
      | Some (Failed f, s') \<Rightarrow> Some (Failed f, s')
      | Some (Checked (key', item'), s') \<Rightarrow>
          (case find (\<lambda>e. key_eq E key' (fst e)) checked_entries of
             Some slot \<Rightarrow>
               Some (Failed (base_mismatch ''distinct map keys after conversion'' (fst slot) (path @ [key])), s')
           | None \<Rightarrow>
               check_entries E chk key_spec elem path (checked_entries @ [(key', item')]) s' entries))"

definition with_field ::
    "('d, 'b) val_env \<Rightarrow> ('d, 'b) val \<Rightarrow> ('d, 'b) val \<Rightarrow> ('d, 'b) val \<Rightarrow> ('d, 'b) val" where
  "with_field E value field field_value =
     (let flds = (case as_fields value of VMap flds \<Rightarrow> flds | _ \<Rightarrow> [])
      in with_type_of value (VMap (map_insert E field field_value flds)))"

definition field_of :: "('d, 'b) val_env \<Rightarrow> ('d, 'b) val \<Rightarrow> ('d, 'b) val \<Rightarrow> ('d, 'b) val" where
  "field_of E value field =
     (case as_fields value of
        VMap flds \<Rightarrow> (case map_get E flds field of Some v \<Rightarrow> v | None \<Rightarrow> VNull)
      | _ \<Rightarrow> VNull)"

fun check_fields :: "('d, 'b) val_env \<Rightarrow> ('d, 'b) checker \<Rightarrow> ('d, 'b) val list \<Rightarrow> vm \<Rightarrow> ('d, 'b) val \<Rightarrow>
    ('d, 'b) vmap \<Rightarrow> (('d, 'b, ('d, 'b) val) checked \<times> vm) option" where
  "check_fields E chk path s current [] = Some (Checked current, s)"
| "check_fields E chk path s current ((field, field_spec) # field_specs) =
     (case chk s (field_of E current field) field_spec (path @ [field]) of
        None \<Rightarrow> None
      | Some (VmErr e, s') \<Rightarrow> Some (VmErr e, s')
      | Some (Failed f, s') \<Rightarrow> Some (Failed f, s')
      | Some (Checked v, s') \<Rightarrow>
          check_fields E chk path s'
            (if val_eq E v (field_of E current field) then current else with_field E current field v)
            field_specs)"

definition check_struct :: "('d, 'b) val_env \<Rightarrow> ('d, 'b) checker \<Rightarrow> vm \<Rightarrow> ('d, 'b) val \<Rightarrow> string \<Rightarrow>
    ('d, 'b) vmap \<Rightarrow> ('d, 'b) val option \<Rightarrow> ('d, 'b) val list \<Rightarrow>
    (('d, 'b, ('d, 'b) val) checked \<times> vm) option" where
  "check_struct E chk s value type_name field_specs invariant path =
     (case value of
        VMap _ \<Rightarrow>
          (case check_fields E chk path s value field_specs of
             Some (Checked current, s') \<Rightarrow>
               (case invariant of
                  Some whole \<Rightarrow> chk s' current whole path
                | None \<Rightarrow> Some (Checked current, s'))
           | r \<Rightarrow> r)
      | _ \<Rightarrow> Some (Failed (base_mismatch (short_name type_name) value path), s))"

definition describe :: "('d, 'b) node_view \<Rightarrow> ('d, 'b) failure \<Rightarrow> ('d, 'b) failure" where
  "describe nd f =
     f\<lparr>fl_constraint := refine_constraint nd, fl_predicate := refine_source nd, fl_location := refine_location nd\<rparr>"

fun outcome_kind :: "('d, 'b) predicate_outcome \<Rightarrow> ('d, 'b) failure_kind option" where
  "outcome_kind Pass = None"
| "outcome_kind Fail = Some Violation"
| "outcome_kind (NotBool type_name) =
     Some (Evaluation (VStr (''the predicate returned '' @ with_article type_name @ '', not a Bool'')))"
| "outcome_kind (PredErr cause) = Some (Evaluation cause)"
| "outcome_kind (Halted message) = Some (Evaluation (VStr message))"
| "outcome_kind (NativeCall name) =
     Some (Evaluation (VStr (''the predicate calls `'' @ name @
       ''`, which isn't allowed in a `where` predicate'')))"
| "outcome_kind (OutOfBudget budget limit) = Some (Budget budget limit)"

text \<open>The predicate of a refinement, once its base has been checked.\<close>

definition check_predicate :: "('d, 'b) ctx \<Rightarrow> vm \<Rightarrow> ('d, 'b) val \<Rightarrow> ('d, 'b) node_view \<Rightarrow>
    ('d, 'b) val list \<Rightarrow> ('d, 'b, ('d, 'b) val) checked \<times> vm" where
  "check_predicate C s v nd path =
     (case (case refine_fast nd of Some fast \<Rightarrow> fast_check (ctx_env C) v fast | None \<Rightarrow> None) of
        Some True \<Rightarrow> (Checked v, s)
      | Some False \<Rightarrow> (Failed (describe nd (failure Violation v path)), s)
      | None \<Rightarrow>
          (case run_predicate C s (refine_pred nd) v of
             (outcome, s') \<Rightarrow>
               (case outcome_kind outcome of
                  None \<Rightarrow> (Checked v, s')
                | Some kind \<Rightarrow> (Failed (describe nd (failure kind v path)), s'))))"

definition check_refinement :: "('d, 'b) ctx \<Rightarrow> ('d, 'b) checker \<Rightarrow> vm \<Rightarrow> ('d, 'b) val \<Rightarrow> ('d, 'b) node_view \<Rightarrow>
    ('d, 'b) val list \<Rightarrow> (('d, 'b, ('d, 'b) val) checked \<times> vm) option" where
  "check_refinement C chk s value nd path =
     (case chk s value (refine_base nd) path of
        Some (Checked v, s') \<Rightarrow> Some (check_predicate C s' v nd path)
      | Some (Failed f, s') \<Rightarrow> Some (Failed (if fl_constraint f = [] then describe nd f else f), s')
      | r \<Rightarrow> r)"

definition cycle_error :: "string \<Rightarrow> string list \<Rightarrow> string" where
  "cycle_error name cycle =
     ''Type `'' @ short_name name @ ''` is defined in terms of itself ('' @
     join '' -> '' (map short_name cycle) @ ''), so no value can be checked against it''"

definition check_literal :: "('d, 'b) val_env \<Rightarrow> ('d, 'b) val \<Rightarrow> string \<Rightarrow> ('d, 'b) val list \<Rightarrow>
    ('d, 'b) val list \<Rightarrow> ('d, 'b, ('d, 'b) val) checked" where
  "check_literal E value type_name vs path =
     (if list_ex (\<lambda>v. val_eq E v value) vs then Checked value
      else Failed ((failure NotOneOf value path)
        \<lparr>fl_constraint := type_name, fl_predicate := literal_text E vs\<rparr>))"

fun on_checked :: "('a \<Rightarrow> 'c) \<Rightarrow> ('d, 'b, 'a) checked \<times> vm \<Rightarrow> ('d, 'b, 'c) checked \<times> vm" where
  "on_checked f (VmErr e, s) = (VmErr e, s)"
| "on_checked f (Failed x, s) = (Failed x, s)"
| "on_checked f (Checked v, s) = (Checked (f v), s)"

fun check_value :: "nat \<Rightarrow> ('d, 'b) ctx \<Rightarrow> ('d, 'b) checker" where
  "check_value 0 C s value nd path = None"
| "check_value (Suc n) C s value nd path =
     (case view_of nd of
        NBase expected tagged \<Rightarrow>
          Some (if tagged then check_tagged_base (ctx_env C) value expected path
                else check_base (ctx_env C) value expected path, s)
      | NLiteral type_name vs \<Rightarrow> Some (check_literal (ctx_env C) value type_name vs path, s)
      | NOptional inner \<Rightarrow>
          (if value = VNull then Some (Checked value, s) else check_value n C s value inner path)
      | NUnion members \<Rightarrow> check_union (check_value n C) value path [] s members
      | NVec elem tagged \<Rightarrow>
          (if tagged \<and> is_tagged_over value (\<lambda>inner. case inner of VVec _ \<Rightarrow> True | _ \<Rightarrow> False)
           then Some (Checked value, s)
           else case value of
                  VVec items \<Rightarrow>
                    map_option (on_checked VVec) (check_items (check_value n C) elem path 0 [] s items)
                | _ \<Rightarrow> Some (Failed (base_mismatch ''Vec'' value path), s))
      | NMap elem key tagged \<Rightarrow>
          (if tagged \<and> is_tagged_over value (\<lambda>inner. case inner of VMap _ \<Rightarrow> True | _ \<Rightarrow> False)
           then Some (Checked value, s)
           else case value of
                  VMap entries \<Rightarrow>
                    map_option (on_checked VMap)
                      (check_entries (ctx_env C) (check_value n C) key elem path [] s entries)
                | _ \<Rightarrow> Some (Failed (base_mismatch ''Map'' value path), s))
      | NStruct type_name field_specs invariant \<Rightarrow>
          check_struct (ctx_env C) (check_value n C) s value type_name field_specs invariant path
      | NEnum invariant \<Rightarrow>
          (case invariant of
             Some whole \<Rightarrow> check_value n C s value whole path
           | None \<Rightarrow> Some (Checked value, s))
      | NNamed name \<Rightarrow>
          (case im_get (ctx_cycles C) name of
             Some cycle \<Rightarrow> Some (VmErr (cycle_error name cycle), s)
           | None \<Rightarrow>
               (case im_get (ctx_specs C) name of
                  Some spec \<Rightarrow> check_value n C s value spec path
                | None \<Rightarrow> Some (Checked value, s)))
      | NRefine base pred fast constraint source location \<Rightarrow>
          check_refinement C (check_value n C) s value (view_of nd) path
      | NAny \<Rightarrow> Some (Checked value, s))"

end
