(* ===== verification/Hot_Boundary.thy ===== *)
theory Hot_Boundary
  imports Hot_Check
begin

unbundle bit_operations_syntax

text \<open>
  The entry points of \<^verbatim>\<open>crates/hot/src/lang/runtime/vm/constraints.rs\<close>: definitions. They run the check of a value at
  a boundary of the program (a parameter, a return value, a constructor, an update) and turn what failed
  into an \<open>Err\<close> that holds a \<^verbatim>\<open>ConstraintError\<close>. Like \<open>check_value\<close> they take fuel, and \<open>None\<close> is running out of it.
\<close>

section \<open>Boundaries and error values\<close>

record boundary =
  bd_kind :: string
  bd_function :: "string option"
  bd_parameter :: "string option"
  bd_binding :: "string option"
  bd_declared_type :: "string option"

definition constructor_boundary :: "string \<Rightarrow> boundary" where
  "constructor_boundary declared_type =
     \<lparr>bd_kind = ''constructor'', bd_function = None, bd_parameter = None, bd_binding = None,
      bd_declared_type = Some declared_type\<rparr>"

definition from_spec :: "('d, 'b) val \<Rightarrow> boundary" where
  "from_spec spec =
     \<lparr>bd_kind = str_or spec ''boundary'' ''value'', bd_function = get_str spec ''function'',
      bd_parameter = get_str spec ''parameter'', bd_binding = get_str spec ''binding'',
      bd_declared_type = get_str spec ''declared-type''\<rparr>"

definition or_else :: "'a option \<Rightarrow> 'a \<Rightarrow> 'a" where
  "or_else x other = (case x of Some a \<Rightarrow> a | None \<Rightarrow> other)"

definition subject :: "boundary \<Rightarrow> string" where
  "subject b =
     (let function_name = or_else (bd_function b) ''a function''
      in if bd_kind b = ''parameter'' then
           ''parameter `'' @ or_else (bd_parameter b) ''?'' @ ''` of `'' @ function_name @ ''`''
         else if bd_kind b = ''arguments'' then ''arguments of `'' @ function_name @ ''`''
         else if bd_kind b = ''return'' then ''return value of `'' @ function_name @ ''`''
         else if bd_kind b = ''binding'' then ''`'' @ or_else (bd_binding b) ''binding'' @ ''`''
         else if bd_kind b = ''constructor'' then
           ''constructor of `'' @ short_name (or_else (bd_declared_type b) ''a type'') @ ''`''
         else if bd_kind b = ''update'' then
           ''update of `'' @ short_name (or_else (bd_declared_type b) ''a value'') @ ''`''
         else ''value'')"

definition error_text :: "('d, 'b) val_env \<Rightarrow> ('d, 'b) val \<Rightarrow> string" where
  "error_text E cause =
     (let flds = as_fields cause
      in case (case get_str flds ''message'' of Some m \<Rightarrow> Some m | None \<Rightarrow> get_str flds ''msg'') of
           Some said \<Rightarrow> said
         | None \<Rightarrow> (case cause of VStr said \<Rightarrow> said | _ \<Rightarrow> display E cause))"

definition path_text :: "('d, 'b) val_env \<Rightarrow> ('d, 'b) val list \<Rightarrow> string" where
  "path_text E path =
     foldl (\<lambda>so_far step.
        case step of
          VInt i \<Rightarrow> so_far @ ''['' @ show_int i @ '']''
        | VStr s \<Rightarrow> (if so_far = [] then [] else so_far @ ''.'') @ s
        | _ \<Rightarrow> so_far @ ''['' @ display E step @ '']'') [] path"

text \<open>The lead of a message: what was checked, and where in it the check failed.\<close>

definition lead :: "('d, 'b) val_env \<Rightarrow> boundary \<Rightarrow> ('d, 'b) val list \<Rightarrow> string" where
  "lead E b path = subject b @ (if path = [] then [] else '' at `'' @ path_text E path @ ''`'')"

definition opt_str :: "string option \<Rightarrow> ('d, 'b) val" where
  "opt_str x = (case x of Some s \<Rightarrow> VStr s | None \<Rightarrow> VNull)"

definition failed_constraint :: "('d, 'b) failure \<Rightarrow> boundary \<Rightarrow> string" where
  "failed_constraint f b =
     (if fl_constraint f = [] then or_else (bd_declared_type b) ''<inline>'' else fl_constraint f)"

definition failed_what :: "('d, 'b) failure \<Rightarrow> boundary \<Rightarrow> string" where
  "failed_what f b =
     (let constraint = failed_constraint f b;
          names_subject = (bd_kind b \<in> {''constructor'', ''update''} \<and> bd_declared_type b = Some constraint)
      in if constraint = ''<inline>'' \<or> contains_sub constraint ''$Where-'' \<or> names_subject
         then ''`'' @ fl_predicate f @ ''`''
         else if fl_predicate f = [] then ''`'' @ short_name constraint @ ''`''
         else ''`'' @ short_name constraint @ ''` ('' @ fl_predicate f @ '')'')"

text \<open>The variant, the rest of the message and the extra fields of a failure.\<close>

definition failure_report :: "('d, 'b) val_env \<Rightarrow> ('d, 'b) failure \<Rightarrow> boundary \<Rightarrow>
    string \<times> string \<times> (string \<times> ('d, 'b) val) list" where
  "failure_report E f b =
     (let what = failed_what f b
      in case fl_kind f of
           Violation \<Rightarrow> (''Violation'', '' failed '' @ what, [])
         | BaseMismatch expected \<Rightarrow>
             (''Violation'', '' expected '' @ expected @ '', got '' @ fl_value_type f, [])
         | Ambiguous expected among \<Rightarrow>
             (''Violation'', '' expected '' @ expected @ '', got a '' @ fl_value_type f @
                '' that fits more than one '' @ among, [])
         | Missing flds \<Rightarrow> (''Violation'', '' is missing required field(s): '' @ join '', '' flds, [])
         | Refused cause \<Rightarrow> (''Violation'', '': '' @ error_text E cause, [(''cause'', cause)])
         | NotOneOf \<Rightarrow> (''Violation'', '' must be one of '' @ fl_predicate f, [])
         | Evaluation cause \<Rightarrow>
             (''EvaluationFailed'',
              '': could not check '' @ what @ '': '' @
                (case cause of
                   VStr s \<Rightarrow> s
                 | _ \<Rightarrow> ''the predicate returned an error ('' @ get_val_type_name cause @ '')''),
              [(''cause'', cause)])
         | Budget budget limit \<Rightarrow>
             (''BudgetExceeded'',
              '': '' @ what @ '' ran out of its '' @ (if budget = ''depth'' then ''call-depth'' else ''instruction'') @ '' budget'',
              [(''budget'', VStr budget), (''limit'', VInt limit)]))"

definition constraint_error :: "('d, 'b) val_env \<Rightarrow> ('d, 'b) failure \<Rightarrow> boundary \<Rightarrow> ('d, 'b) val" where
  "constraint_error E f b =
     (let constraint = failed_constraint f b;
          (variant, rest, extra) = failure_report E f b;
          constraint_name =
            (if starts_with constraint ''$Where-'' \<or> contains_sub constraint ''/$Where-'' then ''<inline>'' else constraint);
          flds =
            [(''message'', VStr (lead E b (fl_path f) @ rest)),
             (''constraint'', VStr constraint_name),
             (''predicate'', VStr (fl_predicate f)),
             (''boundary'', VStr (bd_kind b)),
             (''path'', VVec (fl_path f)),
             (''declared-type'', opt_str (bd_declared_type b)),
             (''function'', opt_str (bd_function b)),
             (''parameter'', opt_str (bd_parameter b)),
             (''location'', fl_location f),
             (''value-type'', VStr (fl_value_type f))] @ extra
      in val_err (VMap [(VStr ''$type'', VStr (''::hot::type/ConstraintError.'' @ variant)),
           (VStr ''$val'', VMap (map (\<lambda>(k, v). (VStr k, v)) flds))]))"

section \<open>Checks at a boundary\<close>

text \<open>The proof a call site made of an argument is used once: its bit is cleared.\<close>

definition use_proof :: "('d, 'b) val \<Rightarrow> vm \<Rightarrow> vm option" where
  "use_proof spec s =
     (case (spec_entry spec ''proof'', vm_proven s) of
        (Some (VVec [VInt function_id, VInt index]), Some (fid, bits)) \<Rightarrow>
          (if int fid = function_id \<and> 0 \<le> index \<and> index < 64 \<and> bits AND push_bit (nat index) 1 \<noteq> 0
           then Some (s\<lparr>vm_proven := Some (fid, bits AND NOT (push_bit (nat index) 1))\<rparr>)
           else None)
      | _ \<Rightarrow> None)"

definition execute_check_constraint :: "nat \<Rightarrow> ('d, 'b) ctx \<Rightarrow> vm \<Rightarrow> ('d, 'b) val \<Rightarrow> ('d, 'b) val \<Rightarrow> bool \<Rightarrow>
    ((string + ('d, 'b) val) \<times> vm) option" where
  "execute_check_constraint n C s value spec test =
     (if is_err value then Some (Inr (if test then VBool False else value), s)
      else case use_proof spec s of
             Some s' \<Rightarrow> Some (Inr value, s')
           | None \<Rightarrow>
               (case check_value n C s value (entry_or_null spec ''type'') [] of
                  None \<Rightarrow> None
                | Some (VmErr e, s') \<Rightarrow> Some (Inl e, s')
                | Some (Checked v, s') \<Rightarrow> Some (Inr (if test then VBool True else v), s')
                | Some (Failed f, s') \<Rightarrow>
                    Some (Inr (if test then VBool False else constraint_error (ctx_env C) f (from_spec spec)), s')))"

datatype ('d, 'b) param_check = ParamPassed | ParamConverted "('d, 'b) val" | ParamFailed "('d, 'b) val"

definition check_param_value :: "nat \<Rightarrow> ('d, 'b) ctx \<Rightarrow> vm \<Rightarrow> ('d, 'b) val \<Rightarrow> ('d, 'b) val \<Rightarrow> 32 word \<Rightarrow>
    ((string + ('d, 'b) param_check) \<times> vm) option" where
  "check_param_value n C s value spec kinds =
     (if is_tagged_over value (\<lambda>inner. accepts inner kinds) then Some (Inr ParamPassed, s)
      else case execute_check_constraint n C s value spec False of
             None \<Rightarrow> None
           | Some (Inl e, s') \<Rightarrow> Some (Inl e, s')
           | Some (Inr v, s') \<Rightarrow> Some (Inr (if is_err v then ParamFailed v else ParamConverted v), s'))"

text \<open>The result of a constructor's check: the value to store, or the error to return.\<close>

definition check_constructed :: "nat \<Rightarrow> ('d, 'b) ctx \<Rightarrow> vm \<Rightarrow> ('d, 'b) val \<Rightarrow> ('d, 'b) val \<Rightarrow> ('d, 'b) val list \<Rightarrow>
    string \<Rightarrow> ((string + (('d, 'b) val + ('d, 'b) val)) \<times> vm) option" where
  "check_constructed n C s value chk path type_name =
     (case chk of
        VVec [VInt kinds, VInt item_kinds, VInt key_kinds, spec] \<Rightarrow>
          (if passes_as_is value (word_of_int kinds) (word_of_int item_kinds) (word_of_int key_kinds)
           then Some (Inr (Inr value), s)
           else case check_value n C s value spec path of
                  None \<Rightarrow> None
                | Some (VmErr e, s') \<Rightarrow> Some (Inl e, s')
                | Some (Checked v, s') \<Rightarrow> Some (Inr (Inr v), s')
                | Some (Failed f, s') \<Rightarrow>
                    Some (Inr (Inl (constraint_error (ctx_env C) f (constructor_boundary type_name))), s'))
      | _ \<Rightarrow> Some (Inr (Inr value), s))"

definition check_field :: "nat \<Rightarrow> ('d, 'b) ctx \<Rightarrow> vm \<Rightarrow> ('d, 'b) val \<Rightarrow> ('d, 'b) val \<Rightarrow> ('d, 'b) val \<Rightarrow>
    string \<Rightarrow> ((string + (('d, 'b) val + ('d, 'b) val)) \<times> vm) option" where
  "check_field n C s value chk field type_name = check_constructed n C s value chk [field] type_name"

definition check_declared_base :: "nat \<Rightarrow> ('d, 'b) ctx \<Rightarrow> vm \<Rightarrow> ('d, 'b) val \<Rightarrow> ('d, 'b) val \<Rightarrow>
    string \<Rightarrow> ((string + (('d, 'b) val + ('d, 'b) val)) \<times> vm) option" where
  "check_declared_base n C s value chk type_name = check_constructed n C s value chk [] type_name"

section \<open>Errors of constructors\<close>

definition constructor_mismatch :: "('d, 'b) val_env \<Rightarrow> string \<Rightarrow> ('d, 'b) val \<Rightarrow> ('d, 'b) val" where
  "constructor_mismatch E type_name value =
     constraint_error E (base_mismatch (short_name type_name) value []) (constructor_boundary type_name)"

definition ambiguity :: "('d, 'b) val_env \<Rightarrow> string \<Rightarrow> ('d, 'b) val \<Rightarrow> string \<Rightarrow> ('d, 'b) val" where
  "ambiguity E type_name value among =
     constraint_error E (failure (Ambiguous (short_name type_name) among) value []) (constructor_boundary type_name)"

definition constructor_ambiguity :: "('d, 'b) val_env \<Rightarrow> string \<Rightarrow> ('d, 'b) val \<Rightarrow> ('d, 'b) val" where
  "constructor_ambiguity E type_name value = ambiguity E type_name value ''variant''"

definition union_ambiguity :: "('d, 'b) val_env \<Rightarrow> string \<Rightarrow> ('d, 'b) val \<Rightarrow> ('d, 'b) val" where
  "union_ambiguity E union_name value = ambiguity E union_name value ''member''"

definition constructor_missing :: "('d, 'b) val_env \<Rightarrow> string \<Rightarrow> ('d, 'b) val \<Rightarrow> string list \<Rightarrow> ('d, 'b) val" where
  "constructor_missing E type_name value flds =
     constraint_error E (failure (Missing flds) value []) (constructor_boundary type_name)"

definition constructor_refusal :: "('d, 'b) val_env \<Rightarrow> string \<Rightarrow> ('d, 'b) val \<Rightarrow> ('d, 'b) val \<Rightarrow> ('d, 'b) val \<Rightarrow> ('d, 'b) val" where
  "constructor_refusal E type_name err value step =
     constraint_error E (failure (Refused (or_else (unwrap_err err) VNull)) value [step]) (constructor_boundary type_name)"

definition reframe_constraint_error :: "('d, 'b) val_env \<Rightarrow> ('d, 'b) val \<Rightarrow> ('d, 'b) val option \<Rightarrow> string option \<Rightarrow>
    ('d, 'b) val option" where
  "reframe_constraint_error E err step new_record =
     (case unwrap_err err of
        Some (VMap tagged) \<Rightarrow>
          (case (tagged_type_name tagged, str_get tagged ''$val'') of
             (Some type_name, Some inner) \<Rightarrow>
               (if \<not> starts_with type_name ''::hot::type/ConstraintError.'' then None
                else if get_str inner ''boundary'' \<noteq> Some ''constructor'' then None
                else case (spec_entry inner ''path'', get_str inner ''declared-type'', get_str inner ''message'') of
                       (Some (VVec inner_path), Some inner_record, Some message) \<Rightarrow>
                         (let outer = or_else new_record inner_record;
                              path = (case step of Some k \<Rightarrow> k # inner_path | None \<Rightarrow> inner_path)
                          in case strip_prefix message (lead E (constructor_boundary inner_record) inner_path) of
                               None \<Rightarrow> None
                             | Some rest \<Rightarrow>
                                 (case inner of
                                    VMap entries \<Rightarrow>
                                      Some (val_err (VMap [(VStr ''$type'', VStr type_name), (VStr ''$val'', VMap
                                        (im_insert (VStr ''declared-type'') (VStr outer)
                                          (im_insert (VStr ''path'') (VVec path)
                                            (im_insert (VStr ''message'')
                                              (VStr (lead E (constructor_boundary outer) path @ rest)) entries))))]))
                                  | _ \<Rightarrow> None))
                     | _ \<Rightarrow> None)
           | _ \<Rightarrow> None)
      | _ \<Rightarrow> None)"

definition constraint_error_within :: "('d, 'b) val_env \<Rightarrow> ('d, 'b) val \<Rightarrow> ('d, 'b) val \<Rightarrow> string option \<Rightarrow>
    ('d, 'b) val option" where
  "constraint_error_within E err step new_record = reframe_constraint_error E err (Some step) new_record"

definition constraint_error_of :: "('d, 'b) val_env \<Rightarrow> ('d, 'b) val \<Rightarrow> string \<Rightarrow> ('d, 'b) val option" where
  "constraint_error_of E err new_record = reframe_constraint_error E err None (Some new_record)"

section \<open>Updates of typed values\<close>

definition named_boundary :: "string \<Rightarrow> (string \<times> ('d, 'b) val) list \<Rightarrow> ('d, 'b) val" where
  "named_boundary type_name entries =
     VMap ((VStr ''type'', VMap [(VStr ''kind'', VStr ''named''), (VStr ''type'', VStr type_name)]) #
       map (\<lambda>(k, v). (VStr k, v)) entries)"

definition check_typed_value :: "nat \<Rightarrow> ('d, 'b) ctx \<Rightarrow> vm \<Rightarrow> ('d, 'b) val \<Rightarrow> string \<Rightarrow>
    ((string + ('d, 'b) val) \<times> vm) option" where
  "check_typed_value n C s value bound =
     (case (case value of VMap entries \<Rightarrow> tagged_type_name entries | _ \<Rightarrow> None) of
        None \<Rightarrow> Some (Inr value, s)
      | Some type_name \<Rightarrow>
          (case im_get (ctx_specs C) type_name of
             None \<Rightarrow> Some (Inr value, s)
           | Some _ \<Rightarrow>
               execute_check_constraint n C s value
                 (named_boundary type_name [(''boundary'', VStr bound), (''declared-type'', VStr type_name)]) False))"

definition is_typed :: "('d, 'b) val \<Rightarrow> bool" where
  "is_typed v = (case v of VMap entries \<Rightarrow> tagged_type_name entries \<noteq> None | _ \<Rightarrow> False)"

definition vec_item :: "('d, 'b) val list \<Rightarrow> ('d, 'b) val \<Rightarrow> ('d, 'b) val option" where
  "vec_item items key =
     (case key of VInt index \<Rightarrow> (if 0 \<le> index \<and> nat index < length items then Some (items ! nat index) else None)
      | _ \<Rightarrow> None)"

definition path_step :: "('d, 'b) val_env \<Rightarrow> ('d, 'b) val \<Rightarrow> ('d, 'b) val \<Rightarrow> ('d, 'b) val option" where
  "path_step E value key =
     (case value of
        VMap entries \<Rightarrow>
          (let flds = (case str_get entries ''$val'' of
                         Some inner \<Rightarrow> (if tagged_type_name entries \<noteq> None then inner else value)
                       | None \<Rightarrow> value)
           in case flds of
                VMap fs \<Rightarrow> map_get E fs key
              | VVec items \<Rightarrow> vec_item items key
              | _ \<Rightarrow> None)
      | VVec items \<Rightarrow> vec_item items key
      | _ \<Rightarrow> None)"

text \<open>
  The values along a path: the check of a typed value runs on each, and the first \<open>Err\<close> is the result. With
  no specs every check passes, which the code tests first.
\<close>

fun check_on_path :: "nat \<Rightarrow> ('d, 'b) ctx \<Rightarrow> string \<Rightarrow> vm \<Rightarrow> ('d, 'b) val \<Rightarrow> ('d, 'b) val \<Rightarrow> ('d, 'b) val list \<Rightarrow>
    ((string + ('d, 'b) val) \<times> vm) option" where
  "check_on_path n C bound s value current path =
     (case (if is_typed current then check_typed_value n C s current bound else Some (Inr VNull, s)) of
        None \<Rightarrow> None
      | Some (Inl e, s') \<Rightarrow> Some (Inl e, s')
      | Some (Inr v, s') \<Rightarrow>
          (if is_err v then Some (Inr v, s')
           else case path of
                  [] \<Rightarrow> Some (Inr value, s')
                | key # rest \<Rightarrow>
                    (case path_step (ctx_env C) current key of
                       None \<Rightarrow> Some (Inr value, s')
                     | Some next_value \<Rightarrow> check_on_path n C bound s' value next_value rest)))"

declare check_on_path.simps [simp del]

definition check_typed_values_on_path :: "nat \<Rightarrow> ('d, 'b) ctx \<Rightarrow> vm \<Rightarrow> ('d, 'b) val \<Rightarrow> ('d, 'b) val list \<Rightarrow> string \<Rightarrow>
    ((string + ('d, 'b) val) \<times> vm) option" where
  "check_typed_values_on_path n C s value path bound =
     (if ctx_specs C = [] then Some (Inr value, s) else check_on_path n C bound s value value path)"

lemma values_size: "vsizes (map snd m) \<le> msize m"
  by (induction m) auto

text \<open>The search for a failure in a value and in what it holds: \<open>Inr None\<close> when all checks pass.\<close>

function find_typed_value_failure :: "nat \<Rightarrow> ('d, 'b) ctx \<Rightarrow> string \<Rightarrow> vm \<Rightarrow> ('d, 'b) val \<Rightarrow>
    ((string + ('d, 'b) val option) \<times> vm) option"
  and find_in_values :: "nat \<Rightarrow> ('d, 'b) ctx \<Rightarrow> string \<Rightarrow> vm \<Rightarrow> ('d, 'b) val list \<Rightarrow>
    ((string + ('d, 'b) val option) \<times> vm) option" where
  "find_typed_value_failure n C bound s value =
     (case value of
        VMap entries \<Rightarrow>
          (case (if is_typed value then check_typed_value n C s value bound else Some (Inr VNull, s)) of
             None \<Rightarrow> None
           | Some (Inl e, s') \<Rightarrow> Some (Inl e, s')
           | Some (Inr v, s') \<Rightarrow>
               (if is_err v then Some (Inr (Some v), s')
                else find_in_values n C bound s' (map snd entries)))
      | VVec items \<Rightarrow> find_in_values n C bound s items
      | _ \<Rightarrow> Some (Inr None, s))"
| "find_in_values n C bound s [] = Some (Inr None, s)"
| "find_in_values n C bound s (nested # rest) =
     (case find_typed_value_failure n C bound s nested of
        Some (Inr None, s') \<Rightarrow> find_in_values n C bound s' rest
      | r \<Rightarrow> r)"
  by pat_completeness auto
termination
  by (relation "measure (case_sum (\<lambda>(_, _, _, _, v). vsize v) (\<lambda>(_, _, _, _, vs). vsizes vs))")
    (auto intro: le_SucI simp: values_size less_Suc_eq_le)

declare find_typed_value_failure.simps [simp del]

definition check_typed_values_within :: "nat \<Rightarrow> ('d, 'b) ctx \<Rightarrow> vm \<Rightarrow> ('d, 'b) val \<Rightarrow> string \<Rightarrow>
    ((string + ('d, 'b) val) \<times> vm) option" where
  "check_typed_values_within n C s value bound =
     (if ctx_specs C = [] then Some (Inr value, s)
      else case find_typed_value_failure n C bound s value of
             None \<Rightarrow> None
           | Some (Inl e, s') \<Rightarrow> Some (Inl e, s')
           | Some (Inr found_failure, s') \<Rightarrow> Some (Inr (or_else found_failure value), s'))"

definition check_updated_value :: "nat \<Rightarrow> ('d, 'b) ctx \<Rightarrow> vm \<Rightarrow> string \<Rightarrow> ('d, 'b) val list \<Rightarrow> ('d, 'b) val \<Rightarrow>
    ((string + ('d, 'b) val) \<times> vm) option" where
  "check_updated_value n C s native args value =
     (if native \<in> {''::hot::coll/assoc'', ''::hot::coll/assoc-some'', ''::hot::coll/update'', ''::hot::coll/merge''}
      then check_typed_value n C s value ''update''
      else if native \<in> {''::hot::coll/assoc-in'', ''::hot::coll/update-in''}
      then (case args of
              _ # VVec path # _ \<Rightarrow> check_typed_values_on_path n C s value path ''update''
            | _ \<Rightarrow> check_typed_value n C s value ''update'')
      else if native \<in> {''::hot::coll/walk'', ''::hot::coll/prewalk'', ''::hot::coll/postwalk'', ''::hot::coll/postwalk-replace''}
      then check_typed_values_within n C s value ''update''
      else Some (Inr value, s))"

definition satisfies_constrained_type :: "nat \<Rightarrow> ('d, 'b) ctx \<Rightarrow> vm \<Rightarrow> ('d, 'b) val \<Rightarrow> string \<Rightarrow>
    ((string + bool option) \<times> vm) option" where
  "satisfies_constrained_type n C s value qualified_name =
     (case im_get (ctx_specs C) qualified_name of
        None \<Rightarrow> Some (Inr None, s)
      | Some spec \<Rightarrow>
          (if get_str spec ''kind'' \<in> {Some ''struct'', Some ''enum''} then Some (Inr None, s)
           else case execute_check_constraint n C s value
                       (named_boundary qualified_name [(''boundary'', VStr ''is-type'')]) True of
                  None \<Rightarrow> None
                | Some (Inl e, s') \<Rightarrow> Some (Inl e, s')
                | Some (Inr v, s') \<Rightarrow>
                    Some (Inr (Some (case v of VBool satisfied \<Rightarrow> satisfied | _ \<Rightarrow> False)), s')))"

end
