(* ===== verification/Hot_Cycles.thy ===== *)
theory Hot_Cycles
  imports Hot_Constraint
begin

text \<open>
  The types defined in terms of themselves. \<open>reaches_type\<close> is the depth-first search of
  \<^verbatim>\<open>crates/hot/src/lang/runtime/vm/constraints.rs\<close>; the lemmas show that it finds exactly the named types
  from which a chain of same-value references leads back, and that the path it reports is such a chain.
\<close>

section \<open>The cache\<close>

definition spec_table :: "(string \<times> ('d, 'b) val) list \<Rightarrow> ('d, 'b) specs" where
  "spec_table table = fold (\<lambda>(type_name, spec). im_insert type_name spec) table []"

definition cycle_of :: "('d, 'b) specs \<Rightarrow> string \<times> ('d, 'b) val \<Rightarrow> (string \<times> string list) list" where
  "cycle_of specs entry =
     (case reaches_type specs (snd entry) (fst entry) [fst entry] [] of
        (True, path, _) \<Rightarrow> [(fst entry, path)]
      | (False, _, _) \<Rightarrow> [])"

definition spec_cycles :: "('d, 'b) specs \<Rightarrow> (string \<times> string list) list" where
  "spec_cycles specs = concat (map (cycle_of specs) specs)"

section \<open>References to the same value\<close>

text \<open>The named types against which a check of a node checks the same value.\<close>

function direct_names :: "('d, 'b) val \<Rightarrow> string set" where
  "direct_names nd =
     (if node_kind nd = ''named'' then {node_name nd}
      else if node_kind nd = ''union'' then
        (case spec_entry nd ''members'' of Some (VVec ms) \<Rightarrow> \<Union> (set (map direct_names ms)) | _ \<Rightarrow> {})
      else if node_kind nd = ''optional'' then
        (case node_child nd ''inner'' of Some c \<Rightarrow> direct_names c | None \<Rightarrow> {})
      else if node_kind nd = ''refine'' then
        (case node_child nd ''base'' of Some c \<Rightarrow> direct_names c | None \<Rightarrow> {})
      else if node_kind nd = ''struct'' \<or> node_kind nd = ''enum'' then
        (case node_child nd ''invariant'' of Some c \<Rightarrow> direct_names c | None \<Rightarrow> {})
      else {})"
  by pat_completeness auto
termination
  by (relation "measure vsize") (auto dest: node_child_size spec_member_size)

declare direct_names.simps [simp del] reaches_type.simps [simp del]

definition refers :: "('d, 'b) specs \<Rightarrow> (string \<times> string) set" where
  "refers specs = {(a, b). \<exists>spec. im_get specs a = Some spec \<and> b \<in> direct_names spec}"

lemma node_kinds:
  obtains "node_kind nd = ''named''"
  | "node_kind nd = ''union''"
  | key where "(node_kind nd, key) \<in> {(''optional'', ''inner''), (''refine'', ''base''),
      (''struct'', ''invariant''), (''enum'', ''invariant'')}"
  | "node_kind nd \<notin> {''named'', ''union'', ''optional'', ''refine'', ''struct'', ''enum''}"
  by blast

lemma direct_simps:
  "node_kind nd = ''named'' \<Longrightarrow> direct_names nd = {node_name nd}"
  "node_kind nd = ''union'' \<Longrightarrow> direct_names nd =
     (case spec_entry nd ''members'' of Some (VVec ms) \<Rightarrow> (\<Union>m \<in> set ms. direct_names m) | _ \<Rightarrow> {})"
  "(node_kind nd, key) \<in> {(''optional'', ''inner''), (''refine'', ''base''), (''struct'', ''invariant''),
      (''enum'', ''invariant'')} \<Longrightarrow>
     direct_names nd = (case node_child nd key of Some c \<Rightarrow> direct_names c | None \<Rightarrow> {})"
  "node_kind nd \<notin> {''named'', ''union'', ''optional'', ''refine'', ''struct'', ''enum''} \<Longrightarrow> direct_names nd = {}"
proof -
  note d = direct_names.simps [of nd]
  show "node_kind nd = ''named'' \<Longrightarrow> direct_names nd = {node_name nd}" by (subst d) simp
  show "node_kind nd = ''union'' \<Longrightarrow> direct_names nd =
     (case spec_entry nd ''members'' of Some (VVec ms) \<Rightarrow> (\<Union>m \<in> set ms. direct_names m) | _ \<Rightarrow> {})"
    by (subst d, cases "spec_entry nd ''members''") (simp_all split: val.split)
  show "direct_names nd = (case node_child nd key of Some c \<Rightarrow> direct_names c | None \<Rightarrow> {})"
    if "(node_kind nd, key) \<in> {(''optional'', ''inner''), (''refine'', ''base''), (''struct'', ''invariant''),
      (''enum'', ''invariant'')}"
    using that by (subst d) (elim insertE emptyE; simp)
  show "node_kind nd \<notin> {''named'', ''union'', ''optional'', ''refine'', ''struct'', ''enum''} \<Longrightarrow> direct_names nd = {}"
    by (subst d) simp
qed

lemma reaches_simps:
  "node_kind nd = ''union'' \<Longrightarrow> reaches_type specs nd target path seen =
     (case spec_entry nd ''members'' of
        Some (VVec ms) \<Rightarrow> reaches_any specs ms target path seen | _ \<Rightarrow> (False, path, seen))"
  "(node_kind nd, key) \<in> {(''optional'', ''inner''), (''refine'', ''base''), (''struct'', ''invariant''),
      (''enum'', ''invariant'')} \<Longrightarrow> reaches_type specs nd target path seen =
     (case node_child nd key of Some c \<Rightarrow> reaches_type specs c target path seen | None \<Rightarrow> (False, path, seen))"
  "node_kind nd \<notin> {''named'', ''union'', ''optional'', ''refine'', ''struct'', ''enum''} \<Longrightarrow>
     reaches_type specs nd target path seen = (False, path, seen)"
proof -
  note d = reaches_type.simps [of specs nd target path seen]
  show "node_kind nd = ''union'' \<Longrightarrow> reaches_type specs nd target path seen =
     (case spec_entry nd ''members'' of
        Some (VVec ms) \<Rightarrow> reaches_any specs ms target path seen | _ \<Rightarrow> (False, path, seen))"
    by (subst d) simp
  show "reaches_type specs nd target path seen =
     (case node_child nd key of Some c \<Rightarrow> reaches_type specs c target path seen | None \<Rightarrow> (False, path, seen))"
    if "(node_kind nd, key) \<in> {(''optional'', ''inner''), (''refine'', ''base''), (''struct'', ''invariant''),
      (''enum'', ''invariant'')}"
    using that by (subst d) (elim insertE emptyE; simp)
  show "node_kind nd \<notin> {''named'', ''union'', ''optional'', ''refine'', ''struct'', ''enum''} \<Longrightarrow>
     reaches_type specs nd target path seen = (False, path, seen)"
    by (subst d) simp
qed

text \<open>The search: what it returns, by induction over the calls it makes.\<close>

lemma reaches_cases:
  assumes "node_kind nd = ''named''"
  obtains "node_name nd = target" "reaches_type specs nd target path seen = (True, path @ [node_name nd], seen)"
  | "node_name nd \<noteq> target" "im_get specs (node_name nd) = None"
    "reaches_type specs nd target path seen = (False, path, seen)"
  | "node_name nd \<noteq> target" "node_name nd \<in> set seen"
    "reaches_type specs nd target path seen = (False, path, seen)"
  | spec b p s where "node_name nd \<noteq> target" "im_get specs (node_name nd) = Some spec"
    "node_name nd \<notin> set seen"
    "reaches_type specs spec target (path @ [node_name nd]) (node_name nd # seen) = (b, p, s)"
    "reaches_type specs nd target path seen = (b, if b then p else butlast p, s)"
proof -
  obtain b p s where "reaches_type specs (the (im_get specs (node_name nd))) target
      (path @ [node_name nd]) (node_name nd # seen) = (b, p, s)" by (metis prod_cases3)
  then show thesis using that assms reaches_type.simps [of specs nd target path seen]
    by (cases "im_get specs (node_name nd)"; cases b) (auto split: if_splits)
qed

definition found :: "('d, 'b) specs \<Rightarrow> string \<Rightarrow> string set \<Rightarrow> string list \<Rightarrow> bool \<Rightarrow> string list \<Rightarrow> bool" where
  "found specs target names path b p \<longleftrightarrow>
     (if b then \<exists>a \<in> names. \<exists>q. p = path @ a # q \<and> last (a # q) = target \<and>
          (\<forall>i < length q. ((a # q) ! i, (a # q) ! Suc i) \<in> refers specs)
      else p = path)"

lemma found_False [simp]: "found specs target names path False p \<longleftrightarrow> p = path"
  by (simp add: found_def)

lemma found_mono: "found specs target names path b p \<Longrightarrow> names \<subseteq> names' \<Longrightarrow> found specs target names' path b p"
  unfolding found_def by (cases b) (simp_all only: if_True if_False, meson subsetD)

lemma found_deeper:
  assumes "im_get specs name = Some spec" "found specs target (direct_names spec) (path @ [name]) True p"
  shows "found specs target {name} path True p"
proof -
  from assms(2) obtain a q where q: "a \<in> direct_names spec" "p = (path @ [name]) @ a # q" "last (a # q) = target"
    "\<forall>i < length q. ((a # q) ! i, (a # q) ! Suc i) \<in> refers specs" by (auto simp: found_def)
  have "(name, a) \<in> refers specs" using assms(1) q(1) by (auto simp: refers_def)
  then have "\<forall>i < length (a # q). ((name # a # q) ! i, (name # a # q) ! Suc i) \<in> refers specs"
    using q(4) by (auto simp: nth_Cons split: nat.split)
  with q(2,3) show ?thesis unfolding found_def by (intro if_P [THEN iffD2, OF TrueI] bexI [of _ name] exI [of _ "a # q"]) auto
qed

lemma reaches_sound:
  "reaches_type specs nd target path seen = (b, p, s) \<Longrightarrow> found specs target (direct_names nd) path b p"
  "reaches_any specs ms target path seen = (b, p, s) \<Longrightarrow>
     found specs target (\<Union>m \<in> set ms. direct_names m) path b p"
proof (induction specs nd target path seen and specs ms target path seen arbitrary: b p s and b p s
    rule: reaches_type_reaches_any.induct)
  case (1 specs nd target path seen)
  show ?case
  proof (cases rule: node_kinds [of nd])
    case 1
    note named = this
    show ?thesis
    proof (cases rule: reaches_cases [OF 1, where specs = specs and target = target and path = path and seen = seen])
      case 1
      then show ?thesis using "1.prems" direct_simps(1) [OF named] by (auto simp: found_def)
    next
      case (4 spec b' p' s')
      then show ?thesis
        using "1.IH"(1) [OF named 4(1-4)] "1.prems" direct_simps(1) [OF named] found_deeper [OF 4(2), of target path p']
        by (cases b') auto
    qed (use "1.prems" in auto)
  next
    case 2
    then show ?thesis using "1.IH"(2) "1.prems"
      by (auto simp: reaches_simps(1) [OF 2] direct_simps(2) [OF 2] split: option.splits val.splits)
  next
    case (3 key)
    then show ?thesis using "1.IH"(3-) "1.prems"
      by (auto simp: reaches_simps(2) [OF 3] direct_simps(3) [OF 3] split: option.splits)
  next
    case 4
    then show ?thesis using "1.prems" by (simp add: reaches_simps)
  qed
next
  case (2 specs target path seen)
  then show ?case by simp
next
  case (3 specs member members target path seen)
  obtain b' p' s' where r: "reaches_type specs member target path seen = (b', p', s')" by (metis prod_cases3)
  show ?case
  proof (cases b')
    case True
    then show ?thesis using "3.IH"(1) [OF r] "3.prems" r by (auto intro: found_mono)
  next
    case False
    then show ?thesis using "3.IH"(1) [OF r] "3.IH"(2) [OF r [symmetric] _ refl] "3.prems" r
      by (auto intro: found_mono)
  qed
qed

text \<open>
  What a search that finds nothing leaves behind: the names it has seen are closed under references,
  and none of them refers to the target.
\<close>

definition explored :: "('d, 'b) specs \<Rightarrow> string \<Rightarrow> string list \<Rightarrow> string set \<Rightarrow> bool" where
  "explored specs target s names \<longleftrightarrow>
     target \<notin> names \<and> (\<forall>a \<in> names. im_get specs a = None \<or> a \<in> set s)"

definition closed_since :: "('d, 'b) specs \<Rightarrow> string \<Rightarrow> string list \<Rightarrow> string list \<Rightarrow> bool" where
  "closed_since specs target seen s \<longleftrightarrow>
     set seen \<subseteq> set s \<and>
     (\<forall>a \<in> set s - set seen. \<forall>spec. im_get specs a = Some spec \<longrightarrow> explored specs target s (direct_names spec))"

lemma explored_mono: "explored specs target s names \<Longrightarrow> set s \<subseteq> set s' \<Longrightarrow> explored specs target s' names"
  by (auto simp: explored_def)

lemma explored_empty [simp]: "explored specs target s {}"
  by (simp add: explored_def)

lemma closed_refl: "closed_since specs target seen seen"
  by (simp add: closed_since_def)

lemma closed_trans:
  assumes "closed_since specs target seen s" "closed_since specs target s s'"
  shows "closed_since specs target seen s'"
proof -
  have sub: "set seen \<subseteq> set s" "set s \<subseteq> set s'" using assms by (auto simp: closed_since_def)
  have "explored specs target s' (direct_names spec)"
    if "a \<in> set s' - set seen" "im_get specs a = Some spec" for a spec
  proof (cases "a \<in> set s")
    case True
    then show ?thesis using assms(1) that sub(2) unfolding closed_since_def by (meson DiffI DiffD2 explored_mono)
  next
    case False
    then show ?thesis using assms(2) that unfolding closed_since_def by blast
  qed
  then show ?thesis using sub unfolding closed_since_def by blast
qed

lemma reaches_complete:
  "reaches_type specs nd target path seen = (False, p, s) \<Longrightarrow>
     closed_since specs target seen s \<and> explored specs target s (direct_names nd)"
  "reaches_any specs ms target path seen = (False, p, s) \<Longrightarrow>
     closed_since specs target seen s \<and> explored specs target s (\<Union>m \<in> set ms. direct_names m)"
proof (induction specs nd target path seen and specs ms target path seen arbitrary: p s and p s
    rule: reaches_type_reaches_any.induct)
  case (1 specs nd target path seen)
  show ?case
  proof (cases rule: node_kinds [of nd])
    case 1
    note named = this
    show ?thesis
    proof (cases rule: reaches_cases [OF 1, where specs = specs and target = target and path = path and seen = seen])
      case (4 spec b' p' s')
      then have r: "reaches_type specs spec target (path @ [node_name nd]) (node_name nd # seen) = (False, p', s)"
        using "1.prems" by simp
      from "1.IH"(1) [OF named 4(1-3) r] have
        ih: "closed_since specs target (node_name nd # seen) s" "explored specs target s (direct_names spec)" by auto
      have "node_name nd \<in> set s" using ih(1) by (simp add: closed_since_def)
      moreover have "closed_since specs target seen s"
        using ih 4(2) by (auto simp: closed_since_def)
      ultimately show ?thesis using 4(1) direct_simps(1) [OF named] by (auto simp: explored_def)
    qed (use "1.prems" direct_simps(1) [OF named] in \<open>auto simp: explored_def closed_refl\<close>)
  next
    case 2
    then show ?thesis using "1.IH"(2) "1.prems"
      by (auto simp: reaches_simps(1) [OF 2] direct_simps(2) [OF 2] closed_refl split: option.splits val.splits)
  next
    case (3 key)
    then show ?thesis using "1.IH"(3-) "1.prems"
      by (auto simp: reaches_simps(2) [OF 3] direct_simps(3) [OF 3] closed_refl split: option.splits)
  next
    case 4
    then show ?thesis using "1.prems" by (auto simp: reaches_simps direct_simps closed_refl explored_def)
  qed
next
  case (2 specs target path seen)
  then show ?case by (auto simp: closed_refl explored_def)
next
  case (3 specs member members target path seen)
  obtain b' p' s' where r: "reaches_type specs member target path seen = (b', p', s')" by (metis prod_cases3)
  then have "\<not> b'" "reaches_any specs members target p' s' = (False, p, s)" using "3.prems" by (auto split: bool.splits)
  then have h: "closed_since specs target seen s'" "explored specs target s' (direct_names member)"
    "closed_since specs target s' s" "explored specs target s (\<Union>m \<in> set members. direct_names m)"
    using "3.IH"(1) [of p' s'] "3.IH"(2) [OF r [symmetric] _ refl, of p s] r by auto
  then have "explored specs target s (direct_names member)"
    by (intro explored_mono [OF h(2)]) (simp add: closed_since_def)
  then show ?case using h closed_trans [OF h(1,3)] by (auto simp: explored_def)
qed

section \<open>Exactly the cyclic types\<close>

lemma path_trancl:
  "\<forall>i < length q. ((a # q) ! i, (a # q) ! Suc i) \<in> r \<Longrightarrow> (a, last (a # q)) \<in> r\<^sup>*"
proof (induction q arbitrary: a)
  case (Cons b q)
  have "(a, b) \<in> r" using Cons.prems by force
  moreover have "\<forall>i < length q. ((b # q) ! i, (b # q) ! Suc i) \<in> r" using Cons.prems by force
  ultimately show ?case using Cons.IH [of b] by auto
qed simp

lemma closed_unreachable:
  assumes "closed_since specs target [] s" "explored specs target s (direct_names nd)"
    "a \<in> direct_names nd" "(a, b) \<in> (refers specs)\<^sup>*"
  shows "b \<noteq> target \<and> (im_get specs b = None \<or> b \<in> set s)"
  using assms(4)
proof (induction rule: rtrancl_induct)
  case base
  then show ?case using assms(2,3) by (auto simp: explored_def)
next
  case (step b c)
  from step.hyps(2) obtain spec where "im_get specs b = Some spec" "c \<in> direct_names spec" by (auto simp: refers_def)
  then show ?case using step.IH assms(1) by (auto simp: closed_since_def explored_def)
qed

lemma reaches_iff:
  assumes "im_get specs name = Some spec"
  shows "fst (reaches_type specs spec name [name] []) \<longleftrightarrow> (name, name) \<in> (refers specs)\<^sup>+"
proof
  assume "fst (reaches_type specs spec name [name] [])"
  then obtain p s where "reaches_type specs spec name [name] [] = (True, p, s)" by (metis eq_fst_iff)
  from reaches_sound(1) [OF this] obtain a q where a: "a \<in> direct_names spec" "last (a # q) = name"
    "\<forall>i < length q. ((a # q) ! i, (a # q) ! Suc i) \<in> refers specs" by (auto simp: found_def)
  then have "(name, a) \<in> refers specs" "(a, name) \<in> (refers specs)\<^sup>*"
    using assms path_trancl [OF a(3)] by (auto simp: refers_def)
  then show "(name, name) \<in> (refers specs)\<^sup>+" by simp
next
  assume "(name, name) \<in> (refers specs)\<^sup>+"
  then obtain a where a: "(name, a) \<in> refers specs" "(a, name) \<in> (refers specs)\<^sup>*" by (meson tranclD)
  then have d: "a \<in> direct_names spec" using assms by (auto simp: refers_def)
  show "fst (reaches_type specs spec name [name] [])"
  proof (rule ccontr)
    assume "\<not> fst (reaches_type specs spec name [name] [])"
    then obtain p s where "reaches_type specs spec name [name] [] = (False, p, s)" by (metis eq_fst_iff)
    from reaches_complete(1) [OF this] show False using closed_unreachable [OF _ _ d a(2)] by blast
  qed
qed

lemma im_get_concat:
  assumes "distinct (map fst m)" "\<And>e. map fst (f e) = [] \<or> map fst (f e) = [fst e]"
  shows "im_get (concat (map f m)) k = (case im_get m k of Some v \<Rightarrow> im_get (f (k, v)) k | None \<Rightarrow> None)"
  using assms(1)
proof (induction m)
  case (Cons e m)
  have k: "im_get (f e) k' = None" if "k' \<noteq> fst e" for k'
    using assms(2) [of e] that by (auto simp: map_of_eq_None_iff)
  show ?case
  proof (cases "fst e = k")
    case True
    then have "im_get m k = None" using Cons.prems by (auto simp: map_of_eq_None_iff)
    then show ?thesis using True Cons by (cases e) (auto simp: map_add_def split: option.split)
  next
    case False
    then show ?thesis using k [of k] Cons by (cases e) (auto simp: map_add_def split: option.split)
  qed
qed simp

lemma spec_cycles_get:
  assumes "im_wf specs"
  shows "im_get (spec_cycles specs) name =
    (case im_get specs name of
       Some spec \<Rightarrow>
         (case reaches_type specs spec name [name] [] of (True, p, _) \<Rightarrow> Some p | (False, _, _) \<Rightarrow> None)
     | None \<Rightarrow> None)"
proof -
  have "im_get (spec_cycles specs) name =
      (case im_get specs name of Some v \<Rightarrow> im_get (cycle_of specs (name, v)) name | None \<Rightarrow> None)"
    unfolding spec_cycles_def
    by (rule im_get_concat) (use assms in \<open>auto simp: im_wf_def cycle_of_def split: prod.split bool.split\<close>)
  then show ?thesis by (auto simp: cycle_of_def split: option.split prod.split bool.split)
qed

lemma spec_table_wf: "im_wf (spec_table table)"
proof -
  have "im_wf m \<Longrightarrow> im_wf (fold (\<lambda>(type_name, spec). im_insert type_name spec) t m)"
    for t and m :: "('a, 'b) specs"
    by (induction t arbitrary: m) (auto simp: im_wf_insert)
  from this [of "[]" table] show ?thesis by (simp add: spec_table_def im_wf_def)
qed

text \<open>C25. The cycles a program's spec cache records are exactly its named types whose check would
  check the same value against the same type again, and the path recorded for one is a chain of such
  references from the type back to itself. A type that refers to itself only through a part of its
  value is not among them.\<close>
theorem spec_cycles_exact:
  "(case im_get (spec_cycles (spec_table table)) name of
      Some path \<Rightarrow>
        hd path = name \<and> last path = name \<and> length path > 1 \<and>
        set (zip path (tl path)) \<subseteq> refers (spec_table table)
    | None \<Rightarrow> (name, name) \<notin> (refers (spec_table table))\<^sup>+)"
proof -
  let ?specs = "spec_table table"
  note g = spec_cycles_get [OF spec_table_wf, of table name]
  show ?thesis
  proof (cases "im_get ?specs name")
    case None
    then have "(name, a) \<notin> refers ?specs" for a by (simp add: refers_def)
    then show ?thesis using g None by (auto dest: tranclD)
  next
    case (Some spec)
    obtain b p s where r: "reaches_type ?specs spec name [name] [] = (b, p, s)" by (metis prod_cases3)
    show ?thesis
    proof (cases b)
      case False
      then show ?thesis using g Some r reaches_iff [OF Some] by simp
    next
      case True
      from reaches_sound(1) [OF r] True obtain a q where a: "a \<in> direct_names spec" "p = [name] @ a # q"
        "last (a # q) = name" "\<forall>i < length q. ((a # q) ! i, (a # q) ! Suc i) \<in> refers ?specs" by (auto simp: found_def)
      have "(name, a) \<in> refers ?specs" using Some a(1) by (auto simp: refers_def)
      moreover have "set (zip (a # q) q) \<subseteq> refers ?specs" using a(4) by (auto simp: set_zip)
      ultimately show ?thesis using g Some r True a(2,3) by simp
    qed
  qed
qed

end
