(* ===== verification/Hot_Conform.thy ===== *)
theory Hot_Conform
  imports Hot_Check Hot_Cycles
begin

text \<open>
  What a check of \<^verbatim>\<open>crates/hot/src/lang/runtime/vm/constraints.rs\<close> promises: it ends whatever the
  declared types are, it changes a value only by converting numbers exactly, and the value it returns
  conforms to the type.
\<close>

declare check_value.simps(2) [simp del]

section \<open>Fuel\<close>

definition extends :: "('d, 'b) checker \<Rightarrow> ('d, 'b) checker \<Rightarrow> bool" where
  "extends chk chk' \<longleftrightarrow> (\<forall>s v nd p r. chk s v nd p = Some r \<longrightarrow> chk' s v nd p = Some r)"

lemma extendsD: "extends chk chk' \<Longrightarrow> chk s v nd p = Some r \<Longrightarrow> chk' s v nd p = Some r"
  unfolding extends_def by blast

lemma extends_union:
  "extends chk chk' \<Longrightarrow> check_union chk v p fs s ms = Some r \<Longrightarrow> check_union chk' v p fs s ms = Some r"
  by (induction ms arbitrary: fs s) (auto split: option.splits prod.splits checked.splits dest: extendsD)

lemma extends_items:
  "extends chk chk' \<Longrightarrow> check_items chk nd p i acc s xs = Some r \<Longrightarrow> check_items chk' nd p i acc s xs = Some r"
  by (induction xs arbitrary: i acc s) (auto split: option.splits prod.splits checked.splits dest: extendsD)

lemma extends_key:
  "extends chk chk' \<Longrightarrow> check_map_key E chk s k nd p = Some r \<Longrightarrow> check_map_key E chk' s k nd p = Some r"
  unfolding check_map_key_def
  by (auto split: option.split_asm prod.split_asm checked.split_asm simp: extendsD)

lemma extends_entry:
  assumes "extends chk chk'" "check_map_entry E chk s k v ks nd p = Some r"
  shows "check_map_entry E chk' s k v ks nd p = Some r"
  using assms(2) extends_key [OF assms(1)] extendsD [OF assms(1)]
  unfolding check_map_entry_def
  by (cases ks) (auto split: option.splits prod.splits checked.splits)

lemma extends_entries:
  "extends chk chk' \<Longrightarrow> check_entries E chk ks nd p acc s m = Some r \<Longrightarrow>
   check_entries E chk' ks nd p acc s m = Some r"
  by (induction E chk ks nd p acc s m rule: check_entries.induct)
    (auto split: option.splits prod.splits checked.splits dest: extends_entry)

lemma extends_fields:
  "extends chk chk' \<Longrightarrow> check_fields E chk p s v fs = Some r \<Longrightarrow> check_fields E chk' p s v fs = Some r"
  by (induction E chk p s v fs rule: check_fields.induct)
    (auto split: option.split_asm prod.split_asm checked.split_asm simp: extendsD)

lemma extends_struct:
  assumes "extends chk chk'" "check_struct E chk s v t fs i p = Some r"
  shows "check_struct E chk' s v t fs i p = Some r"
  using assms(2) extends_fields [OF assms(1)] extendsD [OF assms(1)]
  unfolding check_struct_def
  by (auto split: option.splits prod.splits checked.splits val.splits)

lemma extends_refinement:
  assumes "extends chk chk'" "check_refinement C chk s v nd p = Some r"
  shows "check_refinement C chk' s v nd p = Some r"
  using assms(2) extendsD [OF assms(1)]
  unfolding check_refinement_def
  by (auto split: option.splits prod.splits checked.splits)

lemma check_value_Suc: "check_value n C s v nd p = Some r \<Longrightarrow> check_value (Suc n) C s v nd p = Some r"
proof (induction n arbitrary: s v nd p r)
  case (Suc n)
  then have e: "extends (check_value n C) (check_value (Suc n) C)" unfolding extends_def by blast
  show ?case
    using Suc.prems extendsD [OF e] extends_union [OF e] extends_items [OF e] extends_entries [OF e]
      extends_struct [OF e] extends_refinement [OF e]
    unfolding check_value.simps(2) [of n] check_value.simps(2) [of "Suc n"]
    by (cases "view_of nd") (auto split: if_splits option.splits val.splits)
qed simp

lemma check_value_mono: "n \<le> m \<Longrightarrow> check_value n C s v nd p = Some r \<Longrightarrow> check_value m C s v nd p = Some r"
  by (induction m rule: dec_induct) (auto intro: check_value_Suc)

section \<open>Conversions\<close>

text \<open>
  How a check may change a value: a base check converts a number, a vector and a map are converted
  part by part, and a key may be replaced by the number it spells.
\<close>

inductive conv :: "('d, 'b) val_env \<Rightarrow> ('d, 'b) val \<Rightarrow> ('d, 'b) val \<Rightarrow> bool" for E where
  conv_refl: "conv E v v"
| conv_base: "base_value E expected v = Some w \<Longrightarrow> conv E v w"
| conv_vec: "list_all2 (conv E) xs ys \<Longrightarrow> conv E (VVec xs) (VVec ys)"
| conv_map: "list_all2 (\<lambda>e e'.
     (conv E (fst e) (fst e') \<or>
      (\<exists>t n. fst e = VStr t \<and> json_number_key E t = Some n \<and> conv E n (fst e'))) \<and>
     conv E (snd e) (snd e')) m m' \<Longrightarrow> conv E (VMap m) (VMap m')"
| conv_trans: "conv E u v \<Longrightarrow> conv E v w \<Longrightarrow> conv E u w"

text \<open>Values that are the same but for the representation of their numbers.\<close>

inductive same_value :: "('d, 'b) val_env \<Rightarrow> ('d, 'b) val \<Rightarrow> ('d, 'b) val \<Rightarrow> bool" for E where
  sv_refl: "same_value E v v"
| sv_number: "val_number E v = Some a \<Longrightarrow> val_number E w = Some b \<Longrightarrow> dec_eq E a b \<Longrightarrow> same_value E v w"
| sv_vec: "list_all2 (same_value E) xs ys \<Longrightarrow> same_value E (VVec xs) (VVec ys)"
| sv_map: "list_all2 (\<lambda>e e'.
     (same_value E (fst e) (fst e') \<or>
      (\<exists>t n. fst e = VStr t \<and> json_number_key E t = Some n \<and> same_value E n (fst e'))) \<and>
     same_value E (snd e) (snd e')) m m' \<Longrightarrow> same_value E (VMap m) (VMap m')"
| sv_trans: "same_value E u v \<Longrightarrow> same_value E v w \<Longrightarrow> same_value E u w"

text \<open>What \<^verbatim>\<open>D256\<close> documents: a decimal made of an integer equals itself, and a decimal that is its own
  floor equals the integer it converts to.\<close>

definition exact_decimals :: "('d, 'b) val_env \<Rightarrow> bool" where
  "exact_decimals E \<longleftrightarrow>
     (\<forall>n. dec_eq E (dec_of_i64 E n) (dec_of_i64 E n)) \<and>
     (\<forall>d n. dec_eq E (dec_floor E d) d \<longrightarrow> dec_to_i64 E d = Some n \<longrightarrow> dec_eq E d (dec_of_i64 E n))"

lemma base_value_cases:
  assumes "base_value E expected v = Some w"
  obtains "w = v" "base_matches expected v"
  | d n where "v = VDec d" "w = VInt n" "expected = ''Int''" "dec_eq E (dec_floor E d) d" "dec_to_i64 E d = Some n"
  | n where "v = VInt n" "w = VDec (dec_of_i64 E n)" "expected = ''Dec''"
  using assms unfolding base_value_def by (auto split: if_splits val.splits)

lemma base_value_matches: "base_value E expected v = Some w \<Longrightarrow> base_matches expected w"
  by (erule base_value_cases) (auto simp: base_matches_def)

lemma base_value_same:
  assumes "exact_decimals E" "base_value E expected v = Some w"
  shows "same_value E v w"
  using assms(2)
proof (cases rule: base_value_cases)
  case 1
  then show ?thesis by (simp add: sv_refl)
next
  case (2 d n)
  then show ?thesis using assms(1) by (intro sv_number [of _ _ d _ "dec_of_i64 E n"]) (auto simp: val_number_def exact_decimals_def)
next
  case (3 n)
  then show ?thesis using assms(1)
    by (intro sv_number [of _ _ "dec_of_i64 E n" _ "dec_of_i64 E n"]) (auto simp: val_number_def exact_decimals_def)
qed

lemma conv_same: "conv E v w \<Longrightarrow> exact_decimals E \<Longrightarrow> same_value E v w"
proof (induction rule: conv.induct)
  case (conv_base expected v w)
  then show ?case by (simp add: base_value_same)
next
  case (conv_map m m')
  then show ?case by (intro sv_map) (auto elim!: list_all2_mono)
next
  case (conv_vec xs ys)
  then show ?case by (intro sv_vec) (auto elim!: list_all2_mono)
qed (auto intro: same_value.intros)

lemma json_key_size: "json_number_key E t = Some n \<Longrightarrow> vsize n = 1"
  by (auto simp: json_number_key_def split: option.splits)

lemma conv_size: "conv E v w \<Longrightarrow> vsize w = vsize v"
proof (induction rule: conv.induct)
  case (conv_base expected v w)
  then show ?case by (auto elim!: base_value_cases)
next
  case (conv_vec xs ys)
  then have "vsizes ys = vsizes xs" by (induction rule: list_all2_induct) auto
  then show ?case by simp
next
  case (conv_map m m')
  then have "msize m' = msize m"
    by (induction rule: list_all2_induct) (auto dest!: json_key_size)
  then show ?case by simp
qed auto

lemma conv_null: "conv E v w \<Longrightarrow> v = VNull \<Longrightarrow> w = VNull"
  by (induction rule: conv.induct) (auto elim!: base_value_cases)

lemma conv_str: "conv E v w \<Longrightarrow> (v = VStr t \<longleftrightarrow> w = VStr t)"
  by (induction rule: conv.induct) (auto elim!: base_value_cases)

lemma conv_is_map: "conv E v w \<Longrightarrow> (\<exists>m. v = VMap m) \<longleftrightarrow> (\<exists>m. w = VMap m)"
  by (induction rule: conv.induct) (auto elim!: base_value_cases)

text \<open>Replacing the value of an entry.\<close>

lemma conv_insert:
  assumes "find (\<lambda>e. key_eq E k (fst e)) m = Some e" "conv E (snd e) w"
  shows "conv E (VMap m) (VMap (map_insert E k w m))"
proof (rule conv_map)
  show "list_all2 (\<lambda>e e'.
      (conv E (fst e) (fst e') \<or>
       (\<exists>t n. fst e = VStr t \<and> json_number_key E t = Some n \<and> conv E n (fst e'))) \<and>
      conv E (snd e) (snd e')) m (map_insert E k w m)"
    using assms(1)
  proof (induction m)
    case (Cons x m)
    obtain a b where x: "x = (a, b)" by (cases x)
    then show ?case using Cons assms(2) by (auto simp: conv_refl list.rel_refl_strong split: if_splits)
  qed simp
qed

lemma conv_insert_val:
  assumes "str_get m ''$val'' = Some v" "conv E v w"
  shows "conv E (VMap m) (VMap (im_insert (VStr ''$val'') w m))"
proof -
  from assms(1) obtain e where "find (\<lambda>e. key_eq E (VStr ''$val'') (fst e)) m = Some e" "snd e = v"
    using map_get_str [of E m "''$val''"] by (auto simp: map_get_def)
  then show ?thesis using conv_insert [of E "VStr ''$val''" m e w] assms(2) by (simp add: map_insert_str)
qed

lemma typed_fieldsD:
  assumes "typed_fields v = Some f"
  obtains m flds where "v = VMap m" "f = VMap flds" "str_get m ''$val'' = Some (VMap flds)" "\<not> is_err v"
    "is_tagged_wrapper m"
  using assms unfolding typed_fields_def by (auto split: val.splits if_splits option.splits)

lemma as_fields_map: "as_fields (VMap m) = VMap (case typed_fields (VMap m) of Some (VMap flds) \<Rightarrow> flds | _ \<Rightarrow> m)"
  unfolding as_fields_def by (auto split: option.split val.split elim!: typed_fieldsD)

lemma with_field_conv:
  assumes "conv E (field_of E (VMap m) k) w" "\<not> val_eq E w (field_of E (VMap m) k)"
  shows "conv E (VMap m) (with_field E (VMap m) k w)"
proof -
  obtain flds where f: "as_fields (VMap m) = VMap flds" by (simp add: as_fields_map)
  have "map_get E flds k \<noteq> None"
  proof
    assume "map_get E flds k = None"
    then have "field_of E (VMap m) k = VNull" using f by (simp add: field_of_def)
    then show False using conv_null [OF assms(1)] assms(2) by simp
  qed
  then obtain e where e: "find (\<lambda>e. key_eq E k (fst e)) flds = Some e" "field_of E (VMap m) k = snd e"
    using f by (auto simp: map_get_def field_of_def)
  then have c: "conv E (VMap flds) (VMap (map_insert E k w flds))" using conv_insert [OF e(1)] assms(1) by simp
  show ?thesis
  proof (cases "typed_fields (VMap m)")
    case None
    then show ?thesis using c f by (simp add: with_field_def with_type_of_def as_fields_def)
  next
    case (Some ff)
    then obtain flds' where v: "str_get m ''$val'' = Some (VMap flds')" "ff = VMap flds'" by (auto elim!: typed_fieldsD)
    then have "flds' = flds" using f Some by (simp add: as_fields_def)
    then show ?thesis using conv_insert_val [OF v(1)] c f Some
      by (simp add: with_field_def with_type_of_def)
  qed
qed

section \<open>A check only converts\<close>

definition converts :: "('d, 'b) val_env \<Rightarrow> ('d, 'b) checker \<Rightarrow> bool" where
  "converts E chk \<longleftrightarrow> (\<forall>s v nd p v' s'. chk s v nd p = Some (Checked v', s') \<longrightarrow> conv E v v')"

lemma convertsD: "converts E chk \<Longrightarrow> chk s v nd p = Some (Checked v', s') \<Longrightarrow> conv E v v'"
  unfolding converts_def by blast

lemma union_converts:
  "converts E chk \<Longrightarrow> check_union chk v p fs s ms = Some (Checked v', s') \<Longrightarrow> conv E v v'"
proof (induction ms arbitrary: fs s)
  case Nil
  then show ?case
    by (auto simp: union_failure_def Let_def conv_refl split: if_splits list.splits)
next
  case (Cons m ms)
  then show ?case by (auto split: option.splits prod.splits checked.splits dest: convertsD)
qed

lemma items_convert:
  assumes "converts E chk" "check_items chk nd p i acc s xs = Some (Checked ys, s')"
  shows "\<exists>zs. ys = acc @ zs \<and> list_all2 (conv E) xs zs"
  using assms(2)
proof (induction xs arbitrary: i acc s)
  case (Cons x xs)
  then obtain v s1 where v: "chk s x nd (p @ [VInt (int i)]) = Some (Checked v, s1)"
    "check_items chk nd p (Suc i) (acc @ [v]) s1 xs = Some (Checked ys, s')"
    by (auto split: option.splits prod.splits checked.splits)
  from Cons.IH [OF v(2)] obtain zs where "ys = acc @ v # zs" "list_all2 (conv E) xs zs" by auto
  then show ?case using convertsD [OF assms(1) v(1)] by (intro exI [of _ "v # zs"]) auto
qed simp

lemma key_converts:
  assumes "converts E chk" "check_map_key E chk s k nd p = Some (Checked k', s')"
  shows "conv E k k' \<or> (\<exists>t n. k = VStr t \<and> json_number_key E t = Some n \<and> conv E n k')"
  using assms(2) unfolding check_map_key_def
  by (auto split: option.splits prod.splits checked.splits val.splits dest!: convertsD [OF assms(1)])

lemma entry_converts:
  assumes "converts E chk" "check_map_entry E chk s k v ks nd p = Some (Checked (k', v'), s')"
  shows "(conv E k k' \<or> (\<exists>t n. k = VStr t \<and> json_number_key E t = Some n \<and> conv E n k')) \<and> conv E v v'"
  using assms(2) unfolding check_map_entry_def
  by (cases ks)
    (auto split: option.splits prod.splits checked.splits simp: conv_refl
      dest!: convertsD [OF assms(1)] key_converts [OF assms(1)])

lemma entries_convert:
  assumes "converts E chk" "check_entries E chk ks nd p acc s m = Some (Checked m', s')"
  shows "\<exists>zs. m' = acc @ zs \<and> list_all2 (\<lambda>e e'.
      (conv E (fst e) (fst e') \<or>
       (\<exists>t n. fst e = VStr t \<and> json_number_key E t = Some n \<and> conv E n (fst e'))) \<and>
      conv E (snd e) (snd e')) m zs"
  using assms(2)
proof (induction m arbitrary: acc s)
  case (Cons e m)
  obtain k v where e: "e = (k, v)" by (cases e)
  with Cons.prems obtain k' v' s1 where v: "check_map_entry E chk s k v ks nd (p @ [k]) = Some (Checked (k', v'), s1)"
    "check_entries E chk ks nd p (acc @ [(k', v')]) s1 m = Some (Checked m', s')"
    by (auto split: option.splits prod.splits checked.splits)
  from Cons.IH [OF v(2)] obtain zs where zs: "m' = acc @ (k', v') # zs" "list_all2 (\<lambda>e e'.
      (conv E (fst e) (fst e') \<or>
       (\<exists>t n. fst e = VStr t \<and> json_number_key E t = Some n \<and> conv E n (fst e'))) \<and>
      conv E (snd e) (snd e')) m zs" by auto
  show ?case using zs entry_converts [OF assms(1) v(1)] e by (intro exI [of _ "(k', v') # zs"]) auto
qed simp

lemma fields_convert:
  assumes "converts E chk" "check_fields E chk p s (VMap m) fs = Some (Checked v, s')"
  shows "conv E (VMap m) v"
  using assms(2)
proof (induction fs arbitrary: m s)
  case (Cons f fs)
  obtain k nd where f: "f = (k, nd)" by (cases f)
  with Cons.prems obtain w s1 where w: "chk s (field_of E (VMap m) k) nd (p @ [k]) = Some (Checked w, s1)"
    "check_fields E chk p s1
      (if val_eq E w (field_of E (VMap m) k) then VMap m else with_field E (VMap m) k w) fs = Some (Checked v, s')"
    by (auto split: option.splits prod.splits checked.splits)
  show ?case
  proof (cases "val_eq E w (field_of E (VMap m) k)")
    case True
    then show ?thesis using Cons.IH w(2) by simp
  next
    case False
    have c: "conv E (VMap m) (with_field E (VMap m) k w)" by (rule with_field_conv [OF convertsD [OF assms(1) w(1)] False])
    then obtain m' where "with_field E (VMap m) k w = VMap m'" using conv_is_map by blast
    then show ?thesis using Cons.IH [of s1 m'] w(2) False c conv_trans by auto
  qed
qed (simp add: conv_refl)

lemma struct_converts:
  assumes "converts E chk" "check_struct E chk s v t fs i p = Some (Checked v', s')"
  shows "conv E v v'"
  using assms(2) unfolding check_struct_def
  by (auto split: option.splits prod.splits checked.splits val.splits
      dest!: convertsD [OF assms(1)] fields_convert [OF assms(1)] intro: conv_trans)

lemma predicate_keeps: "check_predicate C s v nd p = (Checked v', s') \<Longrightarrow> v' = v"
  unfolding check_predicate_def by (auto split: option.splits bool.splits prod.splits)

lemma refinement_converts:
  assumes "converts E chk" "check_refinement C chk s v nd p = Some (Checked v', s')"
  shows "conv E v v'"
  using assms(2) unfolding check_refinement_def
  by (auto split: option.splits prod.splits checked.splits dest!: convertsD [OF assms(1)] predicate_keeps)

lemma tagged_base_converts: "check_tagged_base E v expected p = Checked v' \<Longrightarrow> conv E v v'"
  unfolding check_tagged_base_def check_base_def
  by (auto split: if_splits option.splits intro: conv_refl conv_base)

lemma on_checked_Checked: "on_checked f r = (Checked v', s') \<longleftrightarrow> (\<exists>v. r = (Checked v, s') \<and> v' = f v)"
  by (cases "(f, r)" rule: on_checked.cases) auto

lemma check_value_converts: "converts (ctx_env C) (check_value n C)"
proof (induction n)
  case 0
  then show ?case by (simp add: converts_def)
next
  case (Suc n)
  show ?case unfolding converts_def
  proof (intro allI impI)
    fix s v nd p v' s'
    assume c: "check_value (Suc n) C s v nd p = Some (Checked v', s')"
    show "conv (ctx_env C) v v'"
      using c convertsD [OF Suc] union_converts [OF Suc] struct_converts [OF Suc] refinement_converts [OF Suc]
        items_convert [OF Suc, of _ _ _ "[]"] entries_convert [OF Suc, of _ _ _ "[]"]
      unfolding check_value.simps(2)
      by (cases "view_of nd")
        (auto split: if_splits option.splits val.splits simp: on_checked_Checked check_literal_def check_base_def
          intro: conv_refl conv_base conv_vec conv_map dest!: tagged_base_converts)
  qed
qed

end
