(* ===== verification/Hot_Ends.thy ===== *)
theory Hot_Ends
  imports Hot_Conform
begin

text \<open>
  A check ends: with enough fuel \<open>check_value\<close> has a result, for every table of declared types, recursive
  ones included. The value gets smaller when a check goes into a part of it; between two such steps
  a check follows references to named types, and those that lead back to themselves are refused.
\<close>

definition ends :: "('d, 'b) ctx \<Rightarrow> ('d, 'b) val \<Rightarrow> ('d, 'b) val \<Rightarrow> bool" where
  "ends C v nd \<longleftrightarrow> (\<forall>s p. \<exists>n r. check_value n C s v nd p = Some r)"

lemma endsD: "ends C v nd \<Longrightarrow> \<exists>n r. check_value n C s v nd p = Some r"
  by (simp add: ends_def)

lemma extends_le: "n \<le> m \<Longrightarrow> extends (check_value n C) (check_value m C)"
  unfolding extends_def using check_value_mono by blast

text \<open>A loop ends when the checks it makes end.\<close>

lemma ends_union:
  assumes "\<And>m. m \<in> set ms \<Longrightarrow> ends C v m"
  shows "\<exists>n r. check_union (check_value n C) v p fs s ms = Some r"
  using assms
proof (induction ms arbitrary: fs s)
  case (Cons m ms)
  from Cons.prems endsD [of C v m s p] obtain n1 r1 s1 where 1: "check_value n1 C s v m p = Some (r1, s1)"
    by (auto simp: split_paired_Ex)
  show ?case
  proof (cases r1)
    case (Failed f)
    from Cons obtain n2 r2 where 2: "check_union (check_value n2 C) v p (fs @ [f]) s1 ms = Some r2" by force
    let ?n = "max n1 n2"
    have "check_value ?n C s v m p = Some (r1, s1)" using check_value_mono [OF _ 1] by simp
    moreover have "check_union (check_value ?n C) v p (fs @ [f]) s1 ms = Some r2"
      using extends_union [OF extends_le 2] by simp
    ultimately show ?thesis using Failed by (intro exI [of _ ?n] exI [of _ r2]) simp
  qed (use 1 in \<open>auto intro!: exI [of _ n1]\<close>)
qed auto

lemma ends_items:
  assumes "\<And>x. x \<in> set xs \<Longrightarrow> ends C x nd"
  shows "\<exists>n r. check_items (check_value n C) nd p i acc s xs = Some r"
  using assms
proof (induction xs arbitrary: i acc s)
  case (Cons x xs)
  from Cons.prems endsD [of C x nd s "p @ [VInt (int i)]"] obtain n1 r1 s1 where
    1: "check_value n1 C s x nd (p @ [VInt (int i)]) = Some (r1, s1)"
    by (auto simp: split_paired_Ex)
  show ?case
  proof (cases r1)
    case (Checked w)
    from Cons obtain n2 r2 where 2: "check_items (check_value n2 C) nd p (Suc i) (acc @ [w]) s1 xs = Some r2" by force
    let ?n = "max n1 n2"
    have "check_value ?n C s x nd (p @ [VInt (int i)]) = Some (r1, s1)" using check_value_mono [OF _ 1] by simp
    moreover have "check_items (check_value ?n C) nd p (Suc i) (acc @ [w]) s1 xs = Some r2"
      using extends_items [OF extends_le 2] by simp
    ultimately show ?thesis using Checked by (intro exI [of _ ?n] exI [of _ r2]) simp
  qed (use 1 in \<open>auto intro!: exI [of _ n1]\<close>)
qed auto

definition key_ends :: "('d, 'b) ctx \<Rightarrow> ('d, 'b) val \<Rightarrow> ('d, 'b) val \<Rightarrow> bool" where
  "key_ends C k nd \<longleftrightarrow>
     ends C k nd \<and> (\<forall>t n. k = VStr t \<longrightarrow> json_number_key (ctx_env C) t = Some n \<longrightarrow> ends C n nd)"

lemma ends_key:
  assumes "key_ends C k nd"
  shows "\<exists>n r. check_map_key (ctx_env C) (check_value n C) s k nd p = Some r"
proof -
  from assms endsD [of C k nd s p] obtain n1 r1 s1 where 1: "check_value n1 C s k nd p = Some (r1, s1)"
    by (auto simp: split_paired_Ex key_ends_def)
  let ?num = "case k of VStr t \<Rightarrow> json_number_key (ctx_env C) t | _ \<Rightarrow> None"
  show ?thesis
  proof (cases "\<exists>f u. r1 = Failed f \<and> ?num = Some u")
    case True
    then obtain f u where u: "r1 = Failed f" "?num = Some u" by blast
    then have "ends C u nd" using assms by (auto simp: key_ends_def split: val.splits)
    from endsD [OF this, of s1 p] obtain n2 r2 s2 where 2: "check_value n2 C s1 u nd p = Some (r2, s2)"
      by (auto simp: split_paired_Ex)
    let ?n = "max n1 n2"
    have "check_value ?n C s k nd p = Some (r1, s1)" "check_value ?n C s1 u nd p = Some (r2, s2)"
      using check_value_mono [OF _ 1] check_value_mono [OF _ 2] by simp_all
    then show ?thesis using u unfolding check_map_key_def by (intro exI [of _ ?n]) (cases r2, auto)
  next
    case False
    then show ?thesis using 1 unfolding check_map_key_def
      by (intro exI [of _ n1]) (cases r1, auto split: option.split)
  qed
qed

lemma ends_entry:
  assumes "ends C v nd" "\<And>kn. ks = Some kn \<Longrightarrow> key_ends C k kn"
  shows "\<exists>n r. check_map_entry (ctx_env C) (check_value n C) s k v ks nd p = Some r"
proof -
  let ?key = "\<lambda>n. case ks of Some spec \<Rightarrow> check_map_key (ctx_env C) (check_value n C) s k spec p | None \<Rightarrow> Some (Checked k, s)"
  have "\<exists>n r. ?key n = Some r" using assms(2) ends_key by (cases ks) auto
  then obtain n1 r1 s1 where 1: "?key n1 = Some (r1, s1)" by (auto simp: split_paired_Ex)
  have key: "?key m = Some (r1, s1)" if "n1 \<le> m" for m
    using 1 extends_key [OF extends_le [OF that]] by (cases ks) auto
  show ?thesis
  proof (cases r1)
    case (Checked k')
    from endsD [OF assms(1), of s1 p] obtain n2 r2 s2 where 2: "check_value n2 C s1 v nd p = Some (r2, s2)"
      by (auto simp: split_paired_Ex)
    let ?n = "max n1 n2"
    have "check_value ?n C s1 v nd p = Some (r2, s2)" using check_value_mono [OF _ 2] by simp
    then show ?thesis using Checked key [of ?n] unfolding check_map_entry_def
      by (intro exI [of _ ?n]) (cases r2, auto)
  qed (use 1 in \<open>auto simp: check_map_entry_def intro!: exI [of _ n1]\<close>)
qed

lemma ends_entries:
  assumes "\<And>k v. (k, v) \<in> set m \<Longrightarrow> ends C v nd \<and> (\<forall>kn. ks = Some kn \<longrightarrow> key_ends C k kn)"
  shows "\<exists>n r. check_entries (ctx_env C) (check_value n C) ks nd p acc s m = Some r"
  using assms
proof (induction m arbitrary: acc s)
  case (Cons e m)
  obtain k v where e: "e = (k, v)" by (cases e)
  have "ends C v nd" "\<And>kn. ks = Some kn \<Longrightarrow> key_ends C k kn" using Cons.prems [of k v] e by auto
  then have "\<exists>n r. check_map_entry (ctx_env C) (check_value n C) s k v ks nd (p @ [k]) = Some r"
    by (rule ends_entry)
  then obtain n1 r1 s1 where
    1: "check_map_entry (ctx_env C) (check_value n1 C) s k v ks nd (p @ [k]) = Some (r1, s1)"
    by (auto simp: split_paired_Ex)
  show ?case
  proof (cases r1)
    case (Checked kv)
    obtain k' v' where kv: "kv = (k', v')" by (cases kv)
    have "ends C b nd \<and> (\<forall>kn. ks = Some kn \<longrightarrow> key_ends C a kn)" if "(a, b) \<in> set m" for a b
      using Cons.prems [of a b] that by simp
    from Cons.IH [OF this, of "acc @ [(k', v')]" s1] obtain n2 r2 where
      2: "check_entries (ctx_env C) (check_value n2 C) ks nd p (acc @ [(k', v')]) s1 m = Some r2" by blast
    let ?n = "max n1 n2"
    have "check_map_entry (ctx_env C) (check_value ?n C) s k v ks nd (p @ [k]) = Some (Checked (k', v'), s1)"
      using extends_entry [OF extends_le 1] Checked kv by simp
    moreover have "check_entries (ctx_env C) (check_value ?n C) ks nd p (acc @ [(k', v')]) s1 m = Some r2"
      using extends_entries [OF extends_le 2] by simp
    ultimately show ?thesis using e
      by (intro exI [of _ ?n]) (auto split: option.split)
  qed (use 1 e in \<open>auto intro!: exI [of _ n1]\<close>)
qed auto

lemma map_get_size: "map_get E m k = Some v \<Longrightarrow> vsize v < msize m"
proof -
  assume "map_get E m k = Some v"
  then obtain e where "find (\<lambda>e. key_eq E k (fst e)) m = Some e" "snd e = v" by (auto simp: map_get_def)
  then have "(fst e, v) \<in> set m" by (auto simp: find_Some_iff)
  then show ?thesis using msize_mem [of "fst e" v m] by simp
qed

lemma field_of_size: "vsize (field_of E (VMap m) k) < vsize (VMap m)"
proof -
  obtain flds where f: "as_fields (VMap m) = VMap flds" by (simp add: as_fields_map)
  have "msize flds \<le> msize m"
  proof (cases "typed_fields (VMap m)")
    case None
    then show ?thesis using f by (simp add: as_fields_def)
  next
    case (Some ff)
    then have "str_get m ''$val'' = Some (VMap flds)" using f by (auto simp: as_fields_def elim!: typed_fieldsD)
    then show ?thesis using str_get_size by fastforce
  qed
  then show ?thesis using f map_get_size [of E flds k] by (auto simp: field_of_def split: option.split)
qed

lemma ends_fields:
  assumes "\<And>u nd. vsize u < vsize (VMap m) \<Longrightarrow> ends C u nd"
  shows "\<exists>n r. check_fields (ctx_env C) (check_value n C) p s (VMap m) fs = Some r"
  using assms
proof (induction fs arbitrary: m s)
  case (Cons f fs)
  let ?E = "ctx_env C"
  obtain k nd where f: "f = (k, nd)" by (cases f)
  let ?v = "field_of ?E (VMap m) k"
  have "ends C ?v nd" by (rule Cons.prems) (rule field_of_size)
  from endsD [OF this, of s "p @ [k]"] obtain n1 r1 s1 where
    1: "check_value n1 C s ?v nd (p @ [k]) = Some (r1, s1)" by (auto simp: split_paired_Ex)
  show ?case
  proof (cases r1)
    case (Checked w)
    have c: "conv ?E ?v w" using convertsD [OF check_value_converts] 1 Checked by blast
    let ?cur = "if val_eq ?E w ?v then VMap m else with_field ?E (VMap m) k w"
    have "conv ?E (VMap m) ?cur" using with_field_conv [OF c] by (auto intro: conv_refl)
    moreover from this obtain m' where m': "?cur = VMap m'" using conv_is_map by blast
    ultimately have "vsize (VMap m') = vsize (VMap m)" using conv_size by metis
    then have "\<And>u nd. vsize u < vsize (VMap m') \<Longrightarrow> ends C u nd" using Cons.prems by simp
    from Cons.IH [OF this, where s = s1] obtain n2 r2 where
      2: "check_fields ?E (check_value n2 C) p s1 (VMap m') fs = Some r2" by blast
    let ?n = "max n1 n2"
    have "check_value ?n C s ?v nd (p @ [k]) = Some (Checked w, s1)"
      using check_value_mono [OF _ 1] Checked by simp
    moreover have "check_fields ?E (check_value ?n C) p s1 ?cur fs = Some r2"
      using extends_fields [OF extends_le 2] unfolding m' by simp
    ultimately show ?thesis unfolding f by (intro exI [of _ ?n] exI [of _ r2]) simp
  qed (use 1 f in \<open>auto intro!: exI [of _ n1]\<close>)
qed auto

section \<open>Following references\<close>

lemma view_VNull [simp]: "view_of VNull = NAny" "direct_names VNull = {}"
  by (simp_all add: view_of_def node_kind_def get_str_def spec_entry_def direct_names.simps [of VNull])

lemma ends_any: "view_of nd = NAny \<Longrightarrow> ends C v nd"
  unfolding ends_def by (intro allI exI [of _ "Suc 0"]) (simp add: check_value.simps)

text \<open>The nodes against which a check of a node checks the same value are smaller and refer to fewer
  types.\<close>

lemma entry_child:
  assumes "(node_kind nd, key) \<in> {(''optional'', ''inner''), (''refine'', ''base'')}"
  shows "view_of (entry_or_null nd key) = NAny \<or>
    vsize (entry_or_null nd key) < vsize nd \<and> direct_names (entry_or_null nd key) = direct_names nd"
proof (cases "node_child nd key")
  case None
  then have "entry_or_null nd key = VNull"
    by (auto simp: node_child_def entry_or_null_def split: option.splits val.splits)
  then show ?thesis by simp
next
  case (Some c)
  then have "entry_or_null nd key = c" by (auto simp: node_child_def entry_or_null_def split: option.splits val.splits)
  moreover have "direct_names nd = direct_names c" using assms Some direct_simps(3) [of nd key] by auto
  ultimately show ?thesis using node_child_size [OF Some] by simp
qed

lemma invariant_child:
  assumes "node_kind nd = ''struct'' \<or> node_kind nd = ''enum''" "node_child nd ''invariant'' = Some c"
  shows "vsize c < vsize nd \<and> direct_names c = direct_names nd"
  using assms node_child_size direct_simps(3) [of nd "''invariant''"] by auto

lemma union_child:
  assumes "node_kind nd = ''union''" "m \<in> set (entry_vec nd ''members'')"
  shows "vsize m < vsize nd \<and> direct_names m \<subseteq> direct_names nd"
  using assms spec_member_size [of nd "''members''"] direct_simps(2) [of nd]
  by (auto simp: entry_vec_def split: option.splits val.splits)

lemma view_kind:
  "view_of nd = NOptional c \<Longrightarrow> node_kind nd = ''optional'' \<and> c = entry_or_null nd ''inner''"
  "view_of nd = NUnion ms \<Longrightarrow> node_kind nd = ''union'' \<and> ms = entry_vec nd ''members''"
  "view_of nd = NStruct t fs i \<Longrightarrow> node_kind nd = ''struct'' \<and> i = node_child nd ''invariant''"
  "view_of nd = NEnum i \<Longrightarrow> node_kind nd = ''enum'' \<and> i = node_child nd ''invariant''"
  "view_of nd = NNamed name \<Longrightarrow> node_kind nd = ''named'' \<and> name = node_name nd"
  "view_of nd = NRefine b q f k src loc \<Longrightarrow> node_kind nd = ''refine'' \<and> b = entry_or_null nd ''base''"
  by (simp_all add: view_of_def split: if_splits)

text \<open>With one unit of fuel more than its parts a node ends.\<close>

lemma ends_Suc:
  assumes "\<And>s p. \<exists>n r. check_value (Suc n) C s v nd p = Some r"
  shows "ends C v nd"
  using assms unfolding ends_def by blast

lemma ends_struct:
  assumes "\<And>u nd. vsize u < vsize v \<Longrightarrow> ends C u nd" "\<And>u c. vsize u = vsize v \<Longrightarrow> i = Some c \<Longrightarrow> ends C u c"
  shows "\<exists>n r. check_struct (ctx_env C) (check_value n C) s v t fs i p = Some r"
proof (cases v)
  case (VMap m)
  from ends_fields [of m C p s fs] assms(1) VMap obtain n1 r1 s1 where
    1: "check_fields (ctx_env C) (check_value n1 C) p s (VMap m) fs = Some (r1, s1)"
    by (auto simp: split_paired_Ex)
  show ?thesis
  proof (cases "\<exists>w c. r1 = Checked w \<and> i = Some c")
    case True
    then obtain w c where w: "r1 = Checked w" "i = Some c" by blast
    then have "conv (ctx_env C) (VMap m) w" using fields_convert [OF check_value_converts] 1 by blast
    then have "ends C w c" using assms(2) w(2) conv_size VMap by blast
    from endsD [OF this, of s1 p] obtain n2 r2 where 2: "check_value n2 C s1 w c p = Some r2" by blast
    let ?n = "max n1 n2"
    have "check_value ?n C s1 w c p = Some r2" using check_value_mono [OF _ 2] by simp
    moreover have "check_fields (ctx_env C) (check_value ?n C) p s (VMap m) fs = Some (r1, s1)"
      using extends_fields [OF extends_le 1] by simp
    ultimately show ?thesis using w VMap unfolding check_struct_def by (intro exI [of _ ?n] exI [of _ r2]) simp
  next
    case False
    then show ?thesis using 1 VMap unfolding check_struct_def
      by (intro exI [of _ n1]) (cases r1, auto split: option.split)
  qed
qed (auto simp: check_struct_def)

lemma node_ends:
  assumes small: "\<And>u nd. vsize u < k \<Longrightarrow> ends C u nd"
    and names: "\<And>a spec u. a \<in> direct_names nd \<Longrightarrow> im_get (ctx_cycles C) a = None \<Longrightarrow>
      im_get (ctx_specs C) a = Some spec \<Longrightarrow> vsize u = k \<Longrightarrow> ends C u spec"
    and "vsize v = k"
  shows "ends C v nd"
  using names assms(3)
proof (induction "vsize nd" arbitrary: nd v rule: less_induct)
  case less
  note names = less.prems(1) and size = less.prems(2)
  have child: "ends C u c" if "view_of c = NAny \<or> vsize c < vsize nd \<and> direct_names c \<subseteq> direct_names nd"
    "vsize u = k" for u c
    using that less.hyps [of c u] names ends_any by blast
  show ?case
  proof (rule ends_Suc)
    fix s p
    show "\<exists>n r. check_value (Suc n) C s v nd p = Some r"
    proof (cases "view_of nd")
      case (NOptional c)
      then have "ends C v c" using child [of c v] view_kind(1) entry_child [of nd "''inner''"] size by auto
      from endsD [OF this] show ?thesis using NOptional by (auto simp: check_value.simps(2))
    next
      case (NUnion ms)
      then have "ends C v m" if "m \<in> set ms" for m using child [of m v] view_kind(2) union_child that size by blast
      from ends_union [OF this] show ?thesis using NUnion by (simp add: check_value.simps(2))
    next
      case (NVec elem t)
      have "\<exists>n r. check_items (check_value n C) elem p 0 [] s xs = Some r" if "v = VVec xs" for xs
        using vsizes_mem [of _ xs] that size by (intro ends_items small) fastforce
      then obtain n where "\<And>xs. v = VVec xs \<Longrightarrow> \<exists>r. check_items (check_value n C) elem p 0 [] s xs = Some r"
        by (cases "\<exists>xs. v = VVec xs") blast+
      then show ?thesis using NVec unfolding check_value.simps(2)
        by (intro exI [of _ n]) (auto split: val.split)
    next
      case (NMap elem ks t)
      have "\<exists>n r. check_entries (ctx_env C) (check_value n C) ks elem p [] s m = Some r" if "v = VMap m" for m
      proof (rule ends_entries)
        fix k' u
        assume "(k', u) \<in> set m"
        then have "vsize k' < k" "vsize u < k" using msize_mem that size by fastforce+
        moreover have "1 < k" using that size by simp
        ultimately show "ends C u elem \<and> (\<forall>kn. ks = Some kn \<longrightarrow> key_ends C k' kn)"
          using small json_key_size by (fastforce simp: key_ends_def)
      qed
      then obtain n where "\<And>m. v = VMap m \<Longrightarrow>
          \<exists>r. check_entries (ctx_env C) (check_value n C) ks elem p [] s m = Some r"
        by (cases "\<exists>m. v = VMap m") blast+
      then show ?thesis using NMap unfolding check_value.simps(2)
        by (intro exI [of _ n]) (auto split: val.split)
    next
      case (NStruct t fs i)
      have "ends C u c" if "vsize u = vsize v" "i = Some c" for u c
        using child [of c u] invariant_child [of nd c] view_kind(3) [OF NStruct] that size by auto
      from ends_struct [OF _ this] small size NStruct show ?thesis by (simp add: check_value.simps(2))
    next
      case (NEnum i)
      show ?thesis
      proof (cases i)
        case (Some c)
        then have "ends C v c" using child [of c v] invariant_child [of nd c] view_kind(4) [OF NEnum] size by auto
        from endsD [OF this] show ?thesis using NEnum Some by (simp add: check_value.simps(2))
      qed (use NEnum in \<open>simp add: check_value.simps(2)\<close>)
    next
      case (NNamed name)
      then have "name \<in> direct_names nd" using view_kind(5) direct_simps(1) by fastforce
      then have "ends C v spec" if "im_get (ctx_cycles C) name = None" "im_get (ctx_specs C) name = Some spec" for spec
        using names that size by blast
      from endsD [OF this] show ?thesis using NNamed
        by (cases "im_get (ctx_cycles C) name"; cases "im_get (ctx_specs C) name") (auto simp: check_value.simps(2))
    next
      case (NRefine b q f c src loc)
      then have "ends C v b" using child [of b v] view_kind(6) [OF NRefine] entry_child [of nd "''base''"] size by auto
      from endsD [OF this, of s p] obtain n r s' where "check_value n C s v b p = Some (r, s')" by (auto simp: split_paired_Ex)
      then show ?thesis using NRefine unfolding check_value.simps(2)
        by (intro exI [of _ n]) (cases r, auto simp: check_refinement_def)
    qed (simp_all add: check_value.simps(2))
  qed
qed

section \<open>Every check ends\<close>

definition follows :: "('d, 'b) specs \<Rightarrow> (string \<times> string) set" where
  "follows specs = {(b, a). (a, b) \<in> refers specs \<and> im_get (spec_cycles specs) a = None \<and>
     a \<in> fst ` set specs \<and> b \<in> fst ` set specs}"

lemma cycles_None:
  assumes "im_wf specs" "im_get (spec_cycles specs) name = None" "name \<in> fst ` set specs"
  shows "(name, name) \<notin> (refers specs)\<^sup>+"
proof -
  obtain spec where s: "im_get specs name = Some spec" using assms(3) by (cases "im_get specs name") (auto simp: map_of_eq_None_iff)
  obtain b p t where "reaches_type specs spec name [name] [] = (b, p, t)" by (metis prod_cases3)
  then show ?thesis using reaches_iff [OF s] spec_cycles_get [OF assms(1), of name] s assms(2) by (cases b) auto
qed

lemma wf_follows:
  assumes "im_wf specs"
  shows "wf (follows specs)"
proof (rule finite_acyclic_wf)
  show "finite (follows specs)"
    by (rule finite_subset [of _ "fst ` set specs \<times> fst ` set specs"]) (auto simp: follows_def)
  have sub: "follows specs \<subseteq> (refers specs)\<inverse>" by (auto simp: follows_def)
  show "acyclic (follows specs)"
  proof (rule acyclicI, intro allI notI)
    fix a
    assume c: "(a, a) \<in> (follows specs)\<^sup>+"
    then have "(a, a) \<in> ((refers specs)\<inverse>)\<^sup>+" using trancl_mono [OF _ sub] by blast
    then have "(a, a) \<in> (refers specs)\<^sup>+" by (simp add: trancl_converse)
    moreover from c obtain b where "(b, a) \<in> follows specs" by (meson tranclD2)
    ultimately show False using cycles_None [OF assms] by (auto simp: follows_def)
  qed
qed

lemma all_end:
  fixes C :: "('d, 'b) ctx"
  assumes "im_wf (ctx_specs C)" "ctx_cycles C = spec_cycles (ctx_specs C)"
  shows "ends C v nd"
proof (induction "vsize v" arbitrary: v nd rule: less_induct)
  case less
  have named: "\<forall>(u :: ('d, 'b) val) spec. im_get (ctx_cycles C) a = None \<longrightarrow> im_get (ctx_specs C) a = Some spec \<longrightarrow>
      vsize u = vsize v \<longrightarrow> ends C u spec" for a
    using wf_follows [OF assms(1)]
  proof (induction a rule: wf_induct_rule)
    case (less a)
    show ?case
    proof (intro allI impI)
      fix u spec :: "('d, 'b) val"
      assume a: "im_get (ctx_cycles C) a = None" "im_get (ctx_specs C) a = Some spec" "vsize u = vsize v"
      show "ends C u spec"
      proof (rule node_ends [of "vsize v"])
        fix b and spec' w :: "('d, 'b) val"
        assume b: "b \<in> direct_names spec" "im_get (ctx_cycles C) b = None" "im_get (ctx_specs C) b = Some spec'"
          "vsize w = vsize v"
        then have "(b, a) \<in> follows (ctx_specs C)"
          using a assms(2) by (force simp: follows_def refers_def dest: im_get_SomeD)
        then show "ends C w spec'" using less.IH b by blast
      qed (use a \<open>\<And>v' nd. vsize v' < vsize v \<Longrightarrow> ends C v' nd\<close> in auto)
    qed
  qed
  show ?case by (rule node_ends [of "vsize v"]) (use named less in auto)
qed

text \<open>C5. Checking a value ends, whatever the value, the spec and the table of declared types: with
  enough fuel the check has one result, which more fuel does not change. Types defined in terms of
  themselves are refused and recursive types shrink the value, so no check runs forever.\<close>
theorem check_value_ends:
  assumes "ctx_specs C = spec_table table" "ctx_cycles C = spec_cycles (spec_table table)"
  shows "\<exists>n r. \<forall>m \<ge> n. check_value m C s v nd p = Some r"
proof -
  have "ends C v nd" using all_end [of C v nd] assms spec_table_wf [of table] by simp
  from endsD [OF this] obtain n r where "check_value n C s v nd p = Some r" by blast
  then show ?thesis using check_value_mono by blast
qed

definition idle_vm :: vm where
  "idle_vm = \<lparr>vm_constraint = None, vm_depth = 0, vm_failed = False, vm_failure_msg = None, vm_cancelled = False,
     vm_proven = None\<rparr>"

text \<open>A context whose program calls of a predicate return what a function says.\<close>

definition pure_ctx :: "(string \<times> (int, unit) val) list \<Rightarrow> (string \<Rightarrow> (int, unit) val \<Rightarrow> (int, unit) val) \<Rightarrow>
    (int, unit) ctx" where
  "pure_ctx table f =
     \<lparr>ctx_env = tenths_env, ctx_specs = spec_table table, ctx_cycles = spec_cycles (spec_table table),
      ctx_call = (\<lambda>s p v. (Inr (f p v), s))\<rparr>"

theorem check_value_ends_witness:
  "\<exists>m r. check_value m
     (pure_ctx [(''::t/Node'', node ''struct'' [(''fields'', VMap [(VStr ''next'',
        node ''optional'' [(''inner'', node ''named'' [(''type'', VStr ''::t/Node'')])])])])] (\<lambda>_ _. VBool True))
     idle_vm (VMap [(VStr ''next'', VMap [(VStr ''next'', VNull)])])
     (node ''named'' [(''type'', VStr ''::t/Node'')]) [] = Some r"
  by (rule exE [OF check_value_ends]) (auto simp: pure_ctx_def)

end
