(* ===== verification/Hot_Sound.thy ===== *)
theory Hot_Sound
  imports Hot_Ends
begin

text \<open>
  The value a check of \<^verbatim>\<open>crates/hot/src/lang/runtime/vm/constraints.rs\<close> returns conforms to the type it
  was checked against, and the fast path of a record's constructor gives what the check would give.
\<close>

section \<open>Conforming to a type\<close>

definition holds :: "('d, 'b) ctx \<Rightarrow> ('d, 'b) node_view \<Rightarrow> ('d, 'b) val \<Rightarrow> bool" where
  "holds C nd v \<longleftrightarrow>
     (\<exists>fast. refine_fast nd = Some fast \<and> fast_check (ctx_env C) v fast = Some True) \<or>
     (\<exists>s. fst (run_predicate C s (refine_pred nd) v) = Pass)"

inductive conforms :: "('d, 'b) ctx \<Rightarrow> ('d, 'b) val \<Rightarrow> ('d, 'b) val \<Rightarrow> bool" for C where
  conforms_any: "view_of nd = NAny \<Longrightarrow> conforms C nd v"
| conforms_base: "view_of nd = NBase expected tagged \<Longrightarrow> base_matches expected v \<Longrightarrow>
    (tagged \<longrightarrow> \<not> is_err v) \<Longrightarrow> conforms C nd v"
| conforms_tagged: "view_of nd = NBase expected True \<Longrightarrow>
    is_tagged_over v (\<lambda>inner. base_value (ctx_env C) expected inner \<noteq> None) \<Longrightarrow> conforms C nd v"
| conforms_literal: "view_of nd = NLiteral t vs \<Longrightarrow> x \<in> set vs \<Longrightarrow> val_eq (ctx_env C) x v \<Longrightarrow> conforms C nd v"
| conforms_null: "view_of nd = NOptional c \<Longrightarrow> conforms C nd VNull"
| conforms_optional: "view_of nd = NOptional c \<Longrightarrow> conforms C c v \<Longrightarrow> conforms C nd v"
| conforms_no_member: "view_of nd = NUnion [] \<Longrightarrow> conforms C nd v"
| conforms_union: "view_of nd = NUnion ms \<Longrightarrow> m \<in> set ms \<Longrightarrow> conforms C m v \<Longrightarrow> conforms C nd v"
| conforms_vec: "view_of nd = NVec elem tagged \<Longrightarrow> (\<And>x. x \<in> set xs \<Longrightarrow> conforms C elem x) \<Longrightarrow>
    conforms C nd (VVec xs)"
| conforms_tagged_vec: "view_of nd = NVec elem True \<Longrightarrow>
    is_tagged_over v (\<lambda>inner. case inner of VVec _ \<Rightarrow> True | _ \<Rightarrow> False) \<Longrightarrow> conforms C nd v"
| conforms_map: "view_of nd = NMap elem key tagged \<Longrightarrow>
    (\<And>k x. (k, x) \<in> set m \<Longrightarrow> conforms C elem x \<and> (\<forall>kn. key = Some kn \<longrightarrow> conforms C kn k)) \<Longrightarrow>
    conforms C nd (VMap m)"
| conforms_tagged_map: "view_of nd = NMap elem key True \<Longrightarrow>
    is_tagged_over v (\<lambda>inner. case inner of VMap _ \<Rightarrow> True | _ \<Rightarrow> False) \<Longrightarrow> conforms C nd v"
| conforms_struct: "view_of nd = NStruct t fs whole \<Longrightarrow>
    (\<And>f fn. (f, fn) \<in> set fs \<Longrightarrow> \<exists>u. (u = field_of (ctx_env C) (VMap m) f \<or>
       val_eq (ctx_env C) u (field_of (ctx_env C) (VMap m) f)) \<and> conforms C fn u) \<Longrightarrow>
    (\<And>i. whole = Some i \<Longrightarrow> conforms C i (VMap m)) \<Longrightarrow> conforms C nd (VMap m)"
| conforms_enum: "view_of nd = NEnum whole \<Longrightarrow> (\<And>i. whole = Some i \<Longrightarrow> conforms C i v) \<Longrightarrow> conforms C nd v"
| conforms_unchecked: "view_of nd = NNamed name \<Longrightarrow> im_get (ctx_specs C) name = None \<Longrightarrow> conforms C nd v"
| conforms_named: "view_of nd = NNamed name \<Longrightarrow> im_get (ctx_specs C) name = Some spec \<Longrightarrow>
    conforms C spec v \<Longrightarrow> conforms C nd v"
| conforms_refine: "view_of nd = NRefine b q f c src loc \<Longrightarrow> conforms C b v \<Longrightarrow> holds C (view_of nd) v \<Longrightarrow>
    conforms C nd v"

section \<open>Specs the compiler builds\<close>

text \<open>
  Of the specs only what \<open>build_named_spec\<close> writes for records matters: string names for the fields,
  all different, and an invariant that refines any value.
\<close>

function parts :: "('d, 'b) val \<Rightarrow> ('d, 'b) val list" where
  "parts v =
     v # (case v of
            VVec xs \<Rightarrow> concat (map parts xs)
          | VMap m \<Rightarrow> concat (map (\<lambda>e. parts (fst e) @ parts (snd e)) m)
          | _ \<Rightarrow> [])"
  by pat_completeness auto
termination
proof (relation "measure vsize", goal_cases)
  case (2 v xs x)
  then show ?case using vsizes_mem [of x xs] by simp
next
  case (3 v m e)
  then show ?case using msize_mem [of "fst e" "snd e" m] by simp
next
  case (4 v m e)
  then show ?case using msize_mem [of "fst e" "snd e" m] by simp
qed simp

declare parts.simps [simp del]

definition plain_invariant :: "('d, 'b) val \<Rightarrow> bool" where
  "plain_invariant nd = (case view_of nd of NRefine b _ _ _ _ _ \<Rightarrow> view_of b = NAny | _ \<Rightarrow> False)"

definition node_ok :: "('d, 'b) val \<Rightarrow> bool" where
  "node_ok nd =
     (case view_of nd of
        NStruct _ fs whole \<Rightarrow> str_keyed fs \<and> (case whole of Some i \<Rightarrow> plain_invariant i | None \<Rightarrow> True)
      | _ \<Rightarrow> True)"

definition spec_ok :: "('d, 'b) val \<Rightarrow> bool" where
  "spec_ok nd = list_all node_ok (parts nd)"

lemma parts_self: "v \<in> set (parts v)"
  by (subst parts.simps) simp

lemma parts_simps:
  "parts (VVec xs) = VVec xs # concat (map parts xs)"
  "parts (VMap m) = VMap m # concat (map (\<lambda>e. parts (fst e) @ parts (snd e)) m)"
  by (subst parts.simps; simp)+

lemma spec_ok_vec: "spec_ok (VVec xs) \<Longrightarrow> x \<in> set xs \<Longrightarrow> spec_ok x"
  by (auto simp: spec_ok_def parts_simps list_all_iff)

lemma spec_ok_map: "spec_ok (VMap m) \<Longrightarrow> (k, x) \<in> set m \<Longrightarrow> spec_ok x"
  by (force simp: spec_ok_def parts_simps list_all_iff)

lemma spec_ok_entry: "spec_ok nd \<Longrightarrow> spec_entry nd key = Some c \<Longrightarrow> spec_ok c"
  by (cases nd) (auto simp: spec_entry_def dest!: str_get_mem intro: spec_ok_map)

lemma spec_ok_null: "spec_ok VNull"
  by (simp add: spec_ok_def parts.simps [of VNull] node_ok_def)

lemma spec_ok_views:
  assumes "spec_ok nd"
  shows "view_of nd = NOptional c \<Longrightarrow> spec_ok c"
    "view_of nd = NUnion ms \<Longrightarrow> x \<in> set ms \<Longrightarrow> spec_ok x"
    "view_of nd = NVec c t \<Longrightarrow> spec_ok c"
    "view_of nd = NMap c (Some kn) t \<Longrightarrow> spec_ok kn" "view_of nd = NMap c key t \<Longrightarrow> spec_ok c"
    "view_of nd = NStruct tn fs whole \<Longrightarrow> (f, fn) \<in> set fs \<Longrightarrow> spec_ok fn"
    "view_of nd = NStruct tn fs (Some i) \<Longrightarrow> spec_ok i" "view_of nd = NEnum (Some i) \<Longrightarrow> spec_ok i"
    "view_of nd = NRefine b q fa k src loc \<Longrightarrow> spec_ok b"
proof -
  have e: "spec_ok (entry_or_null nd key)" for key
    using spec_ok_entry [OF assms] spec_ok_null by (auto simp: entry_or_null_def split: option.split)
  have ch: "node_child nd key = Some c \<Longrightarrow> spec_ok c" for key c
    using spec_ok_entry [OF assms] by (auto simp: node_child_def split: option.splits val.splits)
  show "view_of nd = NOptional c \<Longrightarrow> spec_ok c" "view_of nd = NVec c t \<Longrightarrow> spec_ok c"
    "view_of nd = NMap c key t \<Longrightarrow> spec_ok c" "view_of nd = NRefine b q fa k src loc \<Longrightarrow> spec_ok b"
    using e by (auto simp: view_of_def split: if_splits)
  show "view_of nd = NUnion ms \<Longrightarrow> x \<in> set ms \<Longrightarrow> spec_ok x"
    using spec_ok_vec spec_ok_entry [OF assms]
    by (auto simp: view_of_def entry_vec_def split: if_splits option.splits val.splits)
  show "view_of nd = NMap c (Some kn) t \<Longrightarrow> spec_ok kn"
    using spec_ok_entry [OF assms] by (auto simp: view_of_def split: if_splits)
  show "view_of nd = NStruct tn fs whole \<Longrightarrow> (f, fn) \<in> set fs \<Longrightarrow> spec_ok fn"
    by (auto simp: view_of_def split: if_splits option.splits val.splits
        intro: spec_ok_map [OF spec_ok_entry [OF assms]])
  show "view_of nd = NStruct tn fs (Some i) \<Longrightarrow> spec_ok i" "view_of nd = NEnum (Some i) \<Longrightarrow> spec_ok i"
    using ch by (auto simp: view_of_def split: if_splits)
qed

section \<open>Fields of a record\<close>

text \<open>Converting an entry in place changes neither the tag of a map nor what its fields are.\<close>

lemma wrapper_by_keys:
  assumes "map fst m' = map fst m" "tagged_type_name m' = tagged_type_name m"
  shows "is_tagged_wrapper m' = is_tagged_wrapper m"
proof -
  have "length m' = length m" using assms(1) by (rule map_eq_imp_length_eq)
  moreover have "list_all (\<lambda>e. wrapper_key (fst e)) m' = list_all (\<lambda>e. wrapper_key (fst e)) m"
  proof -
    have "list_all wrapper_key (map fst m') = list_all wrapper_key (map fst m)" using assms(1) by simp
    then show ?thesis by (simp add: list.pred_map comp_def)
  qed
  moreover have "str_get m' ''$val'' \<noteq> None \<longleftrightarrow> str_get m ''$val'' \<noteq> None"
    using assms(1) unfolding str_get_def by (metis map_of_eq_None_iff list.set_map)
  ultimately show ?thesis using assms(2) unfolding is_tagged_wrapper_def by (simp cong: option.case_cong)
qed

lemma tagged_type_name_iff: "tagged_type_name m = Some t \<longleftrightarrow> str_get m ''$type'' = Some (VStr t)"
  by (auto simp: tagged_type_name_def split: option.splits val.splits)

lemma typed_fields_if:
  "typed_fields (VMap m) =
     (if is_tagged_wrapper m \<and> \<not> is_err (VMap m) \<and> (\<exists>f. str_get m ''$val'' = Some (VMap f))
      then str_get m ''$val'' else None)"
  by (auto simp: typed_fields_def split: option.splits val.splits)

lemma converted_entry:
  assumes "str_get m a = Some u" "conv E u w"
  defines "m' \<equiv> im_insert (VStr a) w m"
  shows "tagged_type_name m' = tagged_type_name m" (is ?tag)
    and "is_tagged_wrapper m' = is_tagged_wrapper m" (is ?wrapper)
    and "typed_fields (VMap m') =
      (if a = ''$val'' then map_option (\<lambda>_. w) (typed_fields (VMap m)) else typed_fields (VMap m))" (is ?fields)
proof -
  have "tagged_type_name m' = Some t \<longleftrightarrow> tagged_type_name m = Some t" for t
    using assms(1) conv_str [OF assms(2)] by (auto simp: tagged_type_name_iff m'_def)
  then show tag: ?tag by (metis not_Some_eq)
  have "VStr a \<in> fst ` set m" using str_get_mem [OF assms(1)] by force
  then have "map fst m' = map fst m" by (simp add: m'_def map_fst_im_insert)
  then show w: ?wrapper by (rule wrapper_by_keys [OF _ tag])
  have "is_err (VMap m') = is_err (VMap m)" using tag by (simp add: is_err_def has_type_def)
  then show ?fields using w conv_is_map [OF assms(2)] assms(1) by (auto simp: typed_fields_if m'_def)
qed

lemma field_with_field:
  assumes "conv E (field_of E (VMap m) (VStr a)) w" "\<not> val_eq E w (field_of E (VMap m) (VStr a))"
  shows "field_of E (with_field E (VMap m) (VStr a) w) (VStr b) =
    (if b = a then w else field_of E (VMap m) (VStr b))"
proof -
  obtain flds where f: "as_fields (VMap m) = VMap flds" by (simp add: as_fields_map)
  have "str_get flds a \<noteq> None"
    using conv_null [OF assms(1)] assms(2) f by (cases "str_get flds a") (auto simp: field_of_def map_get_str)
  then obtain u where u: "str_get flds a = Some u" by blast
  then have c: "conv E u w" using assms(1) f by (simp add: field_of_def map_get_str)
  have "as_fields (with_field E (VMap m) (VStr a) w) = VMap (im_insert (VStr a) w flds)"
  proof (cases "typed_fields (VMap m)")
    case None
    then have "flds = m" using f by (simp add: as_fields_def)
    then show ?thesis using None f converted_entry(3) [OF u c]
      by (simp add: with_field_def with_type_of_def map_insert_str as_fields_def)
  next
    case (Some ff)
    then have v: "str_get m ''$val'' = Some (VMap flds)" using f by (auto simp: as_fields_def elim!: typed_fieldsD)
    have "conv E (VMap flds) (VMap (im_insert (VStr a) w flds))"
      using conv_insert [of E "VStr a" flds] u c map_get_str [of E flds a] by (auto simp: map_get_def map_insert_str)
    from converted_entry(3) [OF v this] show ?thesis using Some f
      by (simp add: with_field_def with_type_of_def map_insert_str as_fields_def)
  qed
  then show ?thesis using f by (simp add: field_of_def map_get_str)
qed

section \<open>Soundness of the check\<close>

definition sound :: "('d, 'b) ctx \<Rightarrow> ('d, 'b) checker \<Rightarrow> bool" where
  "sound C chk \<longleftrightarrow>
     (\<forall>s v nd p v' s'. spec_ok nd \<longrightarrow> chk s v nd p = Some (Checked v', s') \<longrightarrow> conforms C nd v')"

lemma soundD: "sound C chk \<Longrightarrow> spec_ok nd \<Longrightarrow> chk s v nd p = Some (Checked v', s') \<Longrightarrow> conforms C nd v'"
  unfolding sound_def by blast

lemma union_sound:
  assumes "sound C chk" "\<forall>m \<in> set ms. spec_ok m" "check_union chk v p fs s ms = Some (Checked v', s')"
  shows "(ms = [] \<and> fs = []) \<or> (\<exists>m \<in> set ms. conforms C m v')"
  using assms(2,3)
proof (induction ms arbitrary: fs s)
  case Nil
  then show ?case by (auto simp: union_failure_def Let_def split: if_splits list.splits)
next
  case (Cons m ms)
  show ?case
  proof (cases "\<exists>w s1. chk s v m p = Some (Checked w, s1)")
    case True
    then show ?thesis using Cons.prems soundD [OF assms(1)] by auto
  next
    case False
    then obtain f s1 where "check_union chk v p (fs @ [f]) s1 ms = Some (Checked v', s')"
      using Cons.prems(2) by (auto split: option.splits prod.splits checked.splits)
    from Cons.IH [OF _ this] show ?thesis using Cons.prems(1) by auto
  qed
qed

lemma items_sound:
  assumes "sound C chk" "spec_ok nd" "check_items chk nd p i acc s xs = Some (Checked ys, s')"
    "\<forall>x \<in> set acc. conforms C nd x"
  shows "\<forall>x \<in> set ys. conforms C nd x"
  using assms(3,4)
proof (induction xs arbitrary: i acc s)
  case (Cons x xs)
  from Cons.prems(1) obtain v s1 where v: "chk s x nd (p @ [VInt (int i)]) = Some (Checked v, s1)"
    "check_items chk nd p (Suc i) (acc @ [v]) s1 xs = Some (Checked ys, s')"
    by (auto split: option.splits prod.splits checked.splits)
  show ?case using Cons.IH [OF v(2)] Cons.prems(2) soundD [OF assms(1,2) v(1)] by simp
qed simp

definition entry_conforms :: "('d, 'b) ctx \<Rightarrow> ('d, 'b) val option \<Rightarrow> ('d, 'b) val \<Rightarrow> ('d, 'b) val \<times> ('d, 'b) val \<Rightarrow> bool" where
  "entry_conforms C key elem e \<longleftrightarrow>
     conforms C elem (snd e) \<and> (\<forall>kn. key = Some kn \<longrightarrow> conforms C kn (fst e))"

lemma key_sound:
  assumes "sound C chk" "spec_ok nd" "check_map_key E chk s k nd p = Some (Checked k', s')"
  shows "conforms C nd k'"
  using assms(3) unfolding check_map_key_def
  by (auto split: option.splits prod.splits checked.splits val.splits dest!: soundD [OF assms(1,2)])

lemma entry_sound:
  assumes "sound C chk" "spec_ok elem" "\<forall>kn. key = Some kn \<longrightarrow> spec_ok kn"
    "check_map_entry E chk s k v key elem p = Some (Checked e, s')"
  shows "entry_conforms C key elem e"
  using assms(3,4) unfolding check_map_entry_def entry_conforms_def
  by (cases key)
    (auto split: option.splits prod.splits checked.splits
      dest!: soundD [OF assms(1,2)] key_sound [OF assms(1)])

lemma entries_sound:
  assumes "sound C chk" "spec_ok elem" "\<forall>kn. key = Some kn \<longrightarrow> spec_ok kn"
    "check_entries E chk key elem p acc s m = Some (Checked m', s')" "\<forall>e \<in> set acc. entry_conforms C key elem e"
  shows "\<forall>e \<in> set m'. entry_conforms C key elem e"
  using assms(4,5)
proof (induction m arbitrary: acc s)
  case (Cons e m)
  obtain k v where e: "e = (k, v)" by (cases e)
  with Cons.prems(1) obtain e' s1 where v: "check_map_entry E chk s k v key elem (p @ [k]) = Some (Checked e', s1)"
    "check_entries E chk key elem p (acc @ [e']) s1 m = Some (Checked m', s')"
    by (auto split: option.splits prod.splits checked.splits)
  show ?case using Cons.IH [OF v(2)] Cons.prems(2) entry_sound [OF assms(1-3) v(1)] by simp
qed simp

definition field_conforms :: "('d, 'b) ctx \<Rightarrow> ('d, 'b) val \<Rightarrow> ('d, 'b) val \<times> ('d, 'b) val \<Rightarrow> bool" where
  "field_conforms C v f \<longleftrightarrow>
     (\<exists>u. (u = field_of (ctx_env C) v (fst f) \<or> val_eq (ctx_env C) u (field_of (ctx_env C) v (fst f))) \<and>
       conforms C (snd f) u)"

lemma fields_sound:
  assumes "sound C chk" "converts (ctx_env C) chk" "\<forall>f \<in> set fs. spec_ok (snd f)" "str_keyed fs"
    "check_fields (ctx_env C) chk p s (VMap m) fs = Some (Checked v, s')"
  shows "(\<forall>f \<in> set fs. field_conforms C v f) \<and>
    (\<forall>b. VStr b \<notin> fst ` set fs \<longrightarrow> field_of (ctx_env C) v (VStr b) = field_of (ctx_env C) (VMap m) (VStr b))"
  using assms(3-5)
proof (induction fs arbitrary: m s)
  case (Cons f fs)
  let ?E = "ctx_env C"
  obtain a nd where f: "f = (VStr a, nd)" using Cons.prems(2) by (auto simp: str_keyed_Cons)
  have keyed: "str_keyed fs" "VStr a \<notin> fst ` set fs"
    using Cons.prems(2) f by (auto simp: str_keyed_Cons str_get_def map_of_eq_None_iff)
  let ?u = "field_of ?E (VMap m) (VStr a)"
  from f Cons.prems(3) obtain w s1 where w: "chk s ?u nd (p @ [VStr a]) = Some (Checked w, s1)"
    and rest: "check_fields ?E chk p s1
      (if val_eq ?E w ?u then VMap m else with_field ?E (VMap m) (VStr a) w) fs = Some (Checked v, s')"
    by (auto split: option.splits prod.splits checked.splits)
  have cw: "conforms C nd w" using soundD [OF assms(1) _ w] Cons.prems(1) f by simp
  show ?case
  proof (cases "val_eq ?E w ?u")
    case True
    have "field_of ?E v (VStr a) = ?u" using Cons.IH [OF _ keyed(1)] rest True Cons.prems(1) keyed(2) by simp
    then have "field_conforms C v f" using cw True f by (auto simp: field_conforms_def)
    then show ?thesis using Cons.IH [OF _ keyed(1)] rest True Cons.prems(1) by simp
  next
    case False
    have c: "conv ?E ?u w" by (rule convertsD [OF assms(2) w])
    obtain m' where m': "with_field ?E (VMap m) (VStr a) w = VMap m'"
      using conv_is_map [OF with_field_conv [OF c False]] by blast
    have ih: "\<forall>f \<in> set fs. field_conforms C v f"
      "VStr b \<notin> fst ` set fs \<Longrightarrow> field_of ?E v (VStr b) = field_of ?E (VMap m') (VStr b)" for b
      using Cons.IH [OF _ keyed(1), of s1 m'] rest False m' Cons.prems(1) by simp_all
    have "field_of ?E v (VStr a) = w" using ih(2) [OF keyed(2)] field_with_field [OF c False, of a] m' by simp
    then have "field_conforms C v f" using cw f by (auto simp: field_conforms_def)
    then show ?thesis using ih field_with_field [OF c False] m' f by auto
  qed
qed simp

text \<open>A record's invariant keeps the record, so that its fields still conform.\<close>

lemma invariant_keeps:
  assumes "plain_invariant i" "check_value n C s v i p = Some (Checked v', s')"
  shows "v' = v"
proof -
  obtain b q f c src loc where i: "view_of i = NRefine b q f c src loc" "view_of b = NAny"
    using assms(1) by (auto simp: plain_invariant_def split: node_view.splits)
  have *: "check_value k C t w b r = (if k = 0 then None else Some (Checked w, t))" for k t w r
    by (cases k) (simp_all add: i(2) check_value.simps(2))
  show ?thesis using assms(2) i(1)
    by (cases n) (auto simp: * check_value.simps(2) check_refinement_def split: if_splits prod.splits dest!: predicate_keeps)
qed

lemma struct_sound:
  assumes "sound C (check_value n C)" "spec_ok nd" "view_of nd = NStruct t fs whole"
    "check_struct (ctx_env C) (check_value n C) s v t fs whole p = Some (Checked v', s')"
  shows "conforms C nd v'"
proof -
  obtain m where v: "v = VMap m" using assms(4) by (auto simp: check_struct_def split: val.splits)
  with assms(4) obtain w s1 where w: "check_fields (ctx_env C) (check_value n C) p s (VMap m) fs = Some (Checked w, s1)"
    "(case whole of Some i \<Rightarrow> check_value n C s1 w i p | None \<Rightarrow> Some (Checked w, s1)) = Some (Checked v', s')"
    by (auto simp: check_struct_def split: option.splits prod.splits checked.splits)
  have "node_ok nd" using assms(2) parts_self [of nd] by (simp add: spec_ok_def list_all_iff)
  then have ok: "str_keyed fs" "\<And>i. whole = Some i \<Longrightarrow> plain_invariant i" using assms(3) by (simp_all add: node_ok_def)
  have v': "v' = w" using w(2) invariant_keeps [OF ok(2)] by (auto split: option.splits)
  obtain m' where m': "w = VMap m'" using conv_is_map [OF fields_convert [OF check_value_converts w(1)]] by blast
  have "\<forall>f \<in> set fs. spec_ok (snd f)" using spec_ok_views(6) [OF assms(2,3)] by auto
  from fields_sound [OF assms(1) check_value_converts this ok(1) w(1)]
  have fc: "\<forall>f \<in> set fs. field_conforms C w f" by blast
  have ic: "conforms C i w" if i: "whole = Some i" for i
    using w(2) i v' soundD [OF assms(1)] spec_ok_views(7) [OF assms(2)] assms(3) by simp
  show ?thesis unfolding v' m'
  proof (rule conforms_struct [OF assms(3)], goal_cases)
    case (1 f fn)
    then show ?case using bspec [OF fc, of "(f, fn)"] m' by (simp add: field_conforms_def)
  next
    case (2 i)
    then show ?case using ic m' by simp
  qed
qed

lemma predicate_holds: "check_predicate C s v nd p = (Checked v', s') \<Longrightarrow> holds C nd v"
proof -
  have *: "outcome_kind r = None \<Longrightarrow> r = Pass" for r :: "('d, 'b) predicate_outcome" by (cases r) auto
  assume "check_predicate C s v nd p = (Checked v', s')"
  then show ?thesis unfolding check_predicate_def holds_def
    by (auto split: option.splits bool.splits prod.splits dest!: * intro: exI [of _ s])
qed

lemma refinement_sound:
  assumes "sound C chk" "spec_ok nd" "view_of nd = NRefine b q f c src loc"
    "check_refinement C chk s v (view_of nd) p = Some (Checked v', s')"
  shows "conforms C nd v'"
proof -
  from assms(3,4) obtain w s1 where w: "chk s v b p = Some (Checked w, s1)"
    "check_predicate C s1 w (view_of nd) p = (Checked v', s')"
    by (auto simp: check_refinement_def split: option.splits prod.splits checked.splits)
  have "conforms C b w" by (rule soundD [OF assms(1) spec_ok_views(9) [OF assms(2,3)] w(1)])
  then show ?thesis using predicate_holds [OF w(2)] predicate_keeps [OF w(2)] conforms_refine [OF assms(3)] by simp
qed

lemma base_sound:
  assumes "view_of nd = NBase expected tagged"
    "(if tagged then check_tagged_base (ctx_env C) v expected p else check_base (ctx_env C) v expected p) = Checked v'"
  shows "conforms C nd v'"
proof (cases "tagged \<and> is_tagged_over v (\<lambda>inner. base_value (ctx_env C) expected inner \<noteq> None)")
  case True
  then show ?thesis using assms conforms_tagged by (auto simp: check_tagged_base_def split: if_splits)
next
  case False
  then have b: "base_value (ctx_env C) expected v = Some v'" "tagged \<longrightarrow> \<not> is_err v"
    using assms(2) by (auto simp: check_tagged_base_def check_base_def split: if_splits option.splits)
  have "tagged \<longrightarrow> \<not> is_err v'" using b by (auto elim!: base_value_cases simp: is_err_def has_type_def)
  then show ?thesis using conforms_base [OF assms(1)] base_value_matches [OF b(1)] by blast
qed

lemma check_value_sound:
  assumes specs: "\<And>name spec. im_get (ctx_specs C) name = Some spec \<Longrightarrow> spec_ok spec"
  shows "sound C (check_value n C)"
proof (induction n)
  case (Suc n)
  have "conforms C nd v'" if ok: "spec_ok nd" and c: "check_value (Suc n) C s v nd p = Some (Checked v', s')"
    for s v nd p v' s'
  proof -
    note c' = c [unfolded check_value.simps(2)]
    show ?thesis
  proof (cases "view_of nd")
    case (NBase expected tagged)
    then show ?thesis using c' base_sound by auto
  next
    case (NLiteral t vs)
    then show ?thesis using c' conforms_literal [OF NLiteral]
      by (auto simp: check_literal_def list_ex_iff split: if_splits)
  next
    case (NOptional i)
    then show ?thesis using c' soundD [OF Suc spec_ok_views(1) [OF ok NOptional]]
      by (auto intro: conforms_null conforms_optional split: if_splits)
  next
    case (NUnion ms)
    then have "check_union (check_value n C) v p [] s ms = Some (Checked v', s')" using c' by simp
    from union_sound [OF Suc _ this] have "ms = [] \<or> (\<exists>m \<in> set ms. conforms C m v')"
      using spec_ok_views(2) [OF ok NUnion] by blast
    then show ?thesis using conforms_no_member conforms_union NUnion by blast
  next
    case (NVec elem tagged)
    show ?thesis
    proof (cases "tagged \<and> is_tagged_over v (\<lambda>inner. case inner of VVec _ \<Rightarrow> True | _ \<Rightarrow> False)")
      case True
      then show ?thesis using c' NVec conforms_tagged_vec [of nd elem] by simp
    next
      case False
      then obtain xs ys where "v = VVec xs" "v' = VVec ys" "check_items (check_value n C) elem p 0 [] s xs = Some (Checked ys, s')"
        using c' NVec by (auto simp: on_checked_Checked split: val.splits)
      then show ?thesis using items_sound [OF Suc spec_ok_views(3) [OF ok NVec]] conforms_vec [OF NVec] by fastforce
    qed
  next
    case (NMap elem key tagged)
    show ?thesis
    proof (cases "tagged \<and> is_tagged_over v (\<lambda>inner. case inner of VMap _ \<Rightarrow> True | _ \<Rightarrow> False)")
      case True
      then show ?thesis using c' NMap conforms_tagged_map [of nd elem key] by simp
    next
      case False
      then obtain m m' where "v = VMap m" and v': "v' = VMap m'"
        and m': "check_entries (ctx_env C) (check_value n C) key elem p [] s m = Some (Checked m', s')"
        using c' NMap by (auto simp: on_checked_Checked split: val.splits)
      have "\<forall>e \<in> set m'. entry_conforms C key elem e"
        by (rule entries_sound [OF Suc spec_ok_views(5) [OF ok NMap] _ m'])
          (use NMap in \<open>auto intro: spec_ok_views(4) [OF ok]\<close>)
      then show ?thesis unfolding v' by (intro conforms_map [OF NMap]) (auto simp: entry_conforms_def)
    qed
  next
    case (NStruct t fs whole)
    then show ?thesis using c' struct_sound [OF Suc ok NStruct] by simp
  next
    case (NEnum whole)
    then show ?thesis using c' soundD [OF Suc] spec_ok_views(8) [OF ok] conforms_enum [OF NEnum]
      by (cases whole) auto
  next
    case (NNamed name)
    then show ?thesis using c' soundD [OF Suc specs] conforms_named [OF NNamed] conforms_unchecked [OF NNamed]
      by (auto split: option.splits)
  next
    case (NRefine b q f k src loc)
    then show ?thesis using c' refinement_sound [OF Suc ok NRefine] by simp
  next
    case NAny
    then show ?thesis using conforms_any by blast
  qed
  qed
  then show ?case by (auto simp: sound_def simp del: check_value.simps)
qed (simp add: sound_def)

section \<open>An example\<close>

text \<open>A record with a port number that is refined by a predicate, and a value whose port is a decimal.\<close>

definition port_node :: "(int, unit) val" where
  "port_node = node ''refine'' [(''base'', node ''base'' [(''type'', VStr ''Int'')]), (''pred'', VStr ''::t/positive'')]"

definition host_node :: "(int, unit) val" where
  "host_node = node ''struct'' [(''type'', VStr ''::t/Host''), (''fields'', VMap [(VStr ''port'', port_node)])]"

definition host_type :: "(int, unit) val" where
  "host_type = node ''named'' [(''type'', VStr ''::t/Host'')]"

definition host_ctx :: "(int, unit) ctx" where
  "host_ctx = pure_ctx [(''::t/Host'', host_node)] (\<lambda>_ v. VBool (case v of VInt n \<Rightarrow> 0 < n | _ \<Rightarrow> False))"

lemma host_views:
  "view_of host_type = NNamed ''::t/Host''"
  "view_of host_node = NStruct ''::t/Host'' [(VStr ''port'', port_node)] None"
  "view_of port_node =
     NRefine (node ''base'' [(''type'', VStr ''Int'')]) ''::t/positive'' None ''<inline>'' [] VNull"
  "view_of (node ''base'' [(''type'', VStr ''Int'')] :: (int, unit) val) = NBase ''Int'' False"
  by code_simp+

lemma host_ctx_simps:
  "ctx_env host_ctx = tenths_env" "ctx_specs host_ctx = [(''::t/Host'', host_node)]" "ctx_cycles host_ctx = []"
  "ctx_call host_ctx s p v = (Inr (VBool (case v of VInt n \<Rightarrow> 0 < n | _ \<Rightarrow> False)), s)"
  by (simp_all add: host_ctx_def pure_ctx_def spec_table_def host_node_def spec_cycles_def cycle_of_def node_def
      reaches_type.simps node_kind_def get_str_def spec_entry_def node_child_def)

lemma host_checked:
  "check_value 4 host_ctx idle_vm (VMap [(VStr ''port'', VDec 50)]) host_type [] =
     Some (Checked (VMap [(VStr ''port'', VInt 5)]), idle_vm)"
  by (simp add: eval_nat_numeral check_value.simps(2) host_views host_ctx_simps check_struct_def field_of_def as_fields_def
      typed_fields_def is_tagged_wrapper_def tagged_type_name_def map_get_str check_refinement_def check_base_def
      base_value_def base_matches_def check_predicate_def run_predicate_def Let_def guard_new_def idle_vm_def with_field_def
      with_type_of_def map_insert_str)

lemma host_specs: "spec_ok host_type" "list_all (\<lambda>e. spec_ok (snd e)) (ctx_specs host_ctx)"
  unfolding host_ctx_simps by code_simp+

text \<open>C2. Soundness of the checks: a value that a check returns conforms to the type it was checked against,
  all the way down: every element, entry, key and field conforms to its own type, every predicate on the
  way held, and no member of a union, named type or record is skipped. The specs are those the compiler
  writes, whose records have distinct field names and whose invariants refine any value.\<close>
theorem check_value_conforms:
  assumes "spec_ok nd" "list_all (\<lambda>e. spec_ok (snd e)) (ctx_specs C)"
    and "check_value n C s v nd p = Some (Checked v', s')"
  shows "conforms C nd v'"
proof -
  have "im_get (ctx_specs C) name = Some spec \<Longrightarrow> spec_ok spec" for name spec
    using assms(2) by (auto simp: list_all_iff dest!: im_get_SomeD)
  from soundD [OF check_value_sound [OF this] assms(1,3)] show ?thesis .
qed

theorem check_value_conforms_witness:
  "conforms host_ctx host_type (VMap [(VStr ''port'', VInt 5)])"
  by (rule check_value_conforms [OF host_specs host_checked])

text \<open>C3. A check changes a value only in how its numbers are written: an integer becomes the equal
  decimal or an integral decimal the equal integer, at any depth, and a string key that spells a number
  becomes that number. Everything else, the tags of typed values included, stays.\<close>
theorem check_value_exact:
  assumes "exact_decimals (ctx_env C)" "check_value n C s v nd p = Some (Checked v', s')"
  shows "same_value (ctx_env C) v v'"
  using conv_same [OF convertsD [OF check_value_converts assms(2)] assms(1)] .

theorem check_value_exact_witness:
  "same_value tenths_env (VMap [(VStr ''port'', VDec 50)]) (VMap [(VStr ''port'', VInt 5)])"
  using check_value_exact [OF _ host_checked] by (auto simp: host_ctx_simps exact_decimals_def)

end
