(* ===== verification/Hot_Update.thy ===== *)
theory Hot_Update
  imports Hot_Boundary Hot_Sound
begin

unbundle bit_operations_syntax

text \<open>
  What the checks at the boundaries of a program guarantee: the values that updates return, the proofs of
  arguments and the errors of nested constructors.
\<close>

section \<open>Errors\<close>

lemma is_err_val_err [simp]: "is_err (val_err v)"
  by (simp add: is_err_def has_type_def val_err_def tagged_type_name_def)

lemma unwrap_val_err [simp]: "unwrap_err (val_err v) = Some v"
  by (simp add: unwrap_err_def payload_def val_err_def [symmetric]) (simp add: val_err_def)

lemma constraint_error_is_err [simp]: "is_err (constraint_error E f b)"
  by (simp add: constraint_error_def Let_def split_beta)

section \<open>Checks at a boundary\<close>

lemma execute_cases:
  assumes "execute_check_constraint n C s v spec False = Some (Inr w, s')" "\<not> is_err w"
  obtains (proven) "use_proof spec s = Some s'" "w = v"
  | (checked) "check_value n C s v (entry_or_null spec ''type'') [] = Some (Checked w, s')"
  using assms unfolding execute_check_constraint_def
  by (auto split: if_splits option.splits prod.splits checked.splits)

lemma named_type [simp]:
  "entry_or_null (named_boundary t es) ''type'' = VMap [(VStr ''kind'', VStr ''named''), (VStr ''type'', VStr t)]"
  by (simp add: named_boundary_def entry_or_null_def spec_entry_def)

lemma named_view: "view_of (VMap [(VStr ''kind'', VStr ''named''), (VStr ''type'', VStr t)]) = NNamed t"
  by (simp add: view_of_def node_kind_def node_name_def get_str_def spec_entry_def)

lemma named_ok: "spec_ok (VMap [(VStr ''kind'', VStr ''named''), (VStr ''type'', VStr t)])"
  by (simp add: spec_ok_def parts_simps parts.simps [of "VStr s" for s] node_ok_def named_view)
    (simp add: view_of_def node_kind_def get_str_def spec_entry_def)

lemma named_update_no_proof:
  "use_proof (named_boundary t [(''boundary'', VStr b), (''declared-type'', VStr t)]) s = None"
  by (simp add: use_proof_def named_boundary_def spec_entry_def)

text \<open>What a check of a typed value that returns no \<open>Err\<close> has shown of it.\<close>

definition accepted :: "('d, 'b) ctx \<Rightarrow> ('d, 'b) val \<Rightarrow> bool" where
  "accepted C u \<longleftrightarrow>
     (\<forall>m t spec. u = VMap m \<longrightarrow> tagged_type_name m = Some t \<longrightarrow> im_get (ctx_specs C) t = Some spec \<longrightarrow>
        (\<exists>x. conv (ctx_env C) u x \<and> conforms C spec x))"

lemma specs_sound:
  assumes "list_all (\<lambda>e. spec_ok (snd e)) (ctx_specs C)"
  shows "sound C (check_value n C)"
proof -
  have "im_get (ctx_specs C) name = Some spec \<Longrightarrow> spec_ok spec" for name spec
    using assms by (auto simp: list_all_iff dest!: im_get_SomeD)
  then show ?thesis by (rule check_value_sound)
qed

lemma named_checked:
  assumes "list_all (\<lambda>e. spec_ok (snd e)) (ctx_specs C)" "im_get (ctx_specs C) t = Some spec"
    "check_value n C s v (VMap [(VStr ''kind'', VStr ''named''), (VStr ''type'', VStr t)]) p = Some (Checked w, s')"
  shows "conforms C spec w"
proof -
  obtain k where n: "n = Suc k" using assms(3) by (cases n) auto
  with assms(2,3) have "check_value k C s v spec p = Some (Checked w, s')"
    by (auto simp: check_value.simps(2) named_view split: option.splits)
  moreover have "spec_ok spec" using assms(1,2) by (auto simp: list_all_iff dest!: im_get_SomeD)
  ultimately show ?thesis using soundD [OF specs_sound [OF assms(1)]] by blast
qed

lemma typed_checked:
  assumes "list_all (\<lambda>e. spec_ok (snd e)) (ctx_specs C)" "tagged_type_name m = Some t" "im_get (ctx_specs C) t = Some spec"
    "check_typed_value n C s (VMap m) b = Some (Inr w, s')" "\<not> is_err w"
  shows "conforms C spec w \<and> conv (ctx_env C) (VMap m) w"
proof -
  have "execute_check_constraint n C s (VMap m)
      (named_boundary t [(''boundary'', VStr b), (''declared-type'', VStr t)]) False = Some (Inr w, s')"
    using assms(2-4) by (simp add: check_typed_value_def)
  then have "check_value n C s (VMap m) (VMap [(VStr ''kind'', VStr ''named''), (VStr ''type'', VStr t)]) [] =
      Some (Checked w, s')"
    using assms(5) by (cases rule: execute_cases) (simp_all add: named_update_no_proof)
  then show ?thesis using named_checked [OF assms(1,3)] convertsD [OF check_value_converts] by blast
qed

lemma typed_accepted:
  assumes "list_all (\<lambda>e. spec_ok (snd e)) (ctx_specs C)" "check_typed_value n C s u b = Some (Inr w, s')" "\<not> is_err w"
  shows "accepted C u"
  using typed_checked [OF assms(1) _ _ _ assms(3)] assms(2) unfolding accepted_def by blast

lemma not_typed_accepted: "\<not> is_typed u \<Longrightarrow> accepted C u"
  by (auto simp: is_typed_def accepted_def)

section \<open>Values inside a value\<close>

text \<open>A value with all that its vectors hold and its maps have as values, at any depth.\<close>

function inner_values :: "('d, 'b) val \<Rightarrow> ('d, 'b) val list" where
  "inner_values v =
     v # (case v of
            VVec xs \<Rightarrow> concat (map inner_values xs)
          | VMap m \<Rightarrow> concat (map inner_values (map snd m))
          | _ \<Rightarrow> [])"
  by pat_completeness auto
termination
proof (relation "measure vsize", goal_cases)
  case (2 v xs x)
  then show ?case using vsizes_mem [of x xs] by simp
next
  case (3 v m x)
  then show ?case using vsizes_mem [of x "map snd m"] values_size [of m] by simp
qed simp

declare inner_values.simps [simp del]

lemma find_step:
  assumes "find_typed_value_failure n C b s v = Some (Inr r, s')"
  obtains (failed) e where "r = Some e" "is_err e"
  | (map) m w s1 where "v = VMap m"
      "(if is_typed v then check_typed_value n C s v b else Some (Inr VNull, s)) = Some (Inr w, s1)"
      "\<not> is_err w" "find_in_values n C b s1 (map snd m) = Some (Inr r, s')"
  | (vec) xs where "v = VVec xs" "find_in_values n C b s xs = Some (Inr r, s')"
  | (other) "r = None" "\<not> (\<exists>m. v = VMap m)" "\<not> (\<exists>xs. v = VVec xs)"
proof (cases v)
  case (VMap m)
  then show ?thesis using assms failed map
    by (auto simp: find_typed_value_failure.simps(1) split: option.splits prod.splits sum.splits if_splits)
qed (use assms vec other in \<open>auto simp: find_typed_value_failure.simps(1)\<close>)

lemma find_accepted:
  "find_typed_value_failure n C b s v = Some (Inr None, s') \<Longrightarrow> list_all (\<lambda>e. spec_ok (snd e)) (ctx_specs C) \<Longrightarrow>
     \<forall>u \<in> set (inner_values v). accepted C u"
  "find_in_values n C b s vs = Some (Inr None, s') \<Longrightarrow> list_all (\<lambda>e. spec_ok (snd e)) (ctx_specs C) \<Longrightarrow>
     \<forall>v \<in> set vs. \<forall>u \<in> set (inner_values v). accepted C u"
proof (induction n C b s v and n C b s vs arbitrary: s' and s' rule: find_typed_value_failure_find_in_values.induct)
  case (1 n C b s v)
  from 1(3) show ?case
  proof (cases rule: find_step)
    case (map m w s1)
    have "\<forall>v \<in> set (map snd m). \<forall>u \<in> set (inner_values v). accepted C u"
      using 1(2,4) map by auto
    moreover have "accepted C v" using map(2,3) typed_accepted [OF 1(4)] not_typed_accepted by (cases "is_typed v") auto
    ultimately show ?thesis using map(1) by (auto simp: inner_values.simps [of "VMap m"])
  next
    case (vec xs)
    then have "accepted C v" by (intro not_typed_accepted) (simp add: is_typed_def)
    then show ?thesis using 1(1) [OF vec 1(4)] vec(1) by (auto simp: inner_values.simps [of "VVec xs"])
  next
    case other
    then have "inner_values v = [v]" by (cases v) (simp_all add: inner_values.simps)
    moreover have "accepted C v" using other by (intro not_typed_accepted) (auto simp: is_typed_def split: val.splits)
    ultimately show ?thesis by simp
  qed simp
next
  case (2 n C b s)
  then show ?case by simp
next
  case (3 n C b s v vs)
  then show ?case by (auto split: option.splits prod.splits sum.splits)
qed

lemma find_failure_err:
  "find_typed_value_failure n C b s v = Some (Inr (Some e), s') \<Longrightarrow> is_err e"
  "find_in_values n C b s vs = Some (Inr (Some e), s') \<Longrightarrow> is_err e"
proof (induction n C b s v and n C b s vs arbitrary: s' and s' rule: find_typed_value_failure_find_in_values.induct)
  case (1 n C b s v)
  from 1(3) show ?case
  proof (cases rule: find_step)
    case (map m w s1)
    then show ?thesis using 1(2) by auto
  next
    case (vec xs)
    then show ?thesis using 1(1) by auto
  qed simp_all
next
  case (3 n C b s v vs)
  then show ?case by (auto split: option.splits prod.splits sum.splits)
qed simp

section \<open>An example\<close>

definition host :: "(int, unit) val \<Rightarrow> (int, unit) val" where
  "host port = VMap [(VStr ''$type'', VStr ''::t/Host''), (VStr ''$val'', VMap [(VStr ''port'', port)])]"

lemma host_update:
  "check_typed_value 4 host_ctx idle_vm (host (VDec 50)) ''update'' = Some (Inr (host (VInt 5)), idle_vm)"
  by (simp add: check_typed_value_def host_def tagged_type_name_def host_ctx_simps execute_check_constraint_def
      named_update_no_proof eval_nat_numeral check_value.simps(2) named_view host_views check_struct_def field_of_def as_fields_def
      typed_fields_def is_tagged_wrapper_def map_get_str check_refinement_def check_base_def starts_with_def wrapper_key_def
      base_value_def base_matches_def check_predicate_def run_predicate_def Let_def guard_new_def idle_vm_def with_field_def
      with_type_of_def map_insert_str is_err_def has_type_def)

section \<open>Guarantees\<close>

definition error_field :: "('d, 'b) val \<Rightarrow> string \<Rightarrow> ('d, 'b) val option" where
  "error_field e key =
     (case unwrap_err e of
        Some (VMap tagged) \<Rightarrow> (case str_get tagged ''$val'' of Some (VMap flds) \<Rightarrow> str_get flds key | _ \<Rightarrow> None)
      | _ \<Rightarrow> None)"

text \<open>C29. A typed value that an update (\<^verbatim>\<open>assoc\<close>, \<^verbatim>\<open>assoc-some\<close>, \<^verbatim>\<open>update\<close>, \<^verbatim>\<open>merge\<close>) returns conforms to the spec
  of its type, and differs from what the update built only by conversions; otherwise the result is an
  \<open>Err\<close> (or the check itself stops with an error of the machine).\<close>
theorem update_conforms:
  assumes "list_all (\<lambda>e. spec_ok (snd e)) (ctx_specs C)"
    and "native \<in> {''::hot::coll/assoc'', ''::hot::coll/assoc-some'', ''::hot::coll/update'', ''::hot::coll/merge''}"
    and "tagged_type_name m = Some t" "im_get (ctx_specs C) t = Some spec"
    and "check_updated_value n C s native args (VMap m) = Some (Inr w, s')" "\<not> is_err w"
  shows "conforms C spec w \<and> conv (ctx_env C) (VMap m) w"
proof -
  have "check_typed_value n C s (VMap m) ''update'' = Some (Inr w, s')"
    using assms(2,5) by (simp add: check_updated_value_def)
  from typed_checked [OF assms(1,3,4) this assms(6)] show ?thesis .
qed

theorem update_conforms_witness: "conforms host_ctx host_node (host (VInt 5))"
proof -
  have "check_updated_value 4 host_ctx idle_vm ''::hot::coll/assoc'' []
      (VMap [(VStr ''$type'', VStr ''::t/Host''), (VStr ''$val'', VMap [(VStr ''port'', VDec 50)])]) =
      Some (Inr (host (VInt 5)), idle_vm)"
    using host_update by (simp add: check_updated_value_def host_def)
  from update_conforms [OF host_specs(2) _ _ _ this] show ?thesis
    by (simp add: tagged_type_name_def host_ctx_simps is_err_def has_type_def host_def)
qed

text \<open>C30. A walk that returns no \<open>Err\<close> returns what it built, and every typed value inside of it, at any
  depth below items of vectors and values of maps, was accepted by the check of its type: up to conversions it conforms to its spec.\<close>
theorem walk_checks_all:
  assumes "list_all (\<lambda>e. spec_ok (snd e)) (ctx_specs C)"
    and "native \<in> {''::hot::coll/walk'', ''::hot::coll/prewalk'', ''::hot::coll/postwalk'', ''::hot::coll/postwalk-replace''}"
    and "check_updated_value n C s native args v = Some (Inr w, s')" "\<not> is_err w"
  shows "w = v \<and> (\<forall>u \<in> set (inner_values v). accepted C u)"
proof -
  have c: "check_typed_values_within n C s v ''update'' = Some (Inr w, s')"
    using assms(2,3) by (auto simp: check_updated_value_def)
  show ?thesis
  proof (cases "ctx_specs C = []")
    case True
    then show ?thesis using c by (simp add: check_typed_values_within_def accepted_def)
  next
    case False
    with c obtain f where f: "find_typed_value_failure n C ''update'' s v = Some (Inr f, s')" "w = or_else f v"
      by (auto simp: check_typed_values_within_def split: option.splits prod.splits sum.splits)
    have "f = None" using find_failure_err(1) [of n C "''update''" s v _ s'] f assms(4) by (cases f) (auto simp: or_else_def)
    with f have "find_typed_value_failure n C ''update'' s v = Some (Inr None, s')" by simp
    from find_accepted(1) [OF this assms(1)] show ?thesis using f(2) \<open>f = None\<close> by (simp add: or_else_def)
  qed
qed

theorem walk_checks_all_witness: "accepted host_ctx (host (VDec 50))"
proof -
  have "check_updated_value 4 host_ctx idle_vm ''::hot::coll/postwalk'' [] (VVec [host (VDec 50)]) =
      Some (Inr (VVec [host (VDec 50)]), idle_vm)"
    using host_update
    by (simp add: check_updated_value_def check_typed_values_within_def host_ctx_simps or_else_def
        find_typed_value_failure.simps is_typed_def host_def tagged_type_name_def is_err_def has_type_def)
  from walk_checks_all [OF host_specs(2) _ this] show ?thesis
    by (simp add: is_err_def has_type_def inner_values.simps [of "VVec [host (VDec 50)]"]
        inner_values.simps [of "host (VDec 50)"])
qed

text \<open>Deep updates check but do not convert: where \<^verbatim>\<open>assoc\<close> stores the integer 5 in an integer field that was
  given the decimal 5.0, \<^verbatim>\<open>assoc-in\<close> on the same record passes the check and leaves the decimal.\<close>
theorem deep_update_unconverted:
  "check_updated_value 4 host_ctx idle_vm ''::hot::coll/assoc'' [] (host (VDec 50)) =
     Some (Inr (host (VInt 5)), idle_vm) \<and>
   check_updated_value 4 host_ctx idle_vm ''::hot::coll/assoc-in'' [host (VInt 1), VVec [VStr ''port''], VDec 50] (host (VDec 50)) =
     Some (Inr (host (VDec 50)), idle_vm)"
proof
  show "check_updated_value 4 host_ctx idle_vm ''::hot::coll/assoc'' [] (host (VDec 50)) = Some (Inr (host (VInt 5)), idle_vm)"
    using host_update by (simp add: check_updated_value_def)
  have "is_typed (host (VDec 50))" "\<not> is_err (host (VInt 5))"
    "path_step tenths_env (host (VDec 50)) (VStr ''port'') = Some (VDec 50)"
    by (simp_all add: is_typed_def host_def tagged_type_name_def is_err_def has_type_def path_step_def map_get_str)
  then show "check_updated_value 4 host_ctx idle_vm ''::hot::coll/assoc-in'' [host (VInt 1), VVec [VStr ''port''], VDec 50]
      (host (VDec 50)) = Some (Inr (host (VDec 50)), idle_vm)"
    using host_update
    by (simp add: check_updated_value_def check_typed_values_on_path_def host_ctx_simps check_on_path.simps is_typed_def is_err_def
        has_type_def)
qed

text \<open>In a program with any constrained type, a walk over a vector that holds an \<open>Err\<close> returns that \<open>Err\<close>
  instead of the vector: the search for a failed check takes every \<open>Err\<close> it meets for one.\<close>
theorem nested_err_replaces_walk:
  assumes "ctx_specs C \<noteq> []" "im_get (ctx_specs C) ''::hot::type/Result.Err'' = None"
  shows "check_updated_value n C s ''::hot::coll/postwalk-replace'' args (VVec (val_err e # vs)) = Some (Inr (val_err e), s)"
proof -
  have "check_typed_value n C s (val_err e) ''update'' = Some (Inr (val_err e), s)"
    using assms(2) by (simp add: check_typed_value_def val_err_def tagged_type_name_def)
  moreover obtain m where m: "val_err e = VMap m" by (simp add: val_err_def)
  moreover have "is_typed (VMap m)" "is_err (VMap m)"
    using is_err_val_err [of e] m by (auto simp: is_typed_def is_err_def has_type_def)
  ultimately have "find_typed_value_failure n C ''update'' s (val_err e) = Some (Inr (Some (val_err e)), s)"
    by (simp add: find_typed_value_failure.simps(1))
  then show ?thesis using assms(1)
    by (simp add: check_updated_value_def check_typed_values_within_def or_else_def
        find_typed_value_failure.simps(1) [of _ _ _ _ "VVec (val_err e # vs)"])
qed

theorem nested_err_replaces_walk_witness:
  "check_updated_value 4 host_ctx idle_vm ''::hot::coll/postwalk-replace'' [] (VVec [val_err VNull, VInt 1]) =
     Some (Inr (val_err VNull), idle_vm)"
  using nested_err_replaces_walk [of host_ctx 4 idle_vm "[]" VNull "[VInt 1]"] by (simp add: host_ctx_simps)

text \<open>The proof that a call site made of an argument is used once: it lets one check pass, with the value
  as it is, and after that the same check runs in full, while the proofs of other parameters stay.\<close>
theorem proof_used_once:
  assumes "use_proof spec s = Some s'"
  shows "use_proof spec s' = None \<and>
    (\<exists>f i w w'. spec_entry spec ''proof'' = Some (VVec [VInt f, VInt (int i)]) \<and> vm_proven s = Some (nat f, w) \<and>
       vm_proven s' = Some (nat f, w') \<and> bit w i \<and> w' = unset_bit i w)"
proof -
  from assms obtain f i fid w where e: "spec_entry spec ''proof'' = Some (VVec [VInt f, VInt i])" "vm_proven s = Some (fid, w)"
    and c: "int fid = f" "0 \<le> i" "i < 64" "w AND push_bit (nat i) 1 \<noteq> 0"
    and s': "s' = s\<lparr>vm_proven := Some (fid, w AND NOT (push_bit (nat i) 1))\<rparr>"
    by (auto simp: use_proof_def split: option.splits val.splits list.splits if_splits)
  have "unset_bit (nat i) w AND 2 ^ nat i = 0"
    by (rule bit_eqI) (auto simp: bit_simps)
  moreover have "bit w (nat i)"
  proof (rule ccontr)
    assume "\<not> bit w (nat i)"
    then have "w AND push_bit (nat i) 1 = 0" by (intro bit_eqI) (auto simp: bit_simps)
    then show False using c(4) by simp
  qed
  moreover have "w AND NOT (push_bit (nat i) 1) = unset_bit (nat i) w"
    by (rule bit_eqI) (auto simp: bit_simps)
  ultimately show ?thesis using e c s'
    by (auto simp: use_proof_def intro!: exI [of _ f] exI [of _ "nat i"])
qed

definition proof_spec :: "(int, unit) val" where
  "proof_spec = VMap [(VStr ''proof'', VVec [VInt 7, VInt 1])]"

theorem proof_used_once_witness: "use_proof proof_spec (idle_vm\<lparr>vm_proven := Some (7, 1)\<rparr>) = None"
proof -
  have "use_proof proof_spec (idle_vm\<lparr>vm_proven := Some (7, 3)\<rparr>) = Some (idle_vm\<lparr>vm_proven := Some (7, 1)\<rparr>)"
    by (simp add: use_proof_def proof_spec_def spec_entry_def idle_vm_def)
  from proof_used_once [OF this] show ?thesis by blast
qed

lemma constraint_error_shape:
  assumes "failure_report E f (constructor_boundary t) = (variant, rest, extra)"
  shows "\<exists>flds. constraint_error E f (constructor_boundary t) =
      val_err (VMap [(VStr ''$type'', VStr (''::hot::type/ConstraintError.'' @ variant)), (VStr ''$val'', VMap flds)]) \<and>
    str_get flds ''boundary'' = Some (VStr ''constructor'') \<and> str_get flds ''path'' = Some (VVec (fl_path f)) \<and>
    str_get flds ''declared-type'' = Some (VStr t) \<and>
    str_get flds ''message'' = Some (VStr (lead E (constructor_boundary t) (fl_path f) @ rest))"
  unfolding constraint_error_def Let_def assms prod.case
  by (intro exI conjI, rule refl) (simp_all add: constructor_boundary_def opt_str_def)

text \<open>The error of a constructor inside another can always be reported as the outer one's: its path is
  led by the step into the outer value, its message opens with the outer constructor and the longer path and
  ends as before, its declared type is the outer record, and every other field is kept.\<close>
theorem reframe_moves_error:
  "let whole = or_else outer t; longer = (case step of Some k \<Rightarrow> k # fl_path f | None \<Rightarrow> fl_path f);
       inner_error = constraint_error E f (constructor_boundary t)
   in \<exists>e. reframe_constraint_error E inner_error step outer = Some e \<and> is_err e \<and>
     error_field e ''path'' = Some (VVec longer) \<and> error_field e ''declared-type'' = Some (VStr whole) \<and>
     error_field e ''message'' = Some (VStr (lead E (constructor_boundary whole) longer @
       fst (snd (failure_report E f (constructor_boundary t))))) \<and>
     {k. error_field e k \<noteq> error_field inner_error k} \<subseteq> {''path'', ''declared-type'', ''message''}"
proof -
  obtain variant rest extra where r: "failure_report E f (constructor_boundary t) = (variant, rest, extra)" by (metis prod_cases3)
  from constraint_error_shape [OF this] obtain flds where
    e: "constraint_error E f (constructor_boundary t) =
      val_err (VMap [(VStr ''$type'', VStr (''::hot::type/ConstraintError.'' @ variant)), (VStr ''$val'', VMap flds)])"
    and flds: "str_get flds ''boundary'' = Some (VStr ''constructor'')" "str_get flds ''path'' = Some (VVec (fl_path f))"
      "str_get flds ''declared-type'' = Some (VStr t)"
      "str_get flds ''message'' = Some (VStr (lead E (constructor_boundary t) (fl_path f) @ rest))" by blast
  show ?thesis unfolding Let_def e r
    by (auto simp: reframe_constraint_error_def Let_def tagged_type_name_def starts_with_def get_str_def spec_entry_def
        error_field_def flds)
qed

end
