(* ===== verification/Hot_Fast.thy ===== *)
theory Hot_Fast
  imports Hot_Boundary Hot_Ends
begin

unbundle bit_operations_syntax

text \<open>
  The fast path of a constructor: \<^verbatim>\<open>passes_as_is\<close> with the masks of \<^verbatim>\<open>field_check\<close> against the check it saves.
\<close>

section \<open>Masks\<close>

lemma mask_or: "(a OR b) AND k = 0 \<longleftrightarrow> a AND k = 0 \<and> b AND k = (0 :: 32 word)"
  by (simp add: bit.conj_disj_distrib2 or_eq_0_iff)

lemma mask_fold: "foldl (OR) z ms AND k = 0 \<longleftrightarrow> z AND k = 0 \<and> (\<forall>m \<in> set ms. m AND k = (0 :: 32 word))"
  by (induction ms arbitrary: z) (auto simp: mask_or)

lemma spec_mask_view:
  "spec_mask nd =
     (case view_of nd of
        NBase expected _ \<Rightarrow> base_mask expected
      | NOptional c \<Rightarrow> K_NULL OR spec_mask c
      | NUnion ms \<Rightarrow> foldl (OR) 0 (map spec_mask ms)
      | _ \<Rightarrow> 0)"
proof -
  have k: "get_str nd ''kind'' = Some kind \<longleftrightarrow> node_kind nd = kind" if "kind \<noteq> ''any''" for kind
    using that by (auto simp: node_kind_def split: option.splits)
  have n: "spec_mask VNull = 0" "base_mask ''Any'' = 0"
    by (simp_all add: spec_mask.simps [of VNull] get_str_def spec_entry_def base_mask_def)
  show ?thesis
    by (subst spec_mask.simps)
      (auto simp: k n view_of_def str_or_def entry_or_null_def entry_vec_def split: option.splits val.splits)
qed

lemma accepts_iff: "accepts v m \<longleftrightarrow> (\<exists>k. kind_of v = Some k \<and> m AND k \<noteq> 0)"
  by (auto simp: accepts_def split: option.splits)

text \<open>Types whose check looks at nothing but the kind of a value.\<close>

inductive flat :: "('d, 'b) val \<Rightarrow> bool" where
  flat_base: "view_of nd = NBase expected tagged \<Longrightarrow> flat nd"
| flat_optional: "view_of nd = NOptional c \<Longrightarrow> flat c \<Longrightarrow> flat nd"
| flat_union: "view_of nd = NUnion ms \<Longrightarrow> (\<And>m. m \<in> set ms \<Longrightarrow> flat m) \<Longrightarrow> flat nd"

text \<open>A number that no member of the type would convert.\<close>

definition kept :: "('d, 'b) val \<Rightarrow> 32 word \<Rightarrow> bool" where
  "kept v m = (case v of VInt _ \<Rightarrow> m AND K_DEC = 0 | VDec _ \<Rightarrow> m AND K_INT = 0 | _ \<Rightarrow> True)"

definition decides :: "('d, 'b) val \<Rightarrow> 32 word \<Rightarrow> vm \<Rightarrow> (('d, 'b, ('d, 'b) val) checked \<times> vm) \<Rightarrow> bool" where
  "decides v m s r \<longleftrightarrow> snd r = s \<and> (fst r = Checked v \<or> (\<exists>f. fst r = Failed f) \<and> \<not> (accepts v m \<and> \<not> is_err v))"

lemmas kind_defs = K_NULL_def K_BOOL_def K_INT_def K_DEC_def K_STR_def K_VEC_def K_MAP_def K_BYTES_def K_BYTE_def

lemma base_accepts: "accepts v (base_mask expected) \<Longrightarrow> base_matches expected v"
  by (cases v) (auto simp: accepts_def base_mask_def base_matches_def kind_defs split: if_splits)

lemma base_kept: "kept v (base_mask expected) \<Longrightarrow> base_value E expected v = Some w \<Longrightarrow> w = v"
  by (cases v) (auto simp: kept_def base_mask_def base_value_def kind_defs split: if_splits)

lemma base_decides:
  assumes "kept v (base_mask expected)"
  shows "decides v (base_mask expected) s
    (if tagged then check_tagged_base E v expected p else check_base E v expected p, s)"
  using base_accepts [of v expected] base_kept [OF assms, of E]
  by (auto simp: decides_def check_tagged_base_def check_base_def base_value_def split: option.splits)

lemma union_decides:
  assumes "\<And>m s r. m \<in> set ms \<Longrightarrow> chk s v m p = Some r \<Longrightarrow> decides v (spec_mask m) s r"
    "check_union chk v p fs s ms = Some r"
  shows "decides v (foldl (OR) 0 (map spec_mask ms)) s r"
  using assms
proof (induction ms arbitrary: fs s)
  case Nil
  then show ?case
    by (auto simp: decides_def union_failure_def Let_def accepts_iff split: if_splits list.splits)
next
  case (Cons m ms)
  obtain q where q: "chk s v m p = Some q" using Cons.prems(2) by (auto split: option.splits)
  then have d: "decides v (spec_mask m) s q" using Cons.prems(1) by simp
  have ac: "accepts v (foldl (OR) 0 (map spec_mask (m # ms))) \<longleftrightarrow>
      accepts v (spec_mask m) \<or> accepts v (foldl (OR) 0 (map spec_mask ms))"
    by (auto simp: accepts_iff mask_fold)
  show ?case
  proof (cases "fst q = Checked v")
    case True
    then show ?thesis using Cons.prems(2) q d by (cases q) (auto simp: decides_def)
  next
    case False
    then obtain f where f: "q = (Failed f, s)" "\<not> (accepts v (spec_mask m) \<and> \<not> is_err v)"
      using d by (cases q) (auto simp: decides_def)
    then have "check_union chk v p (fs @ [f]) s ms = Some r" using Cons.prems(2) q by simp
    from Cons.IH [OF Cons.prems(1) this] show ?thesis using f(2) ac by (auto simp: decides_def)
  qed
qed

lemma kept_or: "kept v (a OR b) \<longleftrightarrow> kept v a \<and> kept v b"
  by (auto simp: kept_def mask_or split: val.split)

lemma kept_fold: "kept v (foldl (OR) 0 ms) \<longleftrightarrow> (\<forall>m \<in> set ms. kept v m)"
  by (auto simp: kept_def mask_fold split: val.split)

lemma flat_decides:
  assumes "flat nd" "kept v (spec_mask nd)" "check_value n C s v nd p = Some r"
  shows "decides v (spec_mask nd) s r"
  using assms
proof (induction arbitrary: n s r)
  case (flat_base nd expected tagged)
  then obtain k where "n = Suc k" by (cases n) auto
  with flat_base show ?case using base_decides [of v expected s tagged "ctx_env C" p]
    by (auto simp: check_value.simps(2) spec_mask_view [of nd])
next
  case (flat_optional nd c)
  then obtain k where n: "n = Suc k" by (cases n) auto
  have m: "spec_mask nd = K_NULL OR spec_mask c" using flat_optional.hyps(1) by (simp add: spec_mask_view [of nd])
  show ?case
  proof (cases "v = VNull")
    case True
    then show ?thesis using flat_optional n by (auto simp: check_value.simps(2) decides_def)
  next
    case False
    then have "accepts v (spec_mask nd) \<longleftrightarrow> accepts v (spec_mask c)"
      unfolding m by (cases v) (auto simp: accepts_iff mask_or kind_defs)
    moreover have "decides v (spec_mask c) s r"
      using flat_optional n False m by (auto simp: check_value.simps(2) kept_or)
    ultimately show ?thesis by (simp add: decides_def)
  qed
next
  case (flat_union nd ms)
  then obtain k where n: "n = Suc k" by (cases n) auto
  have m: "spec_mask nd = foldl (OR) 0 (map spec_mask ms)" using flat_union.hyps(1) by (simp add: spec_mask_view [of nd])
  have "check_union (check_value k C) v p [] s ms = Some r" using flat_union n by (simp add: check_value.simps(2))
  moreover have "decides v (spec_mask x) s' q" if "x \<in> set ms" "check_value k C s' v x p = Some q" for x s' q
    using flat_union.IH [OF that(1) _ that(2)] flat_union.prems(1) that(1) by (auto simp: m kept_fold)
  ultimately show ?case unfolding m by (rule union_decides [rotated])
qed

section \<open>Fields of plain types\<close>

text \<open>A type of kinds that does not leave a number to choose between an integer and a decimal.\<close>

definition clear :: "('d, 'b) val \<Rightarrow> bool" where
  "clear nd \<longleftrightarrow> flat nd \<and> (spec_mask nd AND K_INT = 0 \<or> spec_mask nd AND K_DEC = 0)"

definition settled :: "('d, 'b) val \<Rightarrow> bool" where
  "settled spec =
     (case view_of spec of
        NVec elem _ \<Rightarrow> clear elem
      | NMap elem key _ \<Rightarrow> (view_of elem = NAny \<or> clear elem) \<and> (case key of Some k \<Rightarrow> clear k | None \<Rightarrow> True)
      | _ \<Rightarrow> clear spec)"

text \<open>The keys of a map are different, as they are in an \<^verbatim>\<open>IndexMap\<close>.\<close>

definition keys_apart :: "('d, 'b) val_env \<Rightarrow> ('d, 'b) val \<Rightarrow> bool" where
  "keys_apart E v = (case v of VMap m \<Rightarrow> sorted_wrt (\<lambda>e e'. \<not> key_eq E (fst e') (fst e)) m | _ \<Rightarrow> True)"

lemma clear_keeps:
  assumes "clear nd" "accepts v (spec_mask nd)" "\<not> is_err v" "check_value n C s v nd p = Some r"
  shows "r = (Checked v, s)"
proof -
  have "kept v (spec_mask nd)" using assms(1,2) by (cases v) (auto simp: clear_def kept_def accepts_iff)
  from flat_decides [OF _ this assms(4)] assms show ?thesis by (cases r) (auto simp: clear_def decides_def)
qed

lemma items_keep:
  assumes "\<And>x s p r. x \<in> set xs \<Longrightarrow> chk s x nd p = Some r \<Longrightarrow> r = (Checked x, s)"
    "check_items chk nd p i acc s xs = Some r"
  shows "r = (Checked (acc @ xs), s)"
  using assms
proof (induction xs arbitrary: i acc s)
  case (Cons x xs)
  obtain q where q: "chk s x nd (p @ [VInt (int i)]) = Some q" using Cons.prems(2) by (auto split: option.splits)
  then have "q = (Checked x, s)" using Cons.prems(1) by simp
  then have "check_items chk nd p (Suc i) (acc @ [x]) s xs = Some r" using Cons.prems(2) q by simp
  from Cons.IH [OF Cons.prems(1) this] show ?case by simp
qed simp

lemma entry_keeps:
  assumes "\<And>kn s p r. key = Some kn \<Longrightarrow> chk s k kn p = Some r \<Longrightarrow> r = (Checked k, s)"
    "\<And>s p r. chk s x elem p = Some r \<Longrightarrow> r = (Checked x, s)" "check_map_entry E chk s k x key elem p = Some r"
  shows "r = (Checked (k, x), s)"
proof -
  have *: "(case key of Some spec \<Rightarrow> check_map_key E chk s k spec p | None \<Rightarrow> Some (Checked k, s)) = Some q \<Longrightarrow>
      q = (Checked k, s)" for q
  proof (cases key)
    case (Some kn)
    assume "(case key of Some spec \<Rightarrow> check_map_key E chk s k spec p | None \<Rightarrow> Some (Checked k, s)) = Some q"
    then have "check_map_key E chk s k kn p = Some q" using Some by simp
    moreover then obtain q' where q': "chk s k kn p = Some q'" by (auto simp: check_map_key_def split: option.splits)
    moreover have "q' = (Checked k, s)" using assms(1) [OF Some q'] .
    ultimately show ?thesis by (simp add: check_map_key_def)
  qed simp
  obtain q where q: "(case key of Some spec \<Rightarrow> check_map_key E chk s k spec p | None \<Rightarrow> Some (Checked k, s)) = Some q"
    using assms(3) by (auto simp: check_map_entry_def split: option.splits)
  have "chk s x elem p \<noteq> None" using assms(3) q * [OF q]
    by (cases "chk s x elem p") (auto simp: check_map_entry_def)
  then obtain t where "chk s x elem p = Some t" by blast
  with assms(2) [OF this] show ?thesis using assms(3) q * [OF q] by (simp add: check_map_entry_def)
qed

lemma entries_keep:
  assumes "\<And>e s p r. e \<in> set m \<Longrightarrow> check_map_entry E chk s (fst e) (snd e) key elem p = Some r \<Longrightarrow> r = (Checked e, s)"
    "check_entries E chk key elem p acc s m = Some r"
    "sorted_wrt (\<lambda>e e'. \<not> key_eq E (fst e') (fst e)) (acc @ m)"
  shows "r = (Checked (acc @ m), s)"
  using assms
proof (induction m arbitrary: acc s)
  case (Cons e m)
  obtain k x where e: "e = (k, x)" by (cases e)
  obtain q where q: "check_map_entry E chk s k x key elem (p @ [k]) = Some q"
    using Cons.prems(2) e by (auto split: option.splits)
  then have "q = (Checked e, s)" using Cons.prems(1) [of e] e by simp
  moreover have "find (\<lambda>a. key_eq E k (fst a)) acc = None"
    using Cons.prems(3) e by (auto simp: sorted_wrt_append find_None_iff)
  ultimately have "check_entries E chk key elem p (acc @ [e]) s m = Some r" using Cons.prems(2) q e by simp
  from Cons.IH [OF Cons.prems(1) this] show ?case using Cons.prems(3) by simp
qed simp

lemma plain_cases:
  assumes "plain_field_spec T = Some spec"
  obtains (base) name where "spec = base_check True name"
  | (optional) c where "spec = node ''optional'' [(''inner'', c)]"
  | (union) ms where "spec = node ''union'' [(''members'', VVec ms)]"
  | (vec) elem where "spec = node ''vec'' [(''elem'', elem), (''tagged'', VBool True)]"
  | (map) elem where "spec = node ''map'' [(''elem'', elem), (''tagged'', VBool True)]"
  | (keyed) elem key where "spec = node ''map'' [(''elem'', elem), (''tagged'', VBool True), (''key'', key)]"
  using assms by (cases T) (auto split: if_splits option.splits list.splits)

lemmas node_defs = node_def base_check_def view_of_def node_kind_def get_str_def spec_entry_def str_or_def is_tagged_node_def
  entry_or_null_def entry_vec_def

lemma plain_entries:
  assumes "plain_field_spec T = Some spec"
  shows "(case view_of spec of
      NVec elem tagged \<Rightarrow> tagged \<and> spec_entry spec ''elem'' = Some elem \<and> spec_entry spec ''key'' = None \<and>
        get_str spec ''kind'' = Some ''vec''
    | NMap elem key tagged \<Rightarrow> tagged \<and> spec_entry spec ''elem'' = Some elem \<and> spec_entry spec ''key'' = key \<and>
        get_str spec ''kind'' = Some ''map''
    | _ \<Rightarrow> spec_entry spec ''elem'' = None \<and> spec_entry spec ''key'' = None \<and>
        get_str spec ''kind'' \<noteq> Some ''vec'' \<and> get_str spec ''kind'' \<noteq> Some ''map'')"
  using assms by (cases rule: plain_cases) (simp_all add: node_defs)

text \<open>A value that the masks of a field's check let pass is one that the check would return as it is.\<close>

lemma any_mask: "get_str nd ''kind'' = Some ''any'' \<Longrightarrow> view_of nd = NAny"
  by (simp add: view_of_def node_kind_def)

lemma any_keeps: "view_of nd = NAny \<Longrightarrow> check_value n C s v nd p = Some r \<Longrightarrow> r = (Checked v, s)"
  by (cases n) (simp_all add: check_value.simps(2))

definition passes_check :: "('d, 'b) val \<Rightarrow> ('d, 'b) val \<Rightarrow> bool" where
  "passes_check v chk =
     (case chk of
        VVec [VInt kinds, VInt item_kinds, VInt key_kinds, spec] \<Rightarrow>
          passes_as_is v (word_of_int kinds) (word_of_int item_kinds) (word_of_int key_kinds)
      | _ \<Rightarrow> False)"

lemma vec_keeps:
  assumes "view_of spec = NVec elem tagged" "clear elem" "\<forall>x \<in> set xs. accepts x (spec_mask elem) \<and> \<not> is_err x"
    "check_value n C s (VVec xs) spec p = Some r"
  shows "r = (Checked (VVec xs), s)"
proof -
  obtain k where n: "n = Suc k" using assms(4) by (cases n) auto
  have "check_value k C t x elem q = Some u \<Longrightarrow> x \<in> set xs \<Longrightarrow> u = (Checked x, t)" for x t q u
    using clear_keeps [of elem x k C t q u] assms(2,3) by auto
  moreover obtain w where "check_items (check_value k C) elem p 0 [] s xs = Some w" "r = on_checked VVec w"
    using assms(1,4) n by (auto simp: check_value.simps(2) is_tagged_over_def)
  ultimately show ?thesis using items_keep [of xs "check_value k C" elem p 0 "[]" s w] by auto
qed

lemma map_keeps:
  assumes "view_of spec = NMap elem key tagged"
    and elem: "view_of elem = NAny \<or> clear elem \<and> (\<forall>e \<in> set m. accepts (snd e) (spec_mask elem) \<and> \<not> is_err (snd e))"
    and key: "\<And>kn. key = Some kn \<Longrightarrow> clear kn \<and> (\<forall>e \<in> set m. accepts (fst e) (spec_mask kn) \<and> \<not> is_err (fst e))"
    and "sorted_wrt (\<lambda>e e'. \<not> key_eq (ctx_env C) (fst e') (fst e)) m" "check_value n C s (VMap m) spec p = Some r"
  shows "r = (Checked (VMap m), s)"
proof -
  obtain k where n: "n = Suc k" using assms(5) by (cases n) auto
  let ?tagged = "tagged \<and> is_tagged_over (VMap m) (\<lambda>inner. case inner of VMap _ \<Rightarrow> True | _ \<Rightarrow> False)"
  show ?thesis
  proof (cases ?tagged)
    case True
    then show ?thesis using assms(1,5) n by (simp add: check_value.simps(2))
  next
    case False
    then obtain w where w: "check_entries (ctx_env C) (check_value k C) key elem p [] s m = Some w" "r = on_checked VMap w"
      using assms(1,5) n by (auto simp: check_value.simps(2))
    have "u = (Checked e, t)" if "e \<in> set m"
      "check_map_entry (ctx_env C) (check_value k C) t (fst e) (snd e) key elem q = Some u" for e t q u
    proof -
      have "x = (Checked (fst e), t')" if "key = Some kn" "check_value k C t' (fst e) kn q' = Some x" for kn t' q' x
        using clear_keeps [OF _ _ _ that(2)] key [OF that(1)] \<open>e \<in> set m\<close> by simp
      moreover have "x = (Checked (snd e), t')" if "check_value k C t' (snd e) elem q' = Some x" for t' q' x
        using elem clear_keeps [OF _ _ _ that] any_keeps [OF _ that] \<open>e \<in> set m\<close> by blast
      ultimately have "u = (Checked (fst e, snd e), t)" using that(2) by (rule entry_keeps)
      then show ?thesis by simp
    qed
    from entries_keep [OF this w(1)] show ?thesis using assms(4) w(2) by simp
  qed
qed

lemma fast_keeps:
  assumes T: "plain_field_spec T = Some spec" and st: "settled spec" and ap: "keys_apart (ctx_env C) v"
    and pass: "passes_check v (field_check spec)" and c: "check_value n C s v spec p = Some r"
  shows "r = (Checked v, s)"
proof -
  note ents = plain_entries [OF T]
  note pass' = pass [unfolded passes_check_def field_check_def Let_def passes_as_is_def]
  consider (vec) elem tagged where "view_of spec = NVec elem tagged"
    | (map) elem key tagged where "view_of spec = NMap elem key tagged"
    | (flat) "clear spec" "spec_entry spec ''elem'' = None" "spec_entry spec ''key'' = None"
        "get_str spec ''kind'' \<noteq> Some ''vec''" "get_str spec ''kind'' \<noteq> Some ''map''"
    using st ents by (cases "view_of spec") (auto simp: settled_def)
  then show ?thesis
  proof cases
    case flat
    then have "accepts v (spec_mask spec)" "\<not> is_err v" using pass' by (auto split: if_splits)
    then show ?thesis using clear_keeps [OF flat(1) _ _ c] by blast
  next
    case vec
    then have e: "spec_entry spec ''elem'' = Some elem" "spec_entry spec ''key'' = None" "get_str spec ''kind'' = Some ''vec''"
      "spec_mask spec = 0" using ents by (auto simp: spec_mask_view [of spec])
    have nz: "spec_mask elem \<noteq> 0" and "accepts v K_VEC" using pass' e by (auto simp: accepts_iff split: if_splits)
    then obtain xs where v: "v = VVec xs" by (cases v) (auto simp: accepts_def kind_defs)
    have "\<forall>x \<in> set xs. accepts x (spec_mask elem) \<and> \<not> is_err x"
      using pass' e nz v by (auto simp: list_all_iff split: if_splits)
    then show ?thesis using vec_keeps [OF vec _ _ c [unfolded v]] st vec v by (simp add: settled_def)
  next
    case map
    then have e: "spec_entry spec ''elem'' = Some elem" "spec_entry spec ''key'' = key" "get_str spec ''kind'' = Some ''map''"
      "spec_mask spec = 0" using ents by (auto simp: spec_mask_view [of spec])
    have a: "accepts v K_MAP" and iz: "view_of elem = NAny \<or> spec_mask elem \<noteq> 0" and kz: "key = Some kn \<Longrightarrow> spec_mask kn \<noteq> 0" for kn
      using pass' e any_mask by (auto simp: accepts_iff split: if_splits option.splits)
    from a obtain m where v: "v = VMap m" by (cases v) (auto simp: accepts_def kind_defs)
    have "spec_mask elem \<noteq> 0 \<Longrightarrow> \<forall>x \<in> set m. accepts (snd x) (spec_mask elem) \<and> \<not> is_err (snd x)"
      and "key = Some kn \<Longrightarrow> \<forall>x \<in> set m. accepts (fst x) (spec_mask kn) \<and> \<not> is_err (fst x)" for kn
      using pass' e kz v by (auto simp: list_all_iff split: if_splits)
    then show ?thesis unfolding v using st map iz ap v
      by (intro map_keeps [OF map _ _ _ c [unfolded v]]) (auto simp: settled_def keys_apart_def)
  qed
qed

section \<open>The fast path\<close>

text \<open>The check of a constructor without its fast path.\<close>

definition check_in_full :: "nat \<Rightarrow> ('d, 'b) ctx \<Rightarrow> vm \<Rightarrow> ('d, 'b) val \<Rightarrow> ('d, 'b) val \<Rightarrow> ('d, 'b) val list \<Rightarrow>
    string \<Rightarrow> ((string + (('d, 'b) val + ('d, 'b) val)) \<times> vm) option" where
  "check_in_full n C s v spec path type_name =
     map_option (\<lambda>(r, s').
       (case r of
          VmErr e \<Rightarrow> Inl e
        | Checked w \<Rightarrow> Inr (Inr w)
        | Failed f \<Rightarrow> Inr (Inl (constraint_error (ctx_env C) f (constructor_boundary type_name))), s'))
       (check_value n C s v spec path)"

lemma check_constructed_cases:
  "check_constructed n C s v (field_check spec) path t =
     (if passes_check v (field_check spec) then Some (Inr (Inr v), s) else check_in_full n C s v spec path t)"
  by (auto simp: check_constructed_def field_check_def Let_def passes_check_def check_in_full_def
      split: option.split prod.split checked.split)

text \<open>C4. The fast path of a constructor is an optimisation: for every built-in field type in which a number is
  not left to choose between an integer and a decimal, checking a field with its masks gives the same result
  and the same state as the full check of the value against the type.\<close>
theorem fast_path_agrees:
  assumes "ctx_specs C = spec_table table" "ctx_cycles C = spec_cycles (spec_table table)"
    and "plain_field_spec T = Some spec" "settled spec" "keys_apart (ctx_env C) v"
  shows "\<exists>n. \<forall>m \<ge> n. check_constructed m C s v (field_check spec) path t = check_in_full m C s v spec path t"
proof (cases "passes_check v (field_check spec)")
  case True
  have "ends C v spec" using all_end [of C v spec] assms(1,2) spec_table_wf [of table] by simp
  from endsD [OF this] obtain n r where n: "check_value n C s v spec path = Some r" by blast
  have "r = (Checked v, s)" by (rule fast_keeps [OF assms(3-5) True n])
  then have "check_value m C s v spec path = Some (Checked v, s)" if "n \<le> m" for m
    using check_value_mono [OF that n] by simp
  then show ?thesis using True by (auto simp: check_constructed_cases check_in_full_def intro!: exI [of _ n])
qed (simp add: check_constructed_cases)

text \<open>An example: a field of type \<^verbatim>\<open>Map<Str, Int | Null>\<close>.\<close>

definition count_elem :: "(int, unit) val" where
  "count_elem = node ''union'' [(''members'', VVec [base_check True ''Int'', base_check True ''Null''])]"

definition counts_spec :: "(int, unit) val" where
  "counts_spec = node ''map'' [(''elem'', count_elem), (''tagged'', VBool True), (''key'', base_check True ''Str'')]"

lemma base_check_view: "view_of (base_check True name) = NBase name True"
  by (simp add: node_defs)

lemma counts_settled: "settled counts_spec"
proof -
  have v: "view_of counts_spec = NMap count_elem (Some (base_check True ''Str'')) True"
    "view_of count_elem = NUnion [base_check True ''Int'', base_check True ''Null'']"
    by (simp_all add: counts_spec_def count_elem_def node_defs)
  have "flat count_elem" by (rule flat_union [OF v(2)]) (auto intro: flat_base [OF base_check_view])
  moreover have "spec_mask count_elem AND K_DEC = 0"
    using v(2) by (simp add: spec_mask_view [of count_elem] spec_mask_view [of "base_check True name" for name]
        base_check_view base_mask_def kind_defs)
  moreover have "clear (base_check True ''Str'' :: (int, unit) val)"
    by (auto simp: clear_def spec_mask_view [of "base_check True name" for name] base_check_view base_mask_def kind_defs
        intro: flat_base [OF base_check_view])
  ultimately show ?thesis using v by (simp add: settled_def clear_def)
qed

theorem fast_path_agrees_witness:
  "\<exists>m. check_constructed m (pure_ctx [] (\<lambda>_ _. VBool True)) idle_vm (VMap [(VStr ''a'', VInt 1)]) (field_check counts_spec) [] ''T'' =
       check_in_full m (pure_ctx [] (\<lambda>_ _. VBool True)) idle_vm (VMap [(VStr ''a'', VInt 1)]) counts_spec [] ''T''"
proof -
  let ?C = "pure_ctx [] (\<lambda>_ _. VBool True)"
  have T: "plain_field_spec (TGeneric ''Map'' [TBuiltin BStr, TUnion [TBuiltin BInt, TBuiltin BNull]]) = Some counts_spec"
    by (simp add: counts_spec_def count_elem_def)
  have "\<exists>n. \<forall>m \<ge> n. check_constructed m ?C idle_vm (VMap [(VStr ''a'', VInt 1)]) (field_check counts_spec) [] ''T'' =
      check_in_full m ?C idle_vm (VMap [(VStr ''a'', VInt 1)]) counts_spec [] ''T''"
    by (rule fast_path_agrees [OF _ _ T counts_settled]) (simp_all add: pure_ctx_def keys_apart_def)
  then show ?thesis by blast
qed

text \<open>
  With a number left to choose, the fast path and the check differ: a field of type \<^verbatim>\<open>Vec<Dec | Int>\<close> keeps
  the integer 5 when all elements are plain numbers, but stores the decimal 5.0 when another element is a
  tagged value, because then every element takes the check and the check tries \<^verbatim>\<open>Dec\<close> first.
\<close>
theorem number_choice_depends_on_siblings:
  "\<exists>spec. plain_field_spec (TGeneric ''Vec'' [TUnion [TBuiltin BDec, TBuiltin BInt]]) = Some spec \<and>
     check_constructed 4 (pure_ctx [] (\<lambda>_ _. VBool True)) idle_vm (VVec [VInt 5]) (field_check spec) [] ''T'' =
       Some (Inr (Inr (VVec [VInt 5])), idle_vm) \<and>
     check_constructed 4 (pure_ctx [] (\<lambda>_ _. VBool True)) idle_vm
         (VVec [VInt 5, VMap [(VStr ''$type'', VStr ''::t/Port''), (VStr ''$val'', VInt 80)]]) (field_check spec) [] ''T'' =
       Some (Inr (Inr (VVec [VDec 50, VMap [(VStr ''$type'', VStr ''::t/Port''), (VStr ''$val'', VInt 80)]])), idle_vm)"
proof -
  let ?elem = "node ''union'' [(''members'', VVec [base_check True ''Dec'', base_check True ''Int''])] :: (int, unit) val"
  let ?spec = "node ''vec'' [(''elem'', ?elem), (''tagged'', VBool True)]"
  have views: "view_of ?spec = NVec ?elem True" "view_of ?elem = NUnion [base_check True ''Dec'', base_check True ''Int'']"
    "spec_entry ?spec ''elem'' = Some ?elem" "spec_entry ?spec ''key'' = None" "get_str ?spec ''kind'' = Some ''vec''"
    "get_str ?elem ''kind'' \<noteq> Some ''any''"
    by (simp_all add: node_defs)
  have "spec_mask ?elem = 12"
    using views(2) by (simp add: spec_mask_view [of ?elem] spec_mask_view [of "base_check True name" for name]
        base_check_view base_mask_def kind_defs)
  then have f: "field_check ?spec = VVec [VInt 32, VInt 12, VInt 0, ?spec]"
    using views(3-6) by (simp add: field_check_def Let_def kind_defs)
  have env: "ctx_env (pure_ctx t g) = tenths_env" for t g by (simp add: pure_ctx_def)
  let ?C = "pure_ctx [] (\<lambda>_ _. VBool True)"
  let ?port = "VMap [(VStr ''$type'', VStr ''::t/Port''), (VStr ''$val'', VInt 80)] :: (int, unit) val"
  have "check_value 4 ?C idle_vm (VVec [VInt 5, ?port]) ?spec [] = Some (Checked (VVec [VDec 50, ?port]), idle_vm)"
    by (simp add: is_err_def has_type_def tagged_type_name_def eval_nat_numeral check_value.simps(2) views(1,2) base_check_view
        is_tagged_over_def check_tagged_base_def check_base_def base_value_def base_matches_def env)
  moreover have "passes_as_is (VVec [VInt 5] :: (int, unit) val) 32 12 0" "\<not> passes_as_is (VVec [VInt 5, ?port]) 32 12 0"
    by (simp_all add: passes_as_is_def Let_def accepts_def kind_defs is_err_def has_type_def)
  ultimately show ?thesis by (intro exI [of _ ?spec]) (simp add: check_constructed_def f)
qed

end
