(* ===== verification/Hot_Permission.thy ===== *)
theory Hot_Permission
  imports Hot_Prelude
begin

text \<open>
  The permission model, \<^verbatim>\<open>crates/hot/src/permission.rs\<close>: resource URNs and their matching
  (\<open>resource_matches\<close>), permission sets (\<open>permissions\<close>), validation, the check that a child
  set does not exceed its parent (\<open>validate_subset_of\<close>) and the intersection of two sets.

  The \<^verbatim>\<open>uuid\<close> crate is not part of the repository. It is the parameter \<open>canon\<close> of the
  definitions below: \<open>canon s\<close> stands for parsing \<open>s\<close> with \<^verbatim>\<open>Uuid::parse_str\<close> and printing
  the result with \<^verbatim>\<open>hyphenated().to_string()\<close>, \<open>None\<close> when \<open>s\<close> does not parse.

  The lemmas show what a grant covers: matching is transitive on patterns whose only
  wildcard is the last character, so a validated child set never grants what its parent
  does not, and the intersection grants exactly what both sets grant. Patterns with an
  earlier wildcard break this, which the last section proves.
\<close>

section \<open>Actions and resource types\<close>

definition CREATE :: string where "CREATE = ''create''"
definition READ :: string where "READ = ''read''"
definition UPDATE :: string where "UPDATE = ''update''"
definition DELETE :: string where "DELETE = ''delete''"
definition EXECUTE :: string where "EXECUTE = ''execute''"
definition WILDCARD :: string where "WILDCARD = ''*''"

definition actions_ALL :: "string list" where
  "actions_ALL = [CREATE, READ, UPDATE, DELETE, EXECUTE]"

definition is_valid :: "string \<Rightarrow> bool" where
  "is_valid action \<longleftrightarrow>
     action \<in> {CREATE, READ, UPDATE, DELETE, EXECUTE, WILDCARD}"

lemmas action_names = CREATE_def READ_def UPDATE_def DELETE_def EXECUTE_def WILDCARD_def

definition SERVICE_KEY_ALLOWED :: "string list" where
  "SERVICE_KEY_ALLOWED = [''mcp'', ''webhook'', ''stream'', ''event'', ''run'']"

definition resource_types_ALL :: "string list" where
  "resource_types_ALL =
     [''mcp'', ''webhook'', ''stream'', ''event'', ''run'', ''call'', ''project'', ''build'',
      ''context'', ''key'', ''session'', ''env'', ''file'', ''blob'', ''domain'']"

definition is_known :: "string \<Rightarrow> bool" where
  "is_known resource_type \<longleftrightarrow> resource_type \<in> set resource_types_ALL"

definition valid_actions :: "string \<Rightarrow> string list option" where
  "valid_actions resource_type =
     (if resource_type = ''mcp'' then Some [EXECUTE]
      else if resource_type = ''webhook'' then Some [EXECUTE]
      else if resource_type = ''stream'' then Some [READ]
      else if resource_type = ''event'' then Some [CREATE, READ]
      else if resource_type = ''run'' then Some [READ]
      else if resource_type = ''call'' then Some [DELETE]
      else if resource_type = ''project'' then Some [CREATE, READ, UPDATE, DELETE]
      else if resource_type = ''build'' then Some [CREATE, READ, EXECUTE]
      else if resource_type = ''context'' then Some [CREATE, READ, UPDATE, DELETE]
      else if resource_type = ''key'' then Some [CREATE, READ, UPDATE, DELETE]
      else if resource_type = ''session'' then Some [CREATE, READ, DELETE]
      else if resource_type = ''env'' then Some [READ]
      else if resource_type = ''file'' then Some [CREATE, READ, DELETE]
      else if resource_type = ''blob'' then Some [READ]
      else if resource_type = ''domain'' then Some [CREATE, READ, UPDATE, DELETE]
      else if resource_type = ''api-key'' then Some [CREATE, READ, UPDATE, DELETE]
      else if resource_type = ''usage'' then Some [READ]
      else None)"

section \<open>Resource URNs\<close>

definition parse_resource_type :: "string \<Rightarrow> string option" where
  "parse_resource_type urn =
     (if urn = ''*:*'' then Some ''*''
      else case split_once CHR '':'' urn of
        None \<Rightarrow> None
      | Some (resource_type, path) \<Rightarrow>
          (if resource_type = [] \<or> resource_type = ''*'' then None
           else if path = [] then None
           else if \<not> list_all (\<lambda>c. is_ascii_alphanumeric c \<or> c = CHR ''-'') resource_type
           then None
           else Some resource_type))"

record qualified_urn =
  q_org :: string
  q_env :: "string option"
  q_inner :: "string option"

definition is_selector :: "(string \<Rightarrow> string option) \<Rightarrow> string \<Rightarrow> bool" where
  "is_selector canon segment \<longleftrightarrow> segment = ''*'' \<or> canon segment = Some segment"

definition parse_qualified :: "(string \<Rightarrow> string option) \<Rightarrow> string \<Rightarrow> qualified_urn option" where
  "parse_qualified canon urn =
     (case strip_prefix urn ''org:'' of
        None \<Rightarrow> None
      | Some rest0 \<Rightarrow>
          (let (org, rest) = (case split_once CHR ''/'' rest0 of
                 Some (org, rest) \<Rightarrow> (org, Some rest)
               | None \<Rightarrow> (rest0, None))
           in if \<not> is_selector canon org then None
              else case rest of
                None \<Rightarrow> Some \<lparr>q_org = org, q_env = None, q_inner = None\<rparr>
              | Some rest \<Rightarrow>
                  (case strip_prefix rest ''env:'' of
                     Some env_rest \<Rightarrow>
                       (let (env, inner) = (case split_once CHR ''/'' env_rest of
                              Some (env, inner) \<Rightarrow> (env, Some inner)
                            | None \<Rightarrow> (env_rest, None))
                        in if \<not> is_selector canon env \<or> inner = Some [] then None
                           else Some \<lparr>q_org = org, q_env = Some env, q_inner = inner\<rparr>)
                   | None \<Rightarrow>
                       (if rest = [] then None
                        else Some \<lparr>q_org = org, q_env = None, q_inner = Some rest\<rparr>))))"

definition selector_matches :: "string \<Rightarrow> string \<Rightarrow> bool" where
  "selector_matches pattern segment \<longleftrightarrow> pattern = ''*'' \<or> pattern = segment"

text \<open>
  The inner URN of a qualified URN is a proper suffix of it, so the mutual recursion of
  \<open>resource_matches\<close> and \<open>qualified_matches\<close> ends.
\<close>

lemma parse_qualified_inner_length:
  assumes "parse_qualified canon urn = Some q" "q_inner q = Some inner"
  shows "length inner < length urn"
proof -
  from assms(1) obtain r0 where r0: "urn = ''org:'' @ r0"
    by (auto simp: parse_qualified_def str_simps split: option.splits)
  from assms show ?thesis
    unfolding parse_qualified_def r0
    by (auto simp: Let_def str_simps split: option.splits prod.splits if_splits)
qed

function (sequential) resource_matches ::
    "(string \<Rightarrow> string option) \<Rightarrow> string \<Rightarrow> string \<Rightarrow> bool"
  and qualified_matches ::
    "(string \<Rightarrow> string option) \<Rightarrow> qualified_urn \<Rightarrow> qualified_urn \<Rightarrow> bool" where
  "resource_matches canon pattern resource =
     (if starts_with pattern ''org:'' \<or> starts_with resource ''org:'' then
        (case (parse_qualified canon pattern, parse_qualified canon resource) of
           (Some p, Some r) \<Rightarrow> qualified_matches canon p r
         | _ \<Rightarrow> False)
      else if pattern = ''*:*'' then True
      else if pattern = resource then True
      else case strip_suffix_char pattern CHR ''*'' of
        Some pre \<Rightarrow> starts_with resource pre
      | None \<Rightarrow> False)"
| "qualified_matches canon pattern resource =
     (selector_matches (q_org pattern) (q_org resource) \<and>
      (case (q_env pattern, q_env resource) of
         (None, None) \<Rightarrow> True
       | (Some p, Some r) \<Rightarrow> selector_matches p r
       | _ \<Rightarrow> False) \<and>
      (case (q_inner pattern, q_inner resource) of
         (None, None) \<Rightarrow> True
       | (Some p, Some r) \<Rightarrow> resource_matches canon p r
       | _ \<Rightarrow> False))"
  by pat_completeness auto
termination
  by (relation "measure (\<lambda>x. case x of
        Inl (_, p, _) \<Rightarrow> Suc (2 * length p)
      | Inr (_, q, _) \<Rightarrow> (case q_inner q of None \<Rightarrow> 0 | Some i \<Rightarrow> 2 * length i + 2))")
    (fastforce split: option.splits dest: sym [of "Some _"] parse_qualified_inner_length)+

declare resource_matches.simps [simp del] qualified_matches.simps [simp del]

definition ENTITY_ACTIONS :: "string list" where
  "ENTITY_ACTIONS = [CREATE, READ, UPDATE]"

definition urn_valid_actions :: "(string \<Rightarrow> string option) \<Rightarrow> string \<Rightarrow> string list option" where
  "urn_valid_actions canon urn =
     (case parse_qualified canon urn of
        Some q \<Rightarrow>
          (case q_inner q of
             None \<Rightarrow> Some ENTITY_ACTIONS
           | Some inner \<Rightarrow>
               (case parse_resource_type inner of
                  None \<Rightarrow> None
                | Some resource_type \<Rightarrow>
                    (if resource_type = ''*'' then None else valid_actions resource_type)))
      | None \<Rightarrow> Option.bind (parse_resource_type urn) valid_actions)"

definition action_matches :: "string list \<Rightarrow> string \<Rightarrow> bool" where
  "action_matches action_list required \<longleftrightarrow>
     list_ex (\<lambda>a. a = WILDCARD \<or> a = required) action_list"

section \<open>Permission sets\<close>

text \<open>\<^verbatim>\<open>Permissions(HashMap<String, Vec<String>>)\<close>; distinct keys, in iteration order.\<close>

type_synonym permissions = "(string \<times> string list) list"

datatype permission_error =
    InvalidAction string
  | InvalidResource string
  | EmptyActionList string
  | ActionNotValidForResource string string "string list"
  | DisallowedResourceType string "string list"
  | WrongScope string string
  | Escalation string string
  | JsonError string

text \<open>\<^verbatim>\<open>PartialEq for Permissions\<close>: grants compare as sets.\<close>

definition permissions_eq :: "permissions \<Rightarrow> permissions \<Rightarrow> bool" where
  "permissions_eq self other \<longleftrightarrow>
     length self = length other \<and>
     list_all (\<lambda>(resource, acts).
       case im_get other resource of
         None \<Rightarrow> False
       | Some other_acts \<Rightarrow>
           list_all (\<lambda>a. a \<in> set other_acts) acts \<and> list_all (\<lambda>a. a \<in> set acts) other_acts)
     self"

definition has_permission ::
    "(string \<Rightarrow> string option) \<Rightarrow> permissions \<Rightarrow> string \<Rightarrow> string \<Rightarrow> bool" where
  "has_permission canon self resource action \<longleftrightarrow>
     list_ex (\<lambda>(pattern, action_list).
       resource_matches canon pattern resource \<and> action_matches action_list action) self"

definition has_stream_read :: "(string \<Rightarrow> string option) \<Rightarrow> permissions \<Rightarrow> string \<Rightarrow> bool" where
  "has_stream_read canon self stream_id = has_permission canon self (''stream:'' @ stream_id) READ"

definition stream_restrictions ::
    "(string \<Rightarrow> string option) \<Rightarrow> permissions \<Rightarrow> string list option" where
  "stream_restrictions canon self =
     (if has_permission canon self ''stream:__any__check__'' READ then None
      else Some (concat (map (\<lambda>(pattern, action_list).
        if action_matches action_list READ \<and> parse_resource_type pattern = Some ''stream'' then
          (let path = drop 7 pattern in if CHR ''*'' \<notin> set path then [path] else [])
        else []) self)))"

text \<open>
  The grants of a pair of entries in \<open>intersection\<close>: the narrower pattern, with the actions
  both allow. \<open>push_new\<close> is the inner loop that pushes the actions an entry lacks.
\<close>

fun push_new :: "string list \<Rightarrow> string list \<Rightarrow> string list" where
  "push_new entry [] = entry"
| "push_new entry (action # rest) =
     push_new (if action \<in> set entry then entry else entry @ [action]) rest"

definition entry_push :: "string \<Rightarrow> string list \<Rightarrow> permissions \<Rightarrow> permissions" where
  "entry_push resource acts grants =
     im_insert resource
       (push_new (case im_get grants resource of None \<Rightarrow> [] | Some e \<Rightarrow> e) acts) grants"

definition sort_actions :: "permissions \<Rightarrow> permissions" where
  "sort_actions grants = map (\<lambda>(resource, acts). (resource, sort acts)) grants"

definition allowed_actions :: "string list \<Rightarrow> string list \<Rightarrow> string list" where
  "allowed_actions left_actions right_actions =
     (if WILDCARD \<in> set left_actions \<and> WILDCARD \<in> set right_actions then [WILDCARD]
      else filter (\<lambda>a. action_matches left_actions a \<and> action_matches right_actions a) actions_ALL)"

definition intersect_pair :: "(string \<Rightarrow> string option) \<Rightarrow> string \<times> string list \<Rightarrow>
    string \<times> string list \<Rightarrow> permissions \<Rightarrow> permissions" where
  "intersect_pair canon l r grants =
     (case (if resource_matches canon (fst l) (fst r) then Some (fst r)
            else if resource_matches canon (fst r) (fst l) then Some (fst l)
            else None) of
        None \<Rightarrow> grants
      | Some resource \<Rightarrow>
          (let allowed = allowed_actions (snd l) (snd r)
           in if allowed = [] then grants else entry_push resource allowed grants))"

definition intersection ::
    "(string \<Rightarrow> string option) \<Rightarrow> permissions \<Rightarrow> permissions \<Rightarrow> permissions" where
  "intersection canon self other =
     sort_actions (fold (\<lambda>l grants. fold (\<lambda>r. intersect_pair canon l r) other grants) self [])"

section \<open>Validation\<close>

fun validate_actions ::
    "string \<Rightarrow> string \<Rightarrow> string list \<Rightarrow> permission_error + unit" where
  "validate_actions resource resource_type [] = Inr ()"
| "validate_actions resource resource_type (action # rest) =
     (if action = [] then Inl (InvalidAction [])
      else if \<not> is_valid action then Inl (InvalidAction action)
      else if action = WILDCARD then validate_actions resource resource_type rest
      else if resource_type = ''*'' then validate_actions resource resource_type rest
      else case valid_actions resource_type of
        Some valid \<Rightarrow>
          (if action \<notin> set valid then Inl (ActionNotValidForResource action resource valid)
           else validate_actions resource resource_type rest)
      | None \<Rightarrow> validate_actions resource resource_type rest)"

fun validate :: "permissions \<Rightarrow> permission_error + unit" where
  "validate [] = Inr ()"
| "validate ((resource, action_list) # rest) =
     (if resource = [] then Inl (InvalidResource resource)
      else case parse_resource_type resource of
        None \<Rightarrow> Inl (InvalidResource resource)
      | Some resource_type \<Rightarrow>
          (if resource_type = ''org'' then Inl (WrongScope resource ''env'')
           else if action_list = [] then Inl (EmptyActionList resource)
           else case validate_actions resource resource_type action_list of
             Inl e \<Rightarrow> Inl e
           | Inr _ \<Rightarrow> validate rest))"

fun validate_resource_types :: "string list \<Rightarrow> permissions \<Rightarrow> permission_error + unit" where
  "validate_resource_types allowed [] = Inr ()"
| "validate_resource_types allowed ((resource, _) # rest) =
     (case parse_resource_type resource of
        None \<Rightarrow> Inl (InvalidResource resource)
      | Some resource_type \<Rightarrow>
          (if resource_type = ''*'' \<or> resource_type \<notin> set allowed
           then Inl (DisallowedResourceType resource_type allowed)
           else validate_resource_types allowed rest))"

text \<open>
  \<^verbatim>\<open>validate_subset_of\<close>: a wildcard action is checked as every action valid for the
  resource, any other action as itself.
\<close>

fun subset_check_each ::
    "(string \<Rightarrow> string option) \<Rightarrow> permissions \<Rightarrow> string \<Rightarrow> string list \<Rightarrow> permission_error + unit" where
  "subset_check_each canon parent resource [] = Inr ()"
| "subset_check_each canon parent resource (va # rest) =
     (if \<not> has_permission canon parent resource va then Inl (Escalation resource va)
      else subset_check_each canon parent resource rest)"

fun subset_check_actions ::
    "(string \<Rightarrow> string option) \<Rightarrow> permissions \<Rightarrow> string \<Rightarrow> string list \<Rightarrow> permission_error + unit" where
  "subset_check_actions canon parent resource [] = Inr ()"
| "subset_check_actions canon parent resource (action # rest) =
     (if action = WILDCARD then
        (case subset_check_each canon parent resource
                (case urn_valid_actions canon resource of None \<Rightarrow> actions_ALL | Some v \<Rightarrow> v) of
           Inl e \<Rightarrow> Inl e
         | Inr _ \<Rightarrow> subset_check_actions canon parent resource rest)
      else if \<not> has_permission canon parent resource action then Inl (Escalation resource action)
      else subset_check_actions canon parent resource rest)"

fun validate_subset_of ::
    "(string \<Rightarrow> string option) \<Rightarrow> permissions \<Rightarrow> permissions \<Rightarrow> permission_error + unit" where
  "validate_subset_of canon [] parent = Inr ()"
| "validate_subset_of canon ((resource, action_list) # rest) parent =
     (case subset_check_actions canon parent resource action_list of
        Inl e \<Rightarrow> Inl e
      | Inr _ \<Rightarrow> validate_subset_of canon rest parent)"

section \<open>What a pattern covers\<close>

lemma parse_qualified_org: "parse_qualified canon u = Some q \<Longrightarrow> starts_with u ''org:''"
  by (auto simp: parse_qualified_def strip_prefix_def split: option.splits if_splits)

lemma resource_matches_org:
  assumes "starts_with p ''org:'' \<or> starts_with r ''org:''"
  shows "resource_matches canon p r \<longleftrightarrow>
     (\<exists>qp qr. parse_qualified canon p = Some qp \<and> parse_qualified canon r = Some qr \<and>
        qualified_matches canon qp qr)"
  using assms by (auto simp: resource_matches.simps split: option.splits)

lemma resource_matches_plain:
  assumes "\<not> starts_with p ''org:''" "\<not> starts_with r ''org:''"
  shows "resource_matches canon p r \<longleftrightarrow>
     p = ''*:*'' \<or> p = r \<or> (\<exists>pre. p = pre @ ''*'' \<and> starts_with r pre)"
  using assms
  by (auto simp: resource_matches.simps strip_suffix_char_Some_iff strip_suffix_char_None_iff
      split: option.splits)

text \<open>Matching never relates a qualified and an unqualified URN.\<close>

lemma resource_matches_same_scope:
  "resource_matches canon p r \<Longrightarrow> starts_with p ''org:'' \<longleftrightarrow> starts_with r ''org:''"
proof -
  assume m: "resource_matches canon p r"
  show ?thesis
  proof (cases "starts_with p ''org:'' \<or> starts_with r ''org:''")
    case True
    with m obtain qp qr where "parse_qualified canon p = Some qp" "parse_qualified canon r = Some qr"
      by (auto simp: resource_matches_org)
    then show ?thesis by (simp add: parse_qualified_org)
  next
    case False
    then show ?thesis by simp
  qed
qed

text \<open>
  A simple pattern is \<open>*:*\<close>, or has no wildcard before its last character; a qualified
  pattern is simple when its inner URN is.
\<close>

function simple_pattern :: "(string \<Rightarrow> string option) \<Rightarrow> string \<Rightarrow> bool" where
  "simple_pattern canon p =
     (case parse_qualified canon p of
        Some q \<Rightarrow> (case q_inner q of None \<Rightarrow> True | Some i \<Rightarrow> simple_pattern canon i)
      | None \<Rightarrow> p = ''*:*'' \<or> CHR ''*'' \<notin> set (butlast p))"
  by pat_completeness auto
termination
  by (relation "measure (\<lambda>(_, p). length p)")
    (fastforce dest: sym [of "Some _"] parse_qualified_inner_length)+

declare simple_pattern.simps [simp del]

lemma simple_pattern_inner:
  "simple_pattern canon p \<Longrightarrow> parse_qualified canon p = Some q \<Longrightarrow> q_inner q = Some i \<Longrightarrow>
     simple_pattern canon i"
  by (simp add: simple_pattern.simps [of canon p])

lemma simple_pattern_plain:
  "simple_pattern canon p \<Longrightarrow> \<not> starts_with p ''org:'' \<Longrightarrow> p = ''*:*'' \<or> CHR ''*'' \<notin> set (butlast p)"
  by (auto simp: simple_pattern.simps [of canon p] dest: parse_qualified_org split: option.splits)

lemma prefix_of_wildcard:
  assumes "starts_with (q @ ''*'') p" "CHR ''*'' \<notin> set p"
  shows "starts_with q p"
proof -
  from assms(1) obtain r where r: "q @ ''*'' = p @ r" by (auto simp: starts_with_iff)
  show ?thesis
  proof (cases r rule: rev_cases)
    case Nil
    with r have "CHR ''*'' \<in> set p" by (auto simp flip: r)
    with assms(2) show ?thesis by simp
  next
    case (snoc r' x)
    with r show ?thesis by (auto simp: starts_with_iff)
  qed
qed

lemma resource_matches_trans_plain:
  assumes p: "\<not> starts_with p ''org:''" "simple_pattern canon p"
    and pq: "resource_matches canon p q" and qr: "resource_matches canon q r"
  shows "resource_matches canon p r"
proof -
  have scope: "\<not> starts_with q ''org:''" "\<not> starts_with r ''org:''"
    using p(1) resource_matches_same_scope [OF pq] resource_matches_same_scope [OF qr] by simp_all
  note plain = resource_matches_plain [OF p(1) scope(2)]
  have pq': "p = ''*:*'' \<or> p = q \<or> (\<exists>pre. p = pre @ ''*'' \<and> starts_with q pre)"
    using pq unfolding resource_matches_plain [OF p(1) scope(1)] .
  have qr': "q = ''*:*'' \<or> q = r \<or> (\<exists>pre. q = pre @ ''*'' \<and> starts_with r pre)"
    using qr unfolding resource_matches_plain [OF scope] .
  consider "p = ''*:*''" | "p = q" | pre where "p = pre @ ''*''" "p \<noteq> ''*:*''" "starts_with q pre"
    using pq' by blast
  then show ?thesis
  proof cases
    case 1
    then show ?thesis unfolding plain by blast
  next
    case 2
    with qr show ?thesis by simp
  next
    case (3 pre)
    have "p = ''*:*'' \<or> CHR ''*'' \<notin> set (butlast p)" using p(2,1) by (rule simple_pattern_plain)
    with 3 have pre: "CHR ''*'' \<notin> set pre" by simp
    have "starts_with r pre"
      using qr'
    proof (elim disjE exE conjE)
      assume "q = ''*:*''"
      with 3(3) pre have "pre = []" by (cases pre) (simp_all add: starts_with_def)
      then show ?thesis by simp
    next
      assume "q = r"
      with 3(3) show ?thesis by simp
    next
      fix pre'
      assume pre': "q = pre' @ ''*''" "starts_with r pre'"
      with 3(3) pre have "starts_with pre' pre" by (simp add: prefix_of_wildcard)
      with pre'(2) show ?thesis by (rule starts_with_trans)
    qed
    with 3(1) show ?thesis unfolding plain by blast
  qed
qed

lemma resource_matches_trans:
  "simple_pattern canon p \<Longrightarrow> resource_matches canon p q \<Longrightarrow> resource_matches canon q r \<Longrightarrow>
     resource_matches canon p r"
proof (induction "length p" arbitrary: p q r rule: less_induct)
  case less
  show ?case
  proof (cases "starts_with p ''org:''")
    case False
    with less.prems show ?thesis by (blast intro: resource_matches_trans_plain)
  next
    case True
    then have org: "starts_with q ''org:''" "starts_with r ''org:''"
      using resource_matches_same_scope [OF less.prems(2)]
        resource_matches_same_scope [OF less.prems(3)] by simp_all
    from less.prems(2,3) True org obtain a b c where
      abc: "parse_qualified canon p = Some a" "parse_qualified canon q = Some b"
        "parse_qualified canon r = Some c"
      and m: "qualified_matches canon a b" "qualified_matches canon b c"
      by (auto simp: resource_matches_org)
    have inner: "resource_matches canon i k"
      if "q_inner a = Some i" "q_inner b = Some j" "q_inner c = Some k" for i j k
    proof (rule less.hyps)
      show "length i < length p" using abc(1) that(1) by (rule parse_qualified_inner_length)
      show "simple_pattern canon i" using less.prems(1) abc(1) that(1) by (rule simple_pattern_inner)
      show "resource_matches canon i j" "resource_matches canon j k"
        using m that by (auto simp: qualified_matches.simps)
    qed
    have "qualified_matches canon a c"
      using m inner
      by (auto simp: qualified_matches.simps selector_matches_def split: option.splits)
    with abc org show ?thesis by (auto simp: resource_matches_org)
  qed
qed

text \<open>Two unqualified patterns that share a resource are comparable.\<close>

lemma overlapping_patterns:
  assumes "\<not> starts_with l ''org:''" "\<not> starts_with m ''org:''" "\<not> starts_with r ''org:''"
    and lr: "resource_matches canon l r" and mr: "resource_matches canon m r"
  shows "resource_matches canon l m \<or> resource_matches canon m l"
proof -
  note plain = resource_matches_plain [OF assms(1,2)] resource_matches_plain [OF assms(2,1)]
  have l: "l = ''*:*'' \<or> l = r \<or> (\<exists>pre. l = pre @ ''*'' \<and> starts_with r pre)"
    using lr unfolding resource_matches_plain [OF assms(1,3)] .
  have m: "m = ''*:*'' \<or> m = r \<or> (\<exists>pre. m = pre @ ''*'' \<and> starts_with r pre)"
    using mr unfolding resource_matches_plain [OF assms(2,3)] .
  show ?thesis
  proof (cases "l = ''*:*'' \<or> l = r \<or> m = ''*:*'' \<or> m = r")
    case True
    then show ?thesis
    proof (elim disjE)
      assume "l = ''*:*''"
      then show ?thesis unfolding plain by blast
    next
      assume "m = ''*:*''"
      then show ?thesis unfolding plain by blast
    qed (use lr mr in simp_all)
  next
    case False
    with l m obtain p q where pq: "l = p @ ''*''" "m = q @ ''*''" "prefix p r" "prefix q r"
      by (auto simp: starts_with_prefix)
    have "prefix p q \<or> prefix q p" using prefix_same_cases [OF pq(3,4)] by blast
    then have "starts_with m p \<or> starts_with l q" using pq by (auto simp: starts_with_prefix)
    then show ?thesis unfolding plain using pq by blast
  qed
qed

text \<open>
  The contract of a matcher the permission checks rely on. A grant on \<open>q\<close> held through
  simple patterns covers everything \<open>q\<close> matches.
\<close>

locale grant_matcher =
  fixes matches :: "'r \<Rightarrow> 'r \<Rightarrow> bool"
    and simple :: "'r \<Rightarrow> bool"
  assumes matches_trans: "simple p \<Longrightarrow> matches p q \<Longrightarrow> matches q r \<Longrightarrow> matches p r"
begin

lemma grant_covers:
  assumes "list_all (\<lambda>(p, _). simple p) G"
    and "list_ex (\<lambda>(p, acts). matches p q \<and> P acts) G" and "matches q r"
  shows "list_ex (\<lambda>(p, acts). matches p r \<and> P acts) G"
proof -
  from assms(2) obtain p acts where p: "(p, acts) \<in> set G" "matches p q" "P acts"
    by (auto simp: list_ex_iff)
  from assms(1) p(1) have "simple p" by (auto simp: list_all_iff)
  then have "matches p r" using p(2) assms(3) by (rule matches_trans)
  with p show ?thesis by (auto simp: list_ex_iff)
qed

end

interpretation rm: grant_matcher "resource_matches canon" "simple_pattern canon" for canon
  by unfold_locales (rule resource_matches_trans)

definition simple_grants :: "(string \<Rightarrow> string option) \<Rightarrow> permissions \<Rightarrow> bool" where
  "simple_grants canon G = list_all (\<lambda>(p, _). simple_pattern canon p) G"

lemma has_permission_covers:
  assumes "simple_grants canon G" "has_permission canon G q a" "resource_matches canon q r"
  shows "has_permission canon G r a"
  using rm.grant_covers [of canon G q "\<lambda>acts. action_matches acts a" r] assms
  by (simp add: simple_grants_def has_permission_def)

lemma has_permission_iff:
  "has_permission canon G r a \<longleftrightarrow>
     (\<exists>p acts. (p, acts) \<in> set G \<and> resource_matches canon p r \<and> action_matches acts a)"
  by (auto simp: has_permission_def list_ex_iff)

lemma action_matches_iff: "action_matches acts a \<longleftrightarrow> WILDCARD \<in> set acts \<or> a \<in> set acts"
  by (auto simp: action_matches_def list_ex_iff)

section \<open>A child set never exceeds its parent\<close>

definition urn_actions :: "(string \<Rightarrow> string option) \<Rightarrow> string \<Rightarrow> string list" where
  "urn_actions canon urn =
     (case urn_valid_actions canon urn of None \<Rightarrow> actions_ALL | Some v \<Rightarrow> v)"

text \<open>A URN whose own or inner resource type can be read, as every checked resource has.\<close>

definition typed_urn :: "(string \<Rightarrow> string option) \<Rightarrow> string \<Rightarrow> bool" where
  "typed_urn canon r =
     (case parse_qualified canon r of
        Some q \<Rightarrow> (case q_inner q of None \<Rightarrow> True | Some i \<Rightarrow> parse_resource_type i \<noteq> None)
      | None \<Rightarrow> parse_resource_type r \<noteq> None)"

definition type_actions :: "string option \<Rightarrow> string list" where
  "type_actions t = (case Option.bind t valid_actions of None \<Rightarrow> actions_ALL | Some v \<Rightarrow> v)"

lemma valid_actions_ALL: "valid_actions t = Some v \<Longrightarrow> set v \<subseteq> set actions_ALL"
  by (auto simp: valid_actions_def actions_ALL_def split: if_splits)

lemma type_actions_ALL: "set (type_actions t) \<subseteq> set actions_ALL"
  by (cases t) (auto simp: type_actions_def dest: valid_actions_ALL [THEN subsetD] split: option.splits)

lemma type_actions_unknown [simp]:
  "type_actions None = actions_ALL" "type_actions (Some ''*'') = actions_ALL"
  "type_actions (Some ''org'') = actions_ALL"
  by (simp_all add: type_actions_def valid_actions_def)

lemma urn_actions_qualified:
  "parse_qualified canon u = Some q \<Longrightarrow>
     urn_actions canon u =
       (case q_inner q of None \<Rightarrow> ENTITY_ACTIONS | Some i \<Rightarrow> type_actions (parse_resource_type i))"
  by (auto simp: urn_actions_def urn_valid_actions_def type_actions_def valid_actions_def
      split: option.splits)

lemma urn_actions_unqualified:
  "parse_qualified canon u = None \<Longrightarrow> urn_actions canon u = type_actions (parse_resource_type u)"
  by (simp add: urn_actions_def urn_valid_actions_def type_actions_def)

lemma alphanumeric_not_star [simp]: "\<not> is_ascii_alphanumeric CHR ''*''"
  by code_simp

lemma list_all_not_star:
  "list_all (\<lambda>c. is_ascii_alphanumeric c \<or> c = CHR ''-'') t \<Longrightarrow> CHR ''*'' \<notin> set t"
  by (induction t) auto

lemma parse_resource_type_Some:
  "parse_resource_type u = Some t \<Longrightarrow> t \<noteq> ''*'' \<Longrightarrow>
     \<exists>path. u = t @ '':'' @ path \<and> path \<noteq> [] \<and> CHR '':'' \<notin> set t \<and> CHR ''*'' \<notin> set t"
  by (auto simp: parse_resource_type_def split_once_Some_iff
      dest: list_all_not_star split: if_splits option.splits)

lemma parse_resource_type_cong:
  assumes "parse_resource_type (t @ '':'' @ path) = Some t" "path' \<noteq> []" "t \<noteq> ''*''"
  shows "parse_resource_type (t @ '':'' @ path') = Some t"
proof -
  have t: "CHR '':'' \<notin> set t" using parse_resource_type_Some [OF assms(1,3)] by auto
  then have sp: "split_once CHR '':'' (t @ CHR '':'' # x) = Some (t, x)" for x
    by (rule split_once_append)
  have "t @ '':'' @ x \<noteq> ''*:*''" for x
    using assms(3) t by (cases t; cases "tl t") auto
  then show ?thesis
    using assms by (simp add: parse_resource_type_def sp split: if_splits)
qed

lemma same_type_or_unrestricted:
  assumes "\<not> starts_with c ''org:''" "\<not> starts_with r ''org:''"
    and "resource_matches canon c r" and "parse_resource_type r \<noteq> None"
  shows "parse_resource_type c \<in> {None, Some ''*'', parse_resource_type r}"
proof (rule ccontr)
  assume neg: "parse_resource_type c \<notin> {None, Some ''*'', parse_resource_type r}"
  then obtain t where t: "parse_resource_type c = Some t" "t \<noteq> ''*''" "c \<noteq> r" by auto
  from parse_resource_type_Some [OF t(1,2)] obtain path where
    path: "c = t @ '':'' @ path" "path \<noteq> []" "CHR '':'' \<notin> set t" "CHR ''*'' \<notin> set t" by blast
  have "c \<noteq> ''*:*''" using t by (auto simp: parse_resource_type_def)
  with assms t(3) obtain pre where pre: "c = pre @ ''*''" "starts_with r pre"
    by (auto simp: resource_matches_plain)
  obtain path' where "path = path' @ ''*''"
    using path(1,2) pre(1) by (cases path rule: rev_cases) auto
  with path pre obtain rest where r: "r = t @ '':'' @ rest"
    by (auto simp: starts_with_iff)
  show False
  proof (cases "rest = []")
    case True
    have "r \<noteq> ''*:*''" using True r by auto
    moreover have "split_once CHR '':'' r = Some (t, [])"
      using r True path(3) by simp
    ultimately have "parse_resource_type r = None" by (simp add: parse_resource_type_def)
    with assms(4) show False by simp
  next
    case False
    then have "parse_resource_type r = Some t"
      using parse_resource_type_cong [of t path rest] t path r by simp
    with neg t show False by simp
  qed
qed

lemma parse_resource_type_org:
  "starts_with u ''org:'' \<Longrightarrow> parse_resource_type u \<in> {None, Some ''org''}"
  by (auto simp: starts_with_iff parse_resource_type_def split: if_splits)

lemma type_actions_antimono:
  assumes "resource_matches canon c r" "parse_resource_type r \<noteq> None"
  shows "set (type_actions (parse_resource_type r)) \<subseteq> set (type_actions (parse_resource_type c))"
proof (cases "starts_with c ''org:''")
  case True
  then have "type_actions (parse_resource_type c) = actions_ALL"
    using parse_resource_type_org [OF True] by auto
  then show ?thesis by (simp add: type_actions_ALL)
next
  case False
  with assms(1) have "\<not> starts_with r ''org:''" using resource_matches_same_scope by blast
  from same_type_or_unrestricted [OF False this assms] show ?thesis
    by (auto dest: type_actions_ALL [THEN subsetD])
qed

lemma type_actions_antimonoD:
  "resource_matches canon c r \<Longrightarrow> parse_resource_type r = Some t \<Longrightarrow>
     a \<in> set (type_actions (Some t)) \<Longrightarrow> a \<in> set (type_actions (parse_resource_type c))"
  using type_actions_antimono [of canon c r] by auto

lemma urn_actions_antimono:
  assumes m: "resource_matches canon c r" and r: "typed_urn canon r"
  shows "set (urn_actions canon r) \<subseteq> set (urn_actions canon c)"
proof (cases "parse_qualified canon r")
  case None
  then have "\<not> starts_with r ''org:''"
    using m by (auto simp: resource_matches_org)
  moreover from this have "\<not> starts_with c ''org:''" using m resource_matches_same_scope by blast
  then have "parse_qualified canon c = None"
    using parse_qualified_org by (cases "parse_qualified canon c") auto
  ultimately show ?thesis
    using m r None by (simp add: urn_actions_unqualified typed_urn_def type_actions_antimono)
next
  case (Some q)
  then have "starts_with r ''org:''" by (rule parse_qualified_org)
  with m Some obtain p where p: "parse_qualified canon c = Some p" "qualified_matches canon p q"
    by (auto simp: resource_matches_org)
  with r Some show ?thesis
    by (auto simp: urn_actions_qualified qualified_matches.simps typed_urn_def
        dest: type_actions_antimonoD split: option.splits)
qed

lemma subset_check_each_ok:
  "subset_check_each canon parent resource acts = Inr () \<longleftrightarrow>
     (\<forall>a \<in> set acts. has_permission canon parent resource a)"
  by (induction acts) auto

lemma subset_check_actions_ok:
  "subset_check_actions canon parent resource acts = Inr () \<longleftrightarrow>
     (\<forall>a \<in> set acts. if a = WILDCARD then (\<forall>v \<in> set (urn_actions canon resource).
         has_permission canon parent resource v)
       else has_permission canon parent resource a)"
proof (induction acts)
  case Nil
  then show ?case by simp
next
  case (Cons b acts)
  have "(\<forall>v \<in> set (urn_actions canon resource). has_permission canon parent resource v) \<longleftrightarrow>
      subset_check_each canon parent resource (urn_actions canon resource) = Inr ()"
    by (rule subset_check_each_ok [symmetric])
  with Cons show ?case
    by (cases "subset_check_each canon parent resource (urn_actions canon resource)")
      (simp_all flip: urn_actions_def)
qed

lemma validate_subset_of_ok:
  "validate_subset_of canon child parent = Inr () \<longleftrightarrow>
     (\<forall>(resource, acts) \<in> set child. subset_check_actions canon parent resource acts = Inr ())"
  by (induction canon child parent rule: validate_subset_of.induct) (auto split: sum.splits)

lemma subset_grant:
  assumes "validate_subset_of canon child parent = Inr ()" "(c, acts) \<in> set child"
    and "action_matches acts a" "a \<in> set (urn_actions canon c)"
  shows "has_permission canon parent c a"
proof -
  have ok: "subset_check_actions canon parent c acts = Inr ()"
    using assms(1,2) by (auto simp: validate_subset_of_ok)
  show ?thesis
  proof (cases "WILDCARD \<in> set acts")
    case True
    with ok assms(4) show ?thesis by (auto simp: subset_check_actions_ok)
  next
    case False
    with assms(3) have "a \<in> set acts" "a \<noteq> WILDCARD" by (auto simp: action_matches_iff)
    with ok show ?thesis by (auto simp: subset_check_actions_ok)
  qed
qed

lemma validate_subset_covers:
  assumes "validate_subset_of canon child parent = Inr ()"
    and "simple_grants canon parent"
    and "typed_urn canon r" and "a \<in> set (urn_actions canon r)"
    and "has_permission canon child r a"
  shows "has_permission canon parent r a"
proof -
  from assms(5) obtain c acts where c: "(c, acts) \<in> set child" "resource_matches canon c r"
    "action_matches acts a" by (auto simp: has_permission_iff)
  have "a \<in> set (urn_actions canon c)" using urn_actions_antimono [OF c(2) assms(3)] assms(4) by blast
  with assms(1) c have "has_permission canon parent c a" by (blast intro: subset_grant)
  with assms(2) show ?thesis using c(2) by (rule has_permission_covers)
qed

text \<open>
  C1. No privilege escalation: when \<open>validate_subset_of\<close> accepts a child permission set and
  the parent's patterns are simple, every action the child grants on a typed URN, of the
  actions its type has, is granted by the parent too.
\<close>

theorem validate_subset_no_escalation:
  assumes "validate_subset_of canon child parent = Inr ()"
    and "simple_grants canon parent"
    and "typed_urn canon r" and "a \<in> set (urn_actions canon r)"
    and "has_permission canon child r a"
  shows "has_permission canon parent r a"
  using assms by (rule validate_subset_covers)

lemma validate_subset_no_escalation_witness:
  "has_permission (\<lambda>_. None) [(''mcp:*'', [''*''])] ''mcp:weather/get'' EXECUTE"
  by (rule validate_subset_no_escalation
      [where child = "[(''mcp:weather/*'', [''execute''])]"]) code_simp+

section \<open>Grants as sets of pairs\<close>

text \<open>
  Permission sets are built by loops that push actions onto entries. What a set grants
  depends only on its pairs of pattern and action, and each loop adds a fixed set of pairs
  per element it visits: the contract below, which every such loop of the component keeps.
\<close>

definition pairs :: "permissions \<Rightarrow> (string \<times> string) set" where
  "pairs G = {(k, a). \<exists>acts. (k, acts) \<in> set G \<and> a \<in> set acts}"

lemma has_permission_pairs:
  "has_permission canon G r a \<longleftrightarrow>
     (\<exists>p b. (p, b) \<in> pairs G \<and> resource_matches canon p r \<and> (b = WILDCARD \<or> b = a))"
  unfolding has_permission_iff action_matches_iff pairs_def by blast

lemma set_push_new: "set (push_new entry acts) = set entry \<union> set acts"
  by (induction entry acts rule: push_new.induct) auto

lemma im_wf_entry_push: "im_wf G \<Longrightarrow> im_wf (entry_push k acts G)"
  by (simp add: entry_push_def im.inv_ins)

lemma pairs_im_get: "im_wf G \<Longrightarrow> pairs G = {(k, a). \<exists>acts. im_get G k = Some acts \<and> a \<in> set acts}"
  by (simp add: pairs_def im_get_wf_iff)

lemma pairs_entry_push:
  assumes "im_wf G"
  shows "pairs (entry_push k acts G) = pairs G \<union> {k} \<times> set acts"
proof -
  have "im_get (entry_push k acts G) k' =
      (if k' = k then Some (push_new (case im_get G k of None \<Rightarrow> [] | Some e \<Rightarrow> e) acts)
       else im_get G k')" for k'
    by (simp add: entry_push_def im.get_ins)
  then show ?thesis
    unfolding pairs_im_get [OF assms] pairs_im_get [OF im_wf_entry_push [OF assms]]
    by (auto simp: set_push_new split: option.splits if_splits)
qed

lemma pairs_sort_actions [simp]: "pairs (sort_actions G) = pairs G"
  by (force simp: pairs_def sort_actions_def)

lemma im_wf_sort_actions [simp]: "im_wf (sort_actions G) = im_wf G"
  by (simp add: im_wf_def sort_actions_def comp_def case_prod_beta)

lemma pairs_Nil [simp]: "pairs [] = {}"
  by (simp add: pairs_def)

lemma im_wf_Nil [simp]: "im_wf []"
  by (simp add: im_wf_def)

locale grant_loop =
  fixes body :: "'x \<Rightarrow> permissions \<Rightarrow> permissions"
    and adds :: "'x \<Rightarrow> (string \<times> string) set"
  assumes body_wf: "im_wf G \<Longrightarrow> im_wf (body x G)"
    and body_pairs: "im_wf G \<Longrightarrow> pairs (body x G) = pairs G \<union> adds x"
begin

lemma loop_wf: "im_wf G \<Longrightarrow> im_wf (fold body xs G)"
  by (induction xs arbitrary: G) (simp_all add: body_wf)

lemma loop_pairs: "im_wf G \<Longrightarrow> pairs (fold body xs G) = pairs G \<union> (\<Union>x \<in> set xs. adds x)"
  by (induction xs arbitrary: G) (auto simp: body_wf body_pairs)

end

definition narrower :: "(string \<Rightarrow> string option) \<Rightarrow> string \<Rightarrow> string \<Rightarrow> string option" where
  "narrower canon l r =
     (if resource_matches canon l r then Some r
      else if resource_matches canon r l then Some l else None)"

definition pair_grants :: "(string \<Rightarrow> string option) \<Rightarrow> string \<times> string list \<Rightarrow>
    string \<times> string list \<Rightarrow> (string \<times> string) set" where
  "pair_grants canon l r =
     {(k, a). narrower canon (fst l) (fst r) = Some k \<and> a \<in> set (allowed_actions (snd l) (snd r))}"

lemma intersect_pair_narrower:
  "intersect_pair canon l r G =
     (case narrower canon (fst l) (fst r) of
        None \<Rightarrow> G
      | Some k \<Rightarrow> if allowed_actions (snd l) (snd r) = [] then G
          else entry_push k (allowed_actions (snd l) (snd r)) G)"
  by (simp add: intersect_pair_def narrower_def Let_def)

interpretation ip: grant_loop "intersect_pair canon l" "pair_grants canon l" for canon l
  by unfold_locales
    (auto simp: intersect_pair_narrower pair_grants_def pairs_entry_push im_wf_entry_push
      split: option.splits)

interpretation ir: grant_loop "\<lambda>l grants. fold (intersect_pair canon l) other grants"
    "\<lambda>l. \<Union>r \<in> set other. pair_grants canon l r" for canon other
  by unfold_locales (rule ip.loop_wf ip.loop_pairs; assumption)+

lemma pairs_intersection:
  "pairs (intersection canon A B) = (\<Union>l \<in> set A. \<Union>r \<in> set B. pair_grants canon l r)"
  unfolding intersection_def by (simp add: ir.loop_pairs)

lemma im_wf_intersection: "im_wf (intersection canon A B)"
  unfolding intersection_def by (simp add: ir.loop_wf)

lemma allowed_actions_both:
  "b \<in> set (allowed_actions la ra) \<Longrightarrow> b = WILDCARD \<or> b = a \<Longrightarrow>
     action_matches la a \<and> action_matches ra a"
  by (auto simp: allowed_actions_def action_matches_iff actions_ALL_def action_names
      split: if_splits)

lemma allowed_actions_complete:
  "is_valid a \<Longrightarrow> action_matches la a \<Longrightarrow> action_matches ra a \<Longrightarrow>
     \<exists>b \<in> set (allowed_actions la ra). b = WILDCARD \<or> b = a"
  by (auto simp: allowed_actions_def action_matches_iff is_valid_def actions_ALL_def)

text \<open>
  C22. The intersection grants nothing either set lacks: with simple patterns on both sides,
  what \<open>intersection\<close> permits on any resource, qualified or not, both sets permit.
\<close>

theorem intersection_sound:
  assumes "simple_grants canon A" "simple_grants canon B"
    and "has_permission canon (intersection canon A B) r a"
  shows "has_permission canon A r a \<and> has_permission canon B r a"
proof -
  from assms(3) obtain p b where
    b: "resource_matches canon p r" "b = WILDCARD \<or> b = a" "(p, b) \<in> pairs (intersection canon A B)"
    unfolding has_permission_pairs by blast
  from b(3) obtain l la m lm where
    lm: "(l, la) \<in> set A" "(m, lm) \<in> set B" "narrower canon l m = Some p"
      "b \<in> set (allowed_actions la lm)"
    by (auto simp: pairs_intersection pair_grants_def)
  have acts: "action_matches la a" "action_matches lm a"
    using allowed_actions_both [OF lm(4) b(2)] by simp_all
  have simple: "simple_pattern canon l" "simple_pattern canon m"
    using assms(1,2) lm(1,2) by (auto simp: simple_grants_def list_all_iff)
  have "resource_matches canon l r" "resource_matches canon m r"
    using lm(3) b(1) simple
    by (auto simp: narrower_def split: if_splits intro: resource_matches_trans)
  with acts lm(1,2) show ?thesis by (auto simp: has_permission_iff)
qed

lemma intersection_sound_witness:
  "has_permission (\<lambda>_. None) [(''mcp:*'', [''*''])] ''mcp:a'' EXECUTE \<and>
   has_permission (\<lambda>_. None) [(''mcp:a'', [''execute''])] ''mcp:a'' EXECUTE"
  by (rule intersection_sound) code_simp+

text \<open>
  C34. On unqualified resources the intersection is exact for every valid action: it permits
  what both sets permit.
\<close>

theorem intersection_complete:
  assumes "\<not> starts_with r ''org:''" "is_valid a"
    and "has_permission canon A r a" "has_permission canon B r a"
  shows "has_permission canon (intersection canon A B) r a"
proof -
  from assms(3,4) obtain l la m lm where
    l: "(l, la) \<in> set A" "resource_matches canon l r" "action_matches la a"
    and m: "(m, lm) \<in> set B" "resource_matches canon m r" "action_matches lm a"
    by (auto simp: has_permission_iff)
  have plain: "\<not> starts_with l ''org:''" "\<not> starts_with m ''org:''"
    using assms(1) resource_matches_same_scope [OF l(2)] resource_matches_same_scope [OF m(2)]
    by simp_all
  have "\<exists>k. narrower canon l m = Some k \<and> (k = l \<or> k = m)"
  proof -
    have "resource_matches canon l m \<or> resource_matches canon m l"
      using overlapping_patterns [OF plain assms(1) l(2) m(2)] .
    then show ?thesis by (auto simp: narrower_def)
  qed
  then obtain k where k: "narrower canon l m = Some k" "k = l \<or> k = m" by blast
  then have "resource_matches canon k r" using l(2) m(2) by auto
  moreover obtain b where b: "b \<in> set (allowed_actions la lm)" "b = WILDCARD \<or> b = a"
    using allowed_actions_complete [OF assms(2) l(3) m(3)] by blast
  moreover have "(k, b) \<in> pair_grants canon (l, la) (m, lm)"
    using k(1) b(1) by (simp add: pair_grants_def)
  then have "(k, b) \<in> pairs (intersection canon A B)"
    using l(1) m(1) unfolding pairs_intersection by blast
  ultimately show ?thesis unfolding has_permission_pairs by blast
qed

lemma intersection_complete_witness:
  "has_permission (\<lambda>_. None)
     (intersection (\<lambda>_. None) [(''mcp:*'', [''*''])] [(''mcp:a'', [''execute''])]) ''mcp:a'' EXECUTE"
  by (rule intersection_complete) code_simp+

section \<open>Validated sets\<close>

lemma validate_resource_types_ok:
  "validate_resource_types allowed G = Inr () \<longleftrightarrow>
     (\<forall>(p, _) \<in> set G. \<exists>t. parse_resource_type p = Some t \<and> t \<noteq> ''*'' \<and> t \<in> set allowed)"
  by (induction allowed G rule: validate_resource_types.induct) (auto split: option.splits)

lemma typed_pattern_covers_type:
  assumes "parse_resource_type p = Some t" "t \<noteq> ''*''" "t \<noteq> ''org''" "resource_matches canon p r"
  shows "starts_with r (t @ '':'')"
proof -
  from parse_resource_type_Some [OF assms(1,2)] obtain path where
    path: "p = t @ '':'' @ path" "path \<noteq> []" by blast
  have plain: "\<not> starts_with p ''org:''"
    using parse_resource_type_org [of p] assms(1,3) by auto
  then have plain_r: "\<not> starts_with r ''org:''"
    using resource_matches_same_scope [OF assms(4)] by simp
  have "p \<noteq> ''*:*''" using assms(1,2) by (auto simp: parse_resource_type_def)
  with assms(4) consider "p = r" | pre where "p = pre @ ''*''" "starts_with r pre"
    unfolding resource_matches_plain [OF plain plain_r] by blast
  then show ?thesis
  proof cases
    case 1
    with path show ?thesis by (auto simp: starts_with_iff)
  next
    case (2 pre)
    with path obtain path' where "pre = t @ '':'' @ path'" by (cases path rule: rev_cases) auto
    with 2 show ?thesis by (auto simp: starts_with_iff)
  qed
qed

text \<open>
  Service keys stay inside the customer-facing resource types: once
  \<open>validate_resource_types\<close> accepts a set for \<open>SERVICE_KEY_ALLOWED\<close>, every resource the set
  permits anything on is an MCP tool, a webhook, a stream, an event or a run.
\<close>

theorem service_key_confined:
  assumes "validate_resource_types SERVICE_KEY_ALLOWED G = Inr ()"
    and "has_permission canon G r a"
  shows "\<exists>t \<in> set SERVICE_KEY_ALLOWED. starts_with r (t @ '':'')"
proof -
  from assms(2) obtain p acts where p: "(p, acts) \<in> set G" "resource_matches canon p r"
    by (auto simp: has_permission_iff)
  with assms(1) obtain t where
    t: "parse_resource_type p = Some t" "t \<noteq> ''*''" "t \<in> set SERVICE_KEY_ALLOWED"
    by (auto simp: validate_resource_types_ok)
  then have "t \<noteq> ''org''" by (auto simp: SERVICE_KEY_ALLOWED_def)
  with t p(2) show ?thesis by (blast intro: typed_pattern_covers_type)
qed

lemma service_key_confined_witness:
  "\<exists>t \<in> set SERVICE_KEY_ALLOWED. starts_with ''mcp:weather/get'' (t @ '':'')"
  by (rule service_key_confined [where canon = "\<lambda>_. None" and a = EXECUTE
        and G = "[(''mcp:weather/*'', [''execute''])]"]) code_simp+

lemma is_valid_Nil [simp]: "\<not> is_valid []"
  by (simp add: is_valid_def action_names)

lemma validate_actions_ok:
  "validate_actions resource t acts = Inr () \<longleftrightarrow>
     (\<forall>a \<in> set acts. is_valid a \<and>
        (a = WILDCARD \<or> t = ''*'' \<or> (\<forall>valid. valid_actions t = Some valid \<longrightarrow> a \<in> set valid)))"
  by (induction resource t acts rule: validate_actions.induct) (auto split: option.splits)

lemma validate_ok_iff:
  "validate G = Inr () \<longleftrightarrow>
     (\<forall>(p, acts) \<in> set G. \<exists>t. parse_resource_type p = Some t \<and> t \<noteq> ''org'' \<and> acts \<noteq> [] \<and>
        validate_actions p t acts = Inr ())"
proof (induction G rule: validate.induct)
  case 1
  then show ?case by simp
next
  case (2 resource acts rest)
  have "parse_resource_type [] = None" by (simp add: parse_resource_type_def)
  with 2 show ?case by (auto split: option.splits sum.splits if_splits)
qed

text \<open>
  What \<open>validate\<close> accepts: exactly the sets in which every entry is a well-formed,
  unqualified URN with at least one action, each action known and, unless it or the type is
  a wildcard, valid for the resource type. In particular no accepted set reaches into a
  qualified (organization) URN.
\<close>

theorem validate_accepts:
  "validate G = Inr () \<longleftrightarrow>
     (\<forall>(p, acts) \<in> set G. \<exists>t. parse_resource_type p = Some t \<and> t \<noteq> ''org'' \<and> acts \<noteq> [] \<and>
        (\<forall>a \<in> set acts. is_valid a \<and>
           (a = WILDCARD \<or> t = ''*'' \<or> (\<forall>v. valid_actions t = Some v \<longrightarrow> a \<in> set v))))"
  unfolding validate_ok_iff validate_actions_ok ..

lemma validate_accepts_witness:
  "\<exists>t. parse_resource_type ''mcp:*'' = Some t \<and> t \<noteq> ''org''"
proof -
  have "validate [(''mcp:*'', [''execute'']), (''*:*'', [''read''])] = Inr ()" by code_simp
  from validate_accepts [THEN iffD1, OF this] show ?thesis by auto
qed

text \<open>
  Grants compare as sets: two permission sets that \<open>PartialEq\<close> calls equal permit the
  same actions on the same resources.
\<close>

theorem permissions_eq_sound:
  assumes "im_wf A" "im_wf B" "permissions_eq A B"
  shows "has_permission canon A r a = has_permission canon B r a"
proof -
  have sub: "\<exists>acts'. (k, acts') \<in> set B \<and> set acts' = set acts" if "(k, acts) \<in> set A" for k acts
  proof -
    have "case im_get B k of None \<Rightarrow> False
        | Some acts' \<Rightarrow> (\<forall>a \<in> set acts. a \<in> set acts') \<and> (\<forall>a \<in> set acts'. a \<in> set acts)"
      using bspec [OF conjunct2 [OF assms(3) [unfolded permissions_eq_def list_all_iff]] that] by simp
    then obtain acts' where acts': "im_get B k = Some acts'" "set acts' = set acts"
      by (cases "im_get B k") auto
    from acts'(1) have "(k, acts') \<in> set B" by (rule im_get_SomeD)
    with acts'(2) show ?thesis by blast
  qed
  have keys: "fst ` set A = fst ` set B"
  proof (rule card_subset_eq)
    show "finite (fst ` set B)" by simp
    show "fst ` set A \<subseteq> fst ` set B" using sub by force
    have "card (fst ` set A) = length A" "card (fst ` set B) = length B"
      using assms(1,2) distinct_card [of "map fst A"] distinct_card [of "map fst B"]
      by (simp_all add: im_wf_def)
    then show "card (fst ` set A) = card (fst ` set B)"
      using assms(3) by (simp add: permissions_eq_def)
  qed
  have sup: "\<exists>acts. (k, acts) \<in> set A \<and> set acts = set acts'" if b: "(k, acts') \<in> set B" for k acts'
  proof -
    from b keys obtain acts where acts: "(k, acts) \<in> set A" by force
    with sub obtain acts'' where acts'': "(k, acts'') \<in> set B" "set acts'' = set acts" by blast
    have "im_get B k = Some acts'" "im_get B k = Some acts''"
      using assms(2) b acts''(1) by (simp_all add: im_get_wf_iff)
    with acts acts''(2) show ?thesis by auto
  qed
  have "pairs A = pairs B"
    unfolding pairs_def using sub sup by (intro Collect_cong) blast
  then show ?thesis by (simp add: has_permission_pairs)
qed

lemma permissions_eq_sound_witness:
  "has_permission (\<lambda>_. None) [(''run:*'', [''read'']), (''event:*'', [''create'', ''read''])] ''event:a'' READ
   = has_permission (\<lambda>_. None)
       [(''event:*'', [''read'', ''create'', ''read'']), (''run:*'', [''read''])] ''event:a'' READ"
  by (rule permissions_eq_sound) code_simp+

section \<open>Where patterns are not simple\<close>

lemma validate_single:
  assumes "CHR '':'' \<notin> set t" "x \<noteq> []" "y \<noteq> []" "validate [(t @ '':'' @ x, acts)] = Inr ()"
  shows "validate [(t @ '':'' @ y, acts)] = Inr () \<and> t \<noteq> ''org'' \<or> t = ''*''"
proof (cases "t = ''*''")
  case False
  have parse: "parse_resource_type (t @ '':'' @ z) =
      (if t = [] \<or> \<not> list_all (\<lambda>c. is_ascii_alphanumeric c \<or> c = CHR ''-'') t then None else Some t)" if "z \<noteq> []" for z
    using that False assms(1) by (auto simp: parse_resource_type_def append_eq_Cons_conv)
  have acts: "validate_actions r t as = Inr () \<longleftrightarrow> validate_actions r' t as = Inr ()" for r r' as
    by (induction as) (auto split: option.splits)
  show ?thesis
    using assms(4) acts [of "t @ '':'' @ x" acts "t @ '':'' @ y"] parse [OF assms(2)] parse [OF assms(3)]
    by (auto split: if_splits sum.splits)
qed simp

text \<open>
  C37. A wildcard before the last character defeats the subset check, for every resource type,
  stem and action list: a parent whose only grant is \<open>t:stem**\<close>, which covers the resources
  whose name goes on with a literal star, passes \<open>validate\<close> and may issue a child with
  \<open>t:stem*\<close>, since the parent's pattern matches the text of the child's. The child then has every
  action of the list on \<open>t:stemname\<close> for every name that does not start with a star, and the
  parent has it on none of them.
\<close>

theorem double_wildcard_escalates:
  assumes "CHR '':'' \<notin> set t" "t \<noteq> ''*''" "validate [(t @ '':'' @ stem @ ''*'', acts)] = Inr ()"
    and "\<not> starts_with name ''*''" "a \<in> set acts"
  shows "validate [(t @ '':'' @ stem @ ''**'', acts)] = Inr () \<and>
    validate_subset_of canon [(t @ '':'' @ stem @ ''*'', acts)] [(t @ '':'' @ stem @ ''**'', acts)] = Inr () \<and>
    has_permission canon [(t @ '':'' @ stem @ ''*'', acts)] (t @ '':'' @ stem @ name) a \<and>
    \<not> has_permission canon [(t @ '':'' @ stem @ ''**'', acts)] (t @ '':'' @ stem @ name) a"
proof -
  let ?p = "t @ '':'' @ stem" and ?child = "[(t @ '':'' @ stem @ ''*'', acts)]" and ?parent = "[(t @ '':'' @ stem @ ''**'', acts)]"
  have v: "validate ?parent = Inr ()" "t \<noteq> ''org''"
    using validate_single [OF assms(1) _ _ assms(3), of "stem @ ''**''"] assms(2) by auto
  have plain: "\<not> starts_with (t @ '':'' @ z) ''org:''" for z
    using v(2) assms(1) by (auto simp: starts_with_iff append_eq_append_conv2 append_eq_Cons_conv Cons_eq_append_conv)
  note iff = resource_matches_plain [OF plain plain]
  have m: "resource_matches canon (t @ '':'' @ stem @ ''**'') (t @ '':'' @ stem @ ''*'')"
    unfolding iff by (intro disjI2 exI [of _ "t @ '':'' @ stem @ ''*''"]) simp
  have m': "resource_matches canon (t @ '':'' @ stem @ ''*'') (t @ '':'' @ stem @ name)"
    unfolding iff by (intro disjI2 exI [of _ ?p]) (simp add: starts_with_iff)
  have n: "\<not> resource_matches canon (t @ '':'' @ stem @ ''**'') (t @ '':'' @ stem @ name)"
  proof
    assume "resource_matches canon (t @ '':'' @ stem @ ''**'') (t @ '':'' @ stem @ name)"
    then consider "t @ '':'' @ stem @ ''**'' = ''*:*''" | "t @ '':'' @ stem @ ''**'' = t @ '':'' @ stem @ name"
      | pre where "t @ '':'' @ stem @ ''**'' = pre @ ''*''" "starts_with (t @ '':'' @ stem @ name) pre"
      unfolding iff by blast
    then show False
    proof cases
      case 1
      then have "rev (t @ '':'' @ stem @ ''**'') = rev ''*:*''" by (rule arg_cong)
      then show ?thesis by simp
    next
      case 2
      then have "name = ''**''" by simp
      then show ?thesis using assms(4) by (simp add: starts_with_def)
    next
      case 3
      then have "(t @ '':'' @ stem @ ''*'') @ ''*'' = pre @ ''*''" by simp
      then have "pre = t @ '':'' @ stem @ ''*''" by (simp only: append_same_eq)
      then show ?thesis using 3(2) assms(4) by (auto simp: starts_with_iff)
    qed
  qed
  have "has_permission canon ?parent (t @ '':'' @ stem @ ''*'') b" if "action_matches acts b" for b
    using m that by (simp add: has_permission_def)
  then have "validate_subset_of canon ?child ?parent = Inr ()"
    by (auto simp: validate_subset_of_ok subset_check_actions_ok action_matches_def list_ex_iff simp del: validate_subset_of.simps)
  moreover have "action_matches acts a" using assms(5) by (auto simp: action_matches_def list_ex_iff)
  ultimately show ?thesis using v(1) m' n by (simp add: has_permission_def del: validate.simps validate_subset_of.simps)
qed

lemma double_wildcard_escalates_witness:
  "let parent = [(''mcp:**'', [EXECUTE])]; child = [(''mcp:*'', [EXECUTE])]
   in validate_subset_of (\<lambda>_. None) child parent = Inr () \<and>
      has_permission (\<lambda>_. None) child ''mcp:weather'' EXECUTE \<and>
      \<not> has_permission (\<lambda>_. None) parent ''mcp:weather'' EXECUTE"
proof -
  have "validate [(''mcp'' @ '':'' @ [] @ ''*'', [EXECUTE])] = Inr ()" by code_simp
  from double_wildcard_escalates [OF _ _ this, of "''weather''" EXECUTE "\<lambda>_. None"] show ?thesis
    by (simp add: starts_with_def del: validate.simps validate_subset_of.simps)
qed

text \<open>
  \<open>stream_restrictions\<close> lists only streams the set can read: when it returns a list, the
  set is not unrestricted and every stream named in the list is readable.
\<close>

theorem stream_restrictions_readable:
  assumes "stream_restrictions canon G = Some ids" "i \<in> set ids"
  shows "has_stream_read canon G i"
proof -
  from assms obtain p acts where p: "(p, acts) \<in> set G" "action_matches acts READ"
    "parse_resource_type p = Some ''stream''" "i = drop 7 p"
    by (auto simp: stream_restrictions_def Let_def split: if_splits)
  from parse_resource_type_Some [OF p(3)] have "p = ''stream:'' @ i" using p(4) by auto
  moreover have "\<not> starts_with (''stream:'' @ i) ''org:''" by (simp add: starts_with_def)
  ultimately show ?thesis
    using p(1,2) by (auto simp: has_stream_read_def has_permission_iff resource_matches.simps)
qed

lemma stream_restrictions_readable_witness:
  "has_stream_read (\<lambda>_. None) [(''stream:abc'', [''read''])] ''abc''"
  by (rule stream_restrictions_readable [where ids = "[''abc'']"]) code_simp+

text \<open>
  The probe \<open>stream:__any__check__\<close> is an ordinary name, so a set that may read only the
  streams whose id starts with an underscore is reported as unrestricted (\<open>None\<close>), although
  it cannot read other streams.
\<close>

theorem stream_probe_not_universal:
  "let G = [(''stream:_*'', [READ])]
   in validate G = Inr () \<and> stream_restrictions canon G = None \<and>
      \<not> has_stream_read canon G ''order-1''"
proof -
  have m: "resource_matches canon ''stream:_*'' ''stream:__any__check__''"
    "\<not> resource_matches canon ''stream:_*'' ''stream:order-1''"
    by (simp_all add: resource_matches.simps strip_suffix_char_def starts_with_def)
  moreover have "validate [(''stream:_*'', [READ])] = Inr ()" by code_simp
  ultimately show ?thesis
    by (simp add: stream_restrictions_def has_stream_read_def has_permission_def
        action_matches_def del: validate.simps)
qed

end
