(* ===== verification/Hot_OrgKey.thy ===== *)
theory Hot_OrgKey
  imports Hot_Permission
begin

text \<open>
  Org-scoped API keys, the second half of \<^verbatim>\<open>crates/hot/src/permission.rs\<close>: grants on
  qualified URNs (\<open>org:{org}/env:{env}/{urn}\<close>), their validation, the own-organization
  split, and their projection to one environment.

  A \<^verbatim>\<open>uuid::Uuid\<close> argument is the text \<^verbatim>\<open>to_string()\<close> gives for it. \<open>uuid_text canon u\<close>
  says that \<open>u\<close> is such a text: it is its own canonical form, it has no slash in it and it
  is not a star, which is what the crate documents of the hyphenated form.

  The lemmas show that a key of an organization reaches that organization only through
  grants that name it, that projecting a key to an environment and checking the
  unqualified URN there agrees with checking the qualified URN, and that issuing and
  intersecting keys never widens them.
\<close>

definition uuid_text :: "(string \<Rightarrow> string option) \<Rightarrow> string \<Rightarrow> bool" where
  "uuid_text canon u \<longleftrightarrow> canon u = Some u \<and> CHR ''/'' \<notin> set u \<and> u \<noteq> ''*''"

section \<open>Definitions\<close>

fun validate_org_actions ::
    "string \<Rightarrow> string list option \<Rightarrow> string list \<Rightarrow> permission_error + unit" where
  "validate_org_actions resource valid [] = Inr ()"
| "validate_org_actions resource valid (action # rest) =
     (if \<not> is_valid action then Inl (InvalidAction action)
      else if action = WILDCARD then validate_org_actions resource valid rest
      else case valid of
        Some v \<Rightarrow>
          (if action \<notin> set v then Inl (ActionNotValidForResource action resource v)
           else validate_org_actions resource valid rest)
      | None \<Rightarrow> validate_org_actions resource valid rest)"

definition valid_inner ::
    "(string \<Rightarrow> string option) \<Rightarrow> string option \<Rightarrow> string \<Rightarrow> string \<Rightarrow> bool" where
  "valid_inner canon env inner_type path =
     (case env of
        None \<Rightarrow>
          (if inner_type = ''api-key'' then is_selector canon path
           else if inner_type = ''usage'' then path = ''*''
           else False)
      | Some _ \<Rightarrow>
          (if inner_type = ''org'' then False
           else if inner_type = ''api-key'' then is_selector canon path
           else True))"

fun validate_org_key ::
    "(string \<Rightarrow> string option) \<Rightarrow> permissions \<Rightarrow> permission_error + unit" where
  "validate_org_key canon [] = Inr ()"
| "validate_org_key canon ((resource, action_list) # rest) =
     (case parse_qualified canon resource of
        None \<Rightarrow> Inl (WrongScope resource ''org'')
      | Some q \<Rightarrow>
          (case (case q_inner q of
                   None \<Rightarrow> Inr ()
                 | Some inner \<Rightarrow>
                     (case parse_resource_type inner of
                        None \<Rightarrow> Inl (InvalidResource resource)
                      | Some inner_type \<Rightarrow>
                          (let path = (case split_once CHR '':'' inner of
                                 None \<Rightarrow> [] | Some (_, path) \<Rightarrow> path)
                           in if \<not> valid_inner canon (q_env q) inner_type path
                              then Inl (InvalidResource resource) else Inr ()))) of
             Inl e \<Rightarrow> Inl e
           | Inr _ \<Rightarrow>
               (if action_list = [] then Inl (EmptyActionList resource)
                else case validate_org_actions resource (urn_valid_actions canon resource) action_list of
                  Inl e \<Rightarrow> Inl e
                | Inr _ \<Rightarrow> validate_org_key canon rest)))"

definition names_org :: "(string \<Rightarrow> string option) \<Rightarrow> string \<Rightarrow> string \<Rightarrow> bool" where
  "names_org canon own_org resource =
     (case parse_qualified canon resource of None \<Rightarrow> False | Some q \<Rightarrow> q_org q = own_org)"

definition split_own_org ::
    "(string \<Rightarrow> string option) \<Rightarrow> permissions \<Rightarrow> string \<Rightarrow> permissions \<times> permissions" where
  "split_own_org canon self own_org =
     (filter (\<lambda>(resource, _). names_org canon own_org resource) self,
      filter (\<lambda>(resource, _). \<not> names_org canon own_org resource) self)"

definition merged :: "permissions \<Rightarrow> permissions \<Rightarrow> permissions" where
  "merged self other =
     sort_actions (fold (\<lambda>(resource, action_list). entry_push resource action_list) other self)"

definition org_key_allows ::
    "(string \<Rightarrow> string option) \<Rightarrow> permissions \<Rightarrow> uuid \<Rightarrow> string \<Rightarrow> string \<Rightarrow> bool" where
  "org_key_allows canon self own_org resource action =
     (let (own, rest) = split_own_org canon self own_org
      in if names_org canon own_org resource then has_permission canon own resource action
         else has_permission canon rest resource action)"

definition org_key_intersection ::
    "(string \<Rightarrow> string option) \<Rightarrow> permissions \<Rightarrow> permissions \<Rightarrow> uuid \<Rightarrow> permissions" where
  "org_key_intersection canon self issuer own_org =
     (let (own, rest) = split_own_org canon self own_org;
          (issuer_own, issuer_rest) = split_own_org canon issuer own_org
      in merged (intersection canon own issuer_own) (intersection canon rest issuer_rest))"

definition validate_org_key_subset_of ::
    "(string \<Rightarrow> string option) \<Rightarrow> permissions \<Rightarrow> permissions \<Rightarrow> uuid \<Rightarrow> permission_error + unit" where
  "validate_org_key_subset_of canon self issuer own_org =
     (let (own, rest) = split_own_org canon self own_org;
          (issuer_own, issuer_rest) = split_own_org canon issuer own_org
      in case validate_subset_of canon own issuer_own of
           Inl e \<Rightarrow> Inl e
         | Inr _ \<Rightarrow> validate_subset_of canon rest issuer_rest)"

definition project_entry :: "(string \<Rightarrow> string option) \<Rightarrow> uuid \<Rightarrow> uuid \<Rightarrow> uuid \<Rightarrow>
    string \<times> string list \<Rightarrow> permissions \<Rightarrow> permissions" where
  "project_entry canon key_org org env entry projected =
     (let (pattern, action_list) = entry; wildcard_org_applies = (key_org \<noteq> org)
      in case parse_qualified canon pattern of
           None \<Rightarrow> projected
         | Some q \<Rightarrow>
             (case (q_env q, q_inner q) of
                (Some env_selector, Some inner) \<Rightarrow>
                  (let org_applies =
                     (if q_org q = ''*'' then wildcard_org_applies else q_org q = org)
                   in if org_applies \<and> selector_matches env_selector env
                      then entry_push inner action_list projected else projected)
              | _ \<Rightarrow> projected))"

definition project_to_env ::
    "(string \<Rightarrow> string option) \<Rightarrow> permissions \<Rightarrow> uuid \<Rightarrow> uuid \<Rightarrow> uuid \<Rightarrow> permissions" where
  "project_to_env canon self key_org org env =
     sort_actions (fold (project_entry canon key_org org env) self [])"

text \<open>The URN builders of \<^verbatim>\<open>mod org_urn\<close>.\<close>

definition urn_org :: "uuid \<Rightarrow> string" where
  "urn_org org = ''org:'' @ org"

definition urn_envs :: "uuid \<Rightarrow> string" where
  "urn_envs org = ''org:'' @ org @ ''/env:*''"

definition urn_env :: "uuid \<Rightarrow> uuid \<Rightarrow> string" where
  "urn_env org env = ''org:'' @ org @ ''/env:'' @ env"

definition urn_org_api_keys :: "uuid \<Rightarrow> string" where
  "urn_org_api_keys org = ''org:'' @ org @ ''/api-key:*''"

definition urn_org_api_key :: "uuid \<Rightarrow> uuid \<Rightarrow> string" where
  "urn_org_api_key org key = ''org:'' @ org @ ''/api-key:'' @ key"

definition urn_env_api_keys :: "uuid \<Rightarrow> uuid \<Rightarrow> string" where
  "urn_env_api_keys org env = ''org:'' @ org @ ''/env:'' @ env @ ''/api-key:*''"

definition urn_env_api_key :: "uuid \<Rightarrow> uuid \<Rightarrow> uuid \<Rightarrow> string" where
  "urn_env_api_key org env key = ''org:'' @ org @ ''/env:'' @ env @ ''/api-key:'' @ key"

definition urn_usage :: "uuid \<Rightarrow> string" where
  "urn_usage org = ''org:'' @ org @ ''/usage:*''"

definition urn_calls :: "uuid \<Rightarrow> string" where
  "urn_calls org = ''org:'' @ org @ ''/env:*/call:*''"

definition qualify :: "uuid \<Rightarrow> uuid \<Rightarrow> permissions \<Rightarrow> permissions" where
  "qualify org env grants =
     map (\<lambda>(resource, acts). (''org:'' @ org @ ''/env:'' @ env @ ''/'' @ resource, acts)) grants"

section \<open>Reading and building qualified URNs\<close>

lemma uuid_selector: "uuid_text canon u \<Longrightarrow> is_selector canon u"
  by (simp add: uuid_text_def is_selector_def)

lemma star_selector [simp]: "is_selector canon ''*''"
  by (simp add: is_selector_def)

lemma parse_qualified_org_only:
  assumes "uuid_text canon org"
  shows "parse_qualified canon (''org:'' @ org) = Some \<lparr>q_org = org, q_env = None, q_inner = None\<rparr>"
proof -
  have "split_once CHR ''/'' org = None" using assms by (simp add: split_once_None_iff uuid_text_def)
  then show ?thesis
    using uuid_selector [OF assms] strip_prefix_append [of "''org:''" org]
    by (simp add: parse_qualified_def)
qed

lemma parse_qualified_org_rest:
  assumes "is_selector canon org" "CHR ''/'' \<notin> set org"
    and "rest \<noteq> []" "\<not> starts_with rest ''env:''"
  shows "parse_qualified canon (''org:'' @ org @ ''/'' @ rest) =
    Some \<lparr>q_org = org, q_env = None, q_inner = Some rest\<rparr>"
proof -
  have "strip_prefix (''org:'' @ org @ ''/'' @ rest) ''org:'' = Some (org @ CHR ''/'' # rest)"
    by (simp only: strip_prefix_Some_iff) simp
  moreover have "strip_prefix rest ''env:'' = None" using assms(4) by (simp add: strip_prefix_def)
  ultimately show ?thesis
    using assms split_once_append [OF assms(2), of rest] by (simp add: parse_qualified_def)
qed

lemma parse_qualified_env_only:
  assumes "is_selector canon org" "CHR ''/'' \<notin> set org"
    and "is_selector canon env" "CHR ''/'' \<notin> set env"
  shows "parse_qualified canon (''org:'' @ org @ ''/env:'' @ env) =
    Some \<lparr>q_org = org, q_env = Some env, q_inner = None\<rparr>"
proof -
  have "strip_prefix (''org:'' @ org @ ''/env:'' @ env) ''org:'' =
      Some (org @ CHR ''/'' # (''env:'' @ env))"
    by (simp only: strip_prefix_Some_iff) simp
  moreover have "split_once CHR ''/'' env = None" using assms(4) by (simp add: split_once_None_iff)
  ultimately show ?thesis
    using assms split_once_append [OF assms(2), of "''env:'' @ env"]
      strip_prefix_append [of "''env:''" env]
    by (simp add: parse_qualified_def)
qed

lemma parse_qualified_env_inner:
  assumes "is_selector canon org" "CHR ''/'' \<notin> set org"
    and "is_selector canon env" "CHR ''/'' \<notin> set env" and "inner \<noteq> []"
  shows "parse_qualified canon (''org:'' @ org @ ''/env:'' @ env @ ''/'' @ inner) =
    Some \<lparr>q_org = org, q_env = Some env, q_inner = Some inner\<rparr>"
proof -
  have "strip_prefix (''org:'' @ org @ ''/env:'' @ env @ ''/'' @ inner) ''org:'' =
      Some (org @ CHR ''/'' # (''env:'' @ env @ CHR ''/'' # inner))"
    by (simp only: strip_prefix_Some_iff) simp
  then show ?thesis
    using assms split_once_append [OF assms(2), of "''env:'' @ env @ CHR ''/'' # inner"]
      strip_prefix_append [of "''env:''" "env @ CHR ''/'' # inner"]
      split_once_append [OF assms(4), of inner]
    by (simp add: parse_qualified_def)
qed

lemmas parse_qualified_urns =
  parse_qualified_org_only parse_qualified_org_rest parse_qualified_env_only
  parse_qualified_env_inner

section \<open>What an org key reaches\<close>

lemma has_permission_filter:
  "has_permission canon (filter P G) r a \<longleftrightarrow>
     (\<exists>p acts. (p, acts) \<in> set G \<and> P (p, acts) \<and> resource_matches canon p r \<and> action_matches acts a)"
  by (auto simp: has_permission_iff)

lemma org_key_allows_iff:
  "org_key_allows canon K own r a \<longleftrightarrow>
     (\<exists>p acts. (p, acts) \<in> set K \<and> names_org canon own p = names_org canon own r \<and>
        resource_matches canon p r \<and> action_matches acts a)"
  by (auto simp: org_key_allows_def split_own_org_def has_permission_filter)

text \<open>
  Own-organization isolation: an org key acts on a resource of its own organization
  only through a grant that names that organization; neither \<open>org:*\<close> nor an unqualified
  grant such as \<open>*:*\<close> reaches it.
\<close>

theorem own_org_needs_literal_grant:
  assumes "org_key_allows canon K own r a" "names_org canon own r"
  shows "\<exists>p acts q. (p, acts) \<in> set K \<and> parse_qualified canon p = Some q \<and> q_org q = own \<and>
    resource_matches canon p r \<and> action_matches acts a"
proof -
  from assms obtain p acts where "(p, acts) \<in> set K" "names_org canon own p"
    "resource_matches canon p r" "action_matches acts a"
    by (auto simp: org_key_allows_iff)
  then show ?thesis by (auto simp: names_org_def split: option.splits)
qed

lemma own_org_needs_literal_grant_witness:
  "\<exists>p acts q. (p, acts) \<in> set [(''org:u/env:*'', [''read''])] \<and>
     parse_qualified (\<lambda>s. if s = ''u'' then Some s else None) p = Some q \<and> q_org q = ''u'' \<and>
     resource_matches (\<lambda>s. if s = ''u'' then Some s else None) p ''org:u/env:*'' \<and>
     action_matches acts READ"
  by (rule own_org_needs_literal_grant) code_simp+

text \<open>
  Tenant isolation: a pattern that matches a qualified resource is itself qualified, and
  names the resource's organization or is an organization wildcard; likewise for the
  environment.
\<close>

theorem qualified_match_same_tenant:
  assumes "parse_qualified canon r = Some q" "resource_matches canon p r"
  shows "\<exists>qp. parse_qualified canon p = Some qp \<and> q_org qp \<in> {''*'', q_org q} \<and>
    (case q_env q of None \<Rightarrow> q_env qp = None | Some e \<Rightarrow> q_env qp \<in> {Some ''*'', Some e})"
proof -
  have "starts_with r ''org:''" using assms(1) by (rule parse_qualified_org)
  with assms obtain qp where "parse_qualified canon p = Some qp" "qualified_matches canon qp q"
    by (auto simp: resource_matches_org)
  then show ?thesis
    by (auto simp: qualified_matches.simps selector_matches_def split: option.splits)
qed

lemma qualified_match_same_tenant_witness:
  "\<exists>qp. parse_qualified (\<lambda>s. if s = ''u'' then Some s else None) ''org:*/env:*'' = Some qp \<and>
     q_org qp \<in> {''*'', ''u''} \<and>
     (case Some ''*'' of None \<Rightarrow> q_env qp = None | Some e \<Rightarrow> q_env qp \<in> {Some ''*'', Some e})"
proof -
  let ?canon = "\<lambda>s. if s = ''u'' then Some s else None"
  have "parse_qualified ?canon ''org:u/env:*'' = Some \<lparr>q_org = ''u'', q_env = Some ''*'', q_inner = None\<rparr>"
    "resource_matches ?canon ''org:*/env:*'' ''org:u/env:*''"
    by code_simp+
  from qualified_match_same_tenant [OF this] show ?thesis by simp
qed

section \<open>Projection to an environment\<close>

definition projected_pairs :: "(string \<Rightarrow> string option) \<Rightarrow> uuid \<Rightarrow> uuid \<Rightarrow> uuid \<Rightarrow>
    string \<times> string list \<Rightarrow> (string \<times> string) set" where
  "projected_pairs canon key_org org env entry =
     {(i, a). a \<in> set (snd entry) \<and> (\<exists>q e. parse_qualified canon (fst entry) = Some q \<and>
        q_env q = Some e \<and> q_inner q = Some i \<and> selector_matches e env \<and>
        (if q_org q = ''*'' then key_org \<noteq> org else q_org q = org))}"

interpretation pe: grant_loop "project_entry canon key_org org env"
    "projected_pairs canon key_org org env" for canon key_org org env
  by unfold_locales
    (auto simp: project_entry_def projected_pairs_def Let_def im_wf_entry_push pairs_entry_push
      split: option.splits prod.splits if_splits)

lemma pairs_project_to_env:
  "pairs (project_to_env canon K key_org org env) =
     (\<Union>x \<in> set K. projected_pairs canon key_org org env x)"
  unfolding project_to_env_def by (simp add: pe.loop_pairs)

text \<open>The qualified form of a URN inside an environment.\<close>

definition in_env :: "uuid \<Rightarrow> uuid \<Rightarrow> string \<Rightarrow> string" where
  "in_env org env r = ''org:'' @ org @ ''/env:'' @ env @ ''/'' @ r"

lemma parse_in_env:
  "uuid_text canon org \<Longrightarrow> uuid_text canon env \<Longrightarrow> r \<noteq> [] \<Longrightarrow>
     parse_qualified canon (in_env org env r) =
       Some \<lparr>q_org = org, q_env = Some env, q_inner = Some r\<rparr>"
  unfolding in_env_def
  by (rule parse_qualified_env_inner) (auto simp: uuid_text_def is_selector_def)

lemma parse_in_env_Nil:
  assumes "uuid_text canon org" "uuid_text canon env"
  shows "parse_qualified canon (in_env org env []) = None"
proof -
  have sel: "CHR ''/'' \<notin> set org" "CHR ''/'' \<notin> set env"
    using assms by (simp_all add: uuid_text_def)
  have "strip_prefix (in_env org env []) ''org:'' = Some (org @ CHR ''/'' # (''env:'' @ env @ ''/''))"
    by (simp only: strip_prefix_Some_iff in_env_def) simp
  then show ?thesis
    using assms split_once_append [OF sel(1), of "''env:'' @ env @ ''/''"]
      strip_prefix_append [of "''env:''" "env @ ''/''"] split_once_append [OF sel(2), of "[]"]
    by (simp add: parse_qualified_def)
qed

lemma matches_in_env:
  assumes "uuid_text canon org" "uuid_text canon env" "r \<noteq> []"
  shows "resource_matches canon p (in_env org env r) \<longleftrightarrow>
    (\<exists>q e i. parse_qualified canon p = Some q \<and> q_env q = Some e \<and> q_inner q = Some i \<and>
       selector_matches (q_org q) org \<and> selector_matches e env \<and> resource_matches canon i r)"
proof -
  have "starts_with (in_env org env r) ''org:''"
    using parse_in_env [OF assms] by (rule parse_qualified_org)
  then show ?thesis
    using parse_in_env [OF assms]
    by (auto simp: resource_matches_org qualified_matches.simps split: option.splits)
qed

text \<open>
  C24. Projection agrees with the qualified check: the grants of an org key projected to an
  environment permit an action on an unqualified URN exactly when the key is allowed that
  action on the qualified URN of that environment. In particular a wildcard organization
  grant applies in another organization and never in the key's own.
\<close>

theorem project_to_env_refines:
  assumes "uuid_text canon org" "uuid_text canon env" "r \<noteq> []" "key_org \<noteq> ''*''"
  shows "has_permission canon (project_to_env canon K key_org org env) r a \<longleftrightarrow>
    org_key_allows canon K key_org (in_env org env r) a"
proof -
  have org: "org \<noteq> ''*''" using assms(1) by (simp add: uuid_text_def)
  have own: "names_org canon key_org (in_env org env r) \<longleftrightarrow> org = key_org"
    using parse_in_env [OF assms(1-3)] by (simp add: names_org_def)
  have applies: "names_org canon key_org p = names_org canon key_org (in_env org env r) \<and>
      selector_matches (q_org q) org \<longleftrightarrow>
      (if q_org q = ''*'' then key_org \<noteq> org else q_org q = org)"
    if "parse_qualified canon p = Some q" for p q
    using that org assms(4) unfolding own by (auto simp: names_org_def selector_matches_def)
  have "has_permission canon (project_to_env canon K key_org org env) r a \<longleftrightarrow>
      (\<exists>p acts q e i. (p, acts) \<in> set K \<and> parse_qualified canon p = Some q \<and> q_env q = Some e \<and>
         q_inner q = Some i \<and> selector_matches e env \<and> resource_matches canon i r \<and>
         action_matches acts a \<and> (if q_org q = ''*'' then key_org \<noteq> org else q_org q = org))"
    unfolding has_permission_pairs pairs_project_to_env projected_pairs_def action_matches_iff
    by (simp add: Bex_def) blast
  also have "\<dots> \<longleftrightarrow> (\<exists>p acts q e i. (p, acts) \<in> set K \<and> parse_qualified canon p = Some q \<and>
      q_env q = Some e \<and> q_inner q = Some i \<and> selector_matches e env \<and> resource_matches canon i r \<and>
      action_matches acts a \<and>
      names_org canon key_org p = names_org canon key_org (in_env org env r) \<and>
      selector_matches (q_org q) org)"
    using applies by blast
  also have "\<dots> \<longleftrightarrow> org_key_allows canon K key_org (in_env org env r) a"
    unfolding org_key_allows_iff matches_in_env [OF assms(1-3)] by blast
  finally show ?thesis .
qed

lemma project_to_env_refines_witness:
  "has_permission Some (project_to_env Some [(''org:*/env:*/mcp:*'', [''execute''])] ''k'' ''o'' ''e'')
     ''mcp:a'' EXECUTE \<longleftrightarrow>
   org_key_allows Some [(''org:*/env:*/mcp:*'', [''execute''])] ''k'' (in_env ''o'' ''e'' ''mcp:a'') EXECUTE"
  by (rule project_to_env_refines) code_simp+

text \<open>
  Qualifying an environment key's grants and projecting them back to the same
  environment permits what the original grants permit.
\<close>

theorem project_qualify_roundtrip:
  assumes "uuid_text canon org" "uuid_text canon env" "r \<noteq> []"
  shows "has_permission canon (project_to_env canon (qualify org env G) key_org org env) r a \<longleftrightarrow>
    has_permission canon G r a"
proof -
  have org: "org \<noteq> ''*''" using assms(1) by (simp add: uuid_text_def)
  have "\<not> resource_matches canon [] r"
    using assms(3)
    by (simp add: resource_matches.simps strip_suffix_char_def starts_with_def parse_qualified_def
        strip_prefix_def)
  then have inner: "p \<noteq> []" if "resource_matches canon p r" for p
    using that by auto
  have "projected_pairs canon key_org org env (in_env org env p, acts) =
      (if p = [] then {} else {p} \<times> set acts)" for p acts
    using org parse_in_env [OF assms(1,2), of p] parse_in_env_Nil [OF assms(1,2)]
    by (auto simp: projected_pairs_def selector_matches_def)
  moreover have "set (qualify org env G) = (\<lambda>(p, acts). (in_env org env p, acts)) ` set G"
    by (auto simp: qualify_def in_env_def)
  ultimately have "pairs (project_to_env canon (qualify org env G) key_org org env) =
      {(p, a) \<in> pairs G. p \<noteq> []}"
    unfolding pairs_project_to_env by (auto simp: pairs_def split: if_splits)
  then show ?thesis unfolding has_permission_pairs using inner by blast
qed

lemma project_qualify_roundtrip_witness:
  "has_permission Some (project_to_env Some (qualify ''o'' ''e'' [(''mcp:*'', [''*''])]) ''k'' ''o'' ''e'')
     ''mcp:a'' EXECUTE \<longleftrightarrow> has_permission Some [(''mcp:*'', [''*''])] ''mcp:a'' EXECUTE"
  by (rule project_qualify_roundtrip) code_simp+

section \<open>Issuing and intersecting org keys\<close>

interpretation mg: grant_loop "\<lambda>(resource, action_list). entry_push resource action_list"
    "\<lambda>(resource, action_list). {resource} \<times> set action_list"
  by unfold_locales (auto simp: im_wf_entry_push pairs_entry_push split: prod.splits)

lemma pairs_Union: "(\<Union>x \<in> set G. (\<lambda>(k, acts). {k} \<times> set acts) x) = pairs G"
  by (auto simp: pairs_def)

lemma pairs_merged: "im_wf A \<Longrightarrow> pairs (merged A B) = pairs A \<union> pairs B"
  unfolding merged_def pairs_sort_actions by (simp only: mg.loop_pairs pairs_Union)

lemma org_key_allows_pairs:
  "org_key_allows canon K own r a \<longleftrightarrow>
     (\<exists>p b. (p, b) \<in> pairs K \<and> names_org canon own p = names_org canon own r \<and>
        resource_matches canon p r \<and> (b = WILDCARD \<or> b = a))"
  unfolding org_key_allows_iff action_matches_iff pairs_def by blast

lemma UN_halves:
  "(\<Union>l \<in> {l \<in> S. P l}. \<Union>m \<in> {m \<in> T. P m}. f l m) \<union>
   (\<Union>l \<in> {l \<in> S. \<not> P l}. \<Union>m \<in> {m \<in> T. \<not> P m}. f l m) =
   (\<Union>l \<in> S. \<Union>m \<in> {m \<in> T. P m = P l}. f l m)"
  by auto

lemma pairs_org_key_intersection:
  "pairs (org_key_intersection canon K I own) =
     (\<Union>l \<in> set K. \<Union>m \<in> {m \<in> set I. names_org canon own (fst m) = names_org canon own (fst l)}.
        pair_grants canon l m)"
  unfolding org_key_intersection_def split_own_org_def
  by (simp add: pairs_merged im_wf_intersection pairs_intersection case_prod_unfold UN_halves)

text \<open>
  Intersecting an org key with its issuer never widens it: with simple patterns, what
  the intersection allows, the key and the issuer both allow, in the key's own organization
  and outside it.
\<close>

theorem org_key_intersection_sound:
  assumes "simple_grants canon K" "simple_grants canon I"
    and "org_key_allows canon (org_key_intersection canon K I own) own r a"
  shows "org_key_allows canon K own r a \<and> org_key_allows canon I own r a"
proof -
  from assms(3) obtain p b where p: "(p, b) \<in> pairs (org_key_intersection canon K I own)"
    "names_org canon own p = names_org canon own r" "resource_matches canon p r"
    "b = WILDCARD \<or> b = a"
    unfolding org_key_allows_pairs by blast
  from p(1) obtain l la m lm where
    lm: "(l, la) \<in> set K" "(m, lm) \<in> set I" "names_org canon own m = names_org canon own l"
      "narrower canon l m = Some p" "b \<in> set (allowed_actions la lm)"
    by (auto simp: pairs_org_key_intersection pair_grants_def)
  have "action_matches la a" "action_matches lm a"
    using allowed_actions_both [OF lm(5) p(4)] by simp_all
  moreover have "simple_pattern canon l" "simple_pattern canon m"
    using assms(1,2) lm(1,2) by (auto simp: simple_grants_def list_all_iff)
  then have "resource_matches canon l r" "resource_matches canon m r"
    using lm(4) p(3) by (auto simp: narrower_def split: if_splits intro: resource_matches_trans)
  moreover have "names_org canon own l = names_org canon own r"
    using lm(3,4) p(2) by (auto simp: narrower_def split: if_splits)
  ultimately show ?thesis using lm(1-3) unfolding org_key_allows_iff by metis
qed

lemma org_key_intersection_sound_witness:
  "org_key_allows Some [(''org:*/env:*'', [''read''])] ''k'' ''org:u/env:*'' READ \<and>
   org_key_allows Some [(''org:u/env:*'', [''*''])] ''k'' ''org:u/env:*'' READ"
  by (rule org_key_intersection_sound) code_simp+

text \<open>
  C26. Issuing an org key never escalates: when \<open>validate_org_key_subset_of\<close> accepts a key
  and the issuer's patterns are simple, every action the key is allowed on a typed URN, of the
  actions its type has, the issuer is allowed too.
\<close>

theorem org_key_no_escalation:
  assumes "validate_org_key_subset_of canon K I own = Inr ()" "simple_grants canon I"
    and "typed_urn canon r" "a \<in> set (urn_actions canon r)"
    and "org_key_allows canon K own r a"
  shows "org_key_allows canon I own r a"
proof -
  let ?half = "\<lambda>G. filter (\<lambda>(p, _). names_org canon own p = names_org canon own r) G"
  have "validate_subset_of canon (?half K) (?half I) = Inr ()"
    using assms(1)
    by (cases "names_org canon own r")
      (auto simp: validate_org_key_subset_of_def split_own_org_def split: sum.splits)
  moreover have "simple_grants canon (?half I)"
    using assms(2) by (auto simp: simple_grants_def list_all_iff)
  moreover have "has_permission canon (?half K) r a"
    using assms(5) by (auto simp: org_key_allows_iff has_permission_filter)
  ultimately have "has_permission canon (?half I) r a"
    using assms(3,4) validate_subset_covers by blast
  then show ?thesis by (auto simp: org_key_allows_iff has_permission_filter)
qed

lemma org_key_no_escalation_witness:
  "org_key_allows Some [(''org:*/env:*'', [''*''])] ''k'' ''org:u/env:*'' READ"
  by (rule org_key_no_escalation [where K = "[(''org:u/env:*'', [''read''])]"]) code_simp+

text \<open>
  For qualified patterns the intersection can drop a shared grant: one set naming the
  environment with a wildcard organization and one naming the organization with a wildcard
  environment both allow a resource, yet neither pattern matches the other, so the
  intersection is empty. Completeness of the intersection does not extend to
  qualified resources.
\<close>

theorem qualified_intersection_incomplete:
  assumes "uuid_text canon org" "uuid_text canon env"
  shows "let A = [(in_env ''*'' env ''mcp:a'', [EXECUTE])]; B = [(in_env org ''*'' ''mcp:a'', [EXECUTE])]
    in has_permission canon A (in_env org env ''mcp:a'') EXECUTE \<and>
       has_permission canon B (in_env org env ''mcp:a'') EXECUTE \<and>
       intersection canon A B = []"
proof -
  have sel: "is_selector canon org" "CHR ''/'' \<notin> set org" "is_selector canon env" "CHR ''/'' \<notin> set env"
    "org \<noteq> ''*''" "env \<noteq> ''*''"
    using assms by (auto simp: uuid_text_def is_selector_def)
  have star: "CHR ''/'' \<notin> set ''*''" by simp
  have q: "parse_qualified canon (in_env ''*'' env ''mcp:a'') =
        Some \<lparr>q_org = ''*'', q_env = Some env, q_inner = Some ''mcp:a''\<rparr>"
    "parse_qualified canon (in_env org ''*'' ''mcp:a'') =
        Some \<lparr>q_org = org, q_env = Some ''*'', q_inner = Some ''mcp:a''\<rparr>"
    unfolding in_env_def
    by (rule parse_qualified_env_inner [OF star_selector star sel(3,4)]
        parse_qualified_env_inner [OF sel(1,2) star_selector star]; simp)+
  have inner: "resource_matches canon ''mcp:a'' ''mcp:a''"
    by (simp add: resource_matches.simps starts_with_def)
  have org: "starts_with (in_env x y z) ''org:''" for x y z
    by (simp add: in_env_def starts_with_def)
  have "narrower canon (in_env ''*'' env ''mcp:a'') (in_env org ''*'' ''mcp:a'') = None"
    using q sel(5,6)
    by (simp add: narrower_def resource_matches_org org qualified_matches.simps selector_matches_def)
  then have "intersection canon [(in_env ''*'' env ''mcp:a'', [EXECUTE])]
      [(in_env org ''*'' ''mcp:a'', [EXECUTE])] = []"
    by (simp add: intersection_def intersect_pair_narrower sort_actions_def)
  then show ?thesis
    using matches_in_env [OF assms, of "''mcp:a''"] q inner
    by (simp add: has_permission_def selector_matches_def action_matches_def)
qed

lemma qualified_intersection_incomplete_witness:
  "let A = [(in_env ''*'' ''e'' ''mcp:a'', [EXECUTE])]; B = [(in_env ''o'' ''*'' ''mcp:a'', [EXECUTE])]
   in has_permission Some A (in_env ''o'' ''e'' ''mcp:a'') EXECUTE \<and>
      has_permission Some B (in_env ''o'' ''e'' ''mcp:a'') EXECUTE \<and>
      intersection Some A B = []"
  by (rule qualified_intersection_incomplete) code_simp+

section \<open>Validated org keys\<close>

lemma validate_org_key_ok:
  "validate_org_key canon K = Inr () \<Longrightarrow> (p, acts) \<in> set K \<Longrightarrow>
     acts \<noteq> [] \<and> (\<exists>q. parse_qualified canon p = Some q \<and>
       (\<forall>i. q_inner q = Some i \<longrightarrow> (\<exists>t path. parse_resource_type i = Some t \<and>
          valid_inner canon (q_env q) t path)))"
  by (induction canon K rule: validate_org_key.induct)
    (auto simp: Let_def split: option.splits sum.splits if_splits prod.splits)

text \<open>
  A validated org key holds qualified grants only, so it permits nothing on an
  environment-scoped (unqualified) URN: credentials of the two kinds do not mix.
\<close>

theorem org_key_qualified_only:
  assumes "validate_org_key canon K = Inr ()" "\<not> starts_with r ''org:''"
  shows "\<not> has_permission canon K r a"
proof
  assume "has_permission canon K r a"
  then obtain p acts where p: "(p, acts) \<in> set K" "resource_matches canon p r"
    by (auto simp: has_permission_iff)
  obtain q where "parse_qualified canon p = Some q"
    using validate_org_key_ok [OF assms(1) p(1)] by blast
  then have "starts_with p ''org:''" by (rule parse_qualified_org)
  with resource_matches_same_scope [OF p(2)] assms(2) show False by simp
qed

lemma org_key_qualified_only_witness:
  "\<not> has_permission Some [(''org:u/env:e/mcp:*'', [''execute''])] ''mcp:a'' EXECUTE"
  by (rule org_key_qualified_only) code_simp+

end
