(* ===== verification/Hot_Lexer.thy ===== *)
theory Hot_Lexer
  imports Hot_Prelude
begin

text \<open>
  The lexer of the language, \<^verbatim>\<open>crates/hot/src/lang/lexer.rs\<close>: the token types and keywords,
  the cursor over the characters of the source (\<open>peek\<close>, \<open>advance\<close>), the readers of strings,
  templates, numbers, identifiers and comments, and the loop that collects the tokens and
  recovers from errors. The operations thread the lexer's state explicitly; a reader that
  can fail returns \<open>Inl\<close> the error, with the state it stopped in.

  The lexer works on characters, so the source is a list of Unicode scalar values. Three
  things are parameters (record \<open>lexer_env\<close>): the Unicode tables behind
  \<^verbatim>\<open>char::is_alphabetic\<close> and \<^verbatim>\<open>char::is_numeric\<close> beyond ASCII, and the decimal parser
  \<^verbatim>\<open>D256::from_str\<close> of the crate fastnum. Lines and columns are counted in \<^verbatim>\<open>usize\<close>, which
  the length of the source bounds, and cut to 32 bits in a token, as the code does.

  The lemmas show that the loop ends, that every state is reached by advancing, that the
  recorded positions, lines and columns are the true ones, that the tokens follow one
  another without overlap and, in a source without errors, leave out only blanks.
\<close>

section \<open>Definitions\<close>

type_synonym uchar = nat

abbreviation cp :: "char \<Rightarrow> uchar" where
  "cp \<equiv> of_char"

abbreviation cps :: "string \<Rightarrow> uchar list" where
  "cps \<equiv> map of_char"

text \<open>The ASCII text of a list of characters that are all ASCII.\<close>

abbreviation ascii_text :: "uchar list \<Rightarrow> string" where
  "ascii_text \<equiv> map char_of"

datatype lexer_error_kind =
    InvalidCharacter uchar
  | UnterminatedString
  | InvalidNumber "uchar list"
  | InvalidIdentifier "uchar list"
  | UnexpectedEndOfInput
  | InvalidOperator "uchar list" "uchar list"

record lexer_error =
  err_kind :: lexer_error_kind
  err_line :: nat
  err_column :: nat
  err_position :: nat

datatype keyword_kind =
    Serial | Parallel | Cond | CondAll | Fn | Type | Enum | Lazy | Do | Match | MatchAll

definition keyword_as_str :: "keyword_kind \<Rightarrow> uchar list" where
  "keyword_as_str k =
     (case k of
        Serial \<Rightarrow> cps ''serial''
      | Parallel \<Rightarrow> cps ''parallel''
      | Cond \<Rightarrow> cps ''cond''
      | CondAll \<Rightarrow> cps ''cond-all''
      | Fn \<Rightarrow> cps ''fn''
      | Type \<Rightarrow> cps ''type''
      | Enum \<Rightarrow> cps ''enum''
      | Lazy \<Rightarrow> cps ''lazy''
      | Do \<Rightarrow> cps ''do''
      | Match \<Rightarrow> cps ''match''
      | MatchAll \<Rightarrow> cps ''match-all'')"

definition keyword_parse :: "uchar list \<Rightarrow> keyword_kind option" where
  "keyword_parse s =
     (if s = cps ''serial'' then Some Serial
      else if s = cps ''parallel'' then Some Parallel
      else if s = cps ''cond'' then Some Cond
      else if s = cps ''cond-all'' then Some CondAll
      else if s = cps ''fn'' then Some Fn
      else if s = cps ''type'' then Some Type
      else if s = cps ''enum'' then Some Enum
      else if s = cps ''lazy'' then Some Lazy
      else if s = cps ''do'' then Some Do
      else if s = cps ''match'' then Some Match
      else if s = cps ''match-all'' then Some MatchAll
      else None)"

definition is_flow_keyword :: "keyword_kind \<Rightarrow> bool" where
  "is_flow_keyword k \<longleftrightarrow> k \<in> {Serial, Parallel, Cond, CondAll}"

datatype 'd token_type =
    IntTok int
  | DecTok 'd
  | StringTok "uchar list"
  | BoolTok bool
  | NullTok
  | Identifier "uchar list"
  | Underscore
  | Percent nat
  | Keyword keyword_kind
  | Dot
  | DotDotDot
  | Comma
  | Colon
  | DoubleColon
  | LeftParen
  | RightParen
  | LeftBrace
  | RightBrace
  | LeftBracket
  | RightBracket
  | AngleBracketOpen
  | AngleBracketClose
  | Slash
  | NotTok
  | Arrow
  | Implements
  | TemplateString "uchar list"
  | Pipe
  | PipeOp
  | QuestionMark
  | Newline
  | Eof
  | LineComment "uchar list"
  | BlockComment "uchar list"

record 'd token =
  tok_type :: "'d token_type"
  tok_line :: "32 word"
  tok_column :: "32 word"
  tok_position :: nat
  tok_length :: nat

record lexer =
  source_chars :: "uchar list"
  lx_position :: nat
  lx_line :: nat
  lx_column :: nat
  lx_errors :: "lexer_error list"

record 'd lexer_env =
  unicode_alphabetic :: "uchar \<Rightarrow> bool"
  unicode_numeric :: "uchar \<Rightarrow> bool"
  dec_from_str :: "string \<Rightarrow> 'd option"

text \<open>An environment for ASCII sources without decimals, for concrete runs.\<close>

definition ascii_env :: "unit lexer_env" where
  "ascii_env = \<lparr>unicode_alphabetic = (\<lambda>_. False), unicode_numeric = (\<lambda>_. False),
     dec_from_str = (\<lambda>_. None)\<rparr>"

text \<open>Classes of characters: \<^verbatim>\<open>char::is_ascii_digit\<close> and the like.\<close>

definition ascii_digit :: "uchar \<Rightarrow> bool" where
  "ascii_digit c \<longleftrightarrow> cp CHR ''0'' \<le> c \<and> c \<le> cp CHR ''9''"

definition ascii_letter :: "uchar \<Rightarrow> bool" where
  "ascii_letter c \<longleftrightarrow> cp CHR ''a'' \<le> c \<and> c \<le> cp CHR ''z'' \<or> cp CHR ''A'' \<le> c \<and> c \<le> cp CHR ''Z''"

definition ascii_hexdigit :: "uchar \<Rightarrow> bool" where
  "ascii_hexdigit c \<longleftrightarrow> ascii_digit c \<or> cp CHR ''a'' \<le> c \<and> c \<le> cp CHR ''f'' \<or>
     cp CHR ''A'' \<le> c \<and> c \<le> cp CHR ''F''"

definition is_alphabetic :: "'d lexer_env \<Rightarrow> uchar \<Rightarrow> bool" where
  "is_alphabetic U c \<longleftrightarrow> ascii_letter c \<or> c > 127 \<and> unicode_alphabetic U c"

definition is_alphanumeric :: "'d lexer_env \<Rightarrow> uchar \<Rightarrow> bool" where
  "is_alphanumeric U c \<longleftrightarrow> is_alphabetic U c \<or> ascii_digit c \<or> c > 127 \<and> unicode_numeric U c"

text \<open>The cursor.\<close>

definition new :: "uchar list \<Rightarrow> lexer" where
  "new source = \<lparr>source_chars = source, lx_position = 0, lx_line = 1, lx_column = 1, lx_errors = []\<rparr>"

definition is_at_end :: "lexer \<Rightarrow> bool" where
  "is_at_end l \<longleftrightarrow> lx_position l \<ge> length (source_chars l)"

definition peek_at :: "nat \<Rightarrow> lexer \<Rightarrow> uchar" where
  "peek_at offset l =
     (if lx_position l + offset < length (source_chars l)
      then source_chars l ! (lx_position l + offset) else 0)"

definition peek :: "lexer \<Rightarrow> uchar" where
  "peek l = (if lx_position l < length (source_chars l) then source_chars l ! lx_position l else 0)"

definition peek_next :: "lexer \<Rightarrow> uchar" where
  "peek_next l =
     (if lx_position l + 1 < length (source_chars l)
      then source_chars l ! (lx_position l + 1) else 0)"

definition advance :: "lexer \<Rightarrow> lexer" where
  "advance l =
     (if \<not> is_at_end l then
        (if peek l = cp CHR 0x0A
         then l\<lparr>lx_position := lx_position l + 1, lx_line := lx_line l + 1, lx_column := 1\<rparr>
         else l\<lparr>lx_position := lx_position l + 1, lx_column := lx_column l + 1\<rparr>)
      else l)"

definition remaining_len :: "lexer \<Rightarrow> nat" where
  "remaining_len l = length (source_chars l) - lx_position l"

definition lx_error :: "lexer_error_kind \<Rightarrow> lexer \<Rightarrow> lexer_error" where
  "lx_error kind l =
     \<lparr>err_kind = kind, err_line = lx_line l, err_column = lx_column l, err_position = lx_position l\<rparr>"

lemma remaining_len_advance: "\<not> is_at_end l \<Longrightarrow> remaining_len (advance l) < remaining_len l"
  by (simp add: remaining_len_def advance_def is_at_end_def)

lemma peek_at_end: "is_at_end l \<Longrightarrow> peek l = 0"
  by (simp add: is_at_end_def peek_def)

lemma ascii_digit_not_0: "\<not> ascii_digit 0"
  by (simp add: ascii_digit_def)

text \<open>The readers. A loop carries what it has pushed so far.\<close>

function skip_whitespace :: "lexer \<Rightarrow> lexer" where
  "skip_whitespace l =
     (if peek l \<in> {cp CHR '' '', cp CHR 0x09, cp CHR 0x0D} then skip_whitespace (advance l) else l)"
  by pat_completeness auto
termination
  by (relation "measure remaining_len") (auto intro!: remaining_len_advance dest: peek_at_end)

function read_line_comment :: "uchar list \<Rightarrow> lexer \<Rightarrow> uchar list \<times> lexer" where
  "read_line_comment comment l =
     (if \<not> is_at_end l \<and> peek l \<noteq> cp CHR 0x0A
      then read_line_comment (comment @ [peek l]) (advance l) else (comment, l))"
  by pat_completeness auto
termination
  by (relation "measure (remaining_len \<circ> snd)") (auto intro: remaining_len_advance)

function read_block_comment :: "uchar list \<Rightarrow> lexer \<Rightarrow> uchar list \<times> lexer" where
  "read_block_comment comment l =
     (if \<not> is_at_end l then
        (if peek l = cp CHR ''*'' \<and> peek_next l = cp CHR ''/'' then (comment, advance (advance l))
         else read_block_comment (comment @ [peek l]) (advance l))
      else (comment, l))"
  by pat_completeness auto
termination
  by (relation "measure (remaining_len \<circ> snd)") (auto intro: remaining_len_advance)

function read_identifier :: "'d lexer_env \<Rightarrow> uchar list \<Rightarrow> lexer \<Rightarrow> uchar list \<times> lexer" where
  "read_identifier U identifier l =
     (if \<not> is_at_end l \<and> (is_alphanumeric U (peek l) \<or> peek l = cp CHR ''_'' \<or>
           peek l = cp CHR ''$'' \<or> peek l = cp CHR ''-'')
      then read_identifier U (identifier @ [peek l]) (advance l) else (identifier, l))"
  by pat_completeness auto
termination
  by (relation "measure (remaining_len \<circ> snd \<circ> snd)") (auto intro: remaining_len_advance)

function read_percent_digits :: "uchar list \<Rightarrow> lexer \<Rightarrow> uchar list \<times> lexer" where
  "read_percent_digits num_str l =
     (if ascii_digit (peek l) then read_percent_digits (num_str @ [peek l]) (advance l)
      else (num_str, l))"
  by pat_completeness auto
termination
  by (relation "measure (remaining_len \<circ> snd)")
    (auto intro!: remaining_len_advance dest: peek_at_end simp: ascii_digit_not_0)

function read_number_loop :: "uchar list \<Rightarrow> bool \<Rightarrow> lexer \<Rightarrow> uchar list \<times> bool \<times> lexer" where
  "read_number_loop number has_decimal l =
     (if \<not> is_at_end l \<and> (ascii_digit (peek l) \<or> peek l = cp CHR ''.'') then
        (if peek l = cp CHR ''.'' then
           (if has_decimal then (number, has_decimal, l)
            else read_number_loop (number @ [peek l]) True (advance l))
         else read_number_loop (number @ [peek l]) has_decimal (advance l))
      else (number, has_decimal, l))"
  by pat_completeness auto
termination
  by (relation "measure (remaining_len \<circ> snd \<circ> snd)") (auto intro: remaining_len_advance)

definition read_number ::
    "'d lexer_env \<Rightarrow> lexer \<Rightarrow> (lexer_error + 'd token_type) \<times> lexer" where
  "read_number U l =
     (let (number, l) = (if peek l = cp CHR ''-'' then ([peek l], advance l) else ([], l));
          (number, has_decimal, l) = read_number_loop number False l
      in if has_decimal then
           (case dec_from_str U (ascii_text number) of
              Some d \<Rightarrow> (Inr (DecTok d), l)
            | None \<Rightarrow> (Inl (lx_error (InvalidNumber number) l), l))
         else
           (case parse_i64 (ascii_text number) of
              Some i \<Rightarrow> (Inr (IntTok i), l)
            | None \<Rightarrow> (Inl (lx_error (InvalidNumber number) l), l)))"

text \<open>Escapes: \<open>\u\<close> takes four and \<open>\x\<close> two hexadecimal digits.\<close>

fun read_hex :: "nat \<Rightarrow> uchar list \<Rightarrow> lexer \<Rightarrow> uchar list \<times> bool \<times> lexer" where
  "read_hex 0 digits l = (digits, True, l)"
| "read_hex (Suc n) digits l =
     (if \<not> is_at_end l \<and> ascii_hexdigit (peek l)
      then read_hex n (digits @ [peek l]) (advance l) else (digits, False, l))"

definition hex_digit_value :: "uchar \<Rightarrow> nat" where
  "hex_digit_value c =
     (if ascii_digit c then c - 48 else if c \<ge> cp CHR ''a'' then c - 87 else c - 55)"

definition from_str_radix_16 :: "uchar list \<Rightarrow> nat" where
  "from_str_radix_16 digits = foldl (\<lambda>v d. 16 * v + hex_digit_value d) 0 digits"

definition char_from_u32 :: "nat \<Rightarrow> uchar option" where
  "char_from_u32 c = (if c < 0x110000 \<and> \<not> (0xD800 \<le> c \<and> c \<le> 0xDFFF) then Some c else None)"

definition simple_escape :: "uchar \<Rightarrow> uchar option" where
  "simple_escape c =
     (if c = cp CHR 0x22 then Some (cp CHR 0x22)
      else if c = cp CHR 0x5C then Some (cp CHR 0x5C)
      else if c = cp CHR ''n'' then Some (cp CHR 0x0A)
      else if c = cp CHR ''t'' then Some (cp CHR 0x09)
      else if c = cp CHR ''r'' then Some (cp CHR 0x0D)
      else if c = cp CHR ''0'' then Some 0
      else if c = cp CHR 0x27 then Some (cp CHR 0x27)
      else if c = cp CHR ''/'' then Some (cp CHR ''/'')
      else if c = cp CHR ''b'' then Some 8
      else if c = cp CHR ''f'' then Some 12
      else if c = cp CHR ''v'' then Some 11
      else if c = cp CHR 0x60 then Some (cp CHR 0x60)
      else None)"

definition process_escape_sequence :: "uchar list \<Rightarrow> lexer \<Rightarrow> uchar list \<times> lexer" where
  "process_escape_sequence text l =
     (if is_at_end l then (text @ [cp CHR 0x5C], l)
      else case simple_escape (peek l) of
        Some c \<Rightarrow> (text @ [c], advance l)
      | None \<Rightarrow>
          (if peek l = cp CHR ''u'' then
             (let (digits, complete, l) = read_hex 4 [] (advance l)
              in if \<not> complete then (text @ [cp CHR 0x5C, cp CHR ''u''] @ digits, l)
                 else case char_from_u32 (from_str_radix_16 digits) of
                   Some c \<Rightarrow> (text @ [c], l)
                 | None \<Rightarrow> (text @ [cp CHR 0x5C, cp CHR ''u''] @ digits, l))
           else if peek l = cp CHR ''x'' then
             (let (digits, complete, l) = read_hex 2 [] (advance l)
              in if \<not> complete then (text @ [cp CHR 0x5C, cp CHR ''x''] @ digits, l)
                 else (text @ [from_str_radix_16 digits], l))
           else (text @ [cp CHR 0x5C, peek l], advance l)))"

text \<open>
  Every reader moves the cursor by \<open>advance\<close> alone: \<open>steps l l'\<close> says that \<open>l'\<close> is \<open>l\<close> after
  some number of advances.
\<close>

definition steps :: "lexer \<Rightarrow> lexer \<Rightarrow> bool" where
  "steps l l' \<longleftrightarrow> (\<exists>k. l' = (advance ^^ k) l)"

named_theorems step_intros "the readers move the cursor by advancing"

lemma steps_refl [simp, step_intros]: "steps l l"
  unfolding steps_def by (rule exI [of _ 0]) simp

lemma steps_advance [step_intros]: "steps l (advance l)"
  unfolding steps_def by (rule exI [of _ 1]) simp

lemma steps_trans: "steps a b \<Longrightarrow> steps b c \<Longrightarrow> steps a c"
  unfolding steps_def by (metis comp_apply funpow_add)

lemma steps_advance_left: "steps (advance l) l' \<Longrightarrow> steps l l'"
  by (rule steps_trans [OF steps_advance])

lemma steps_advance_right: "steps l l' \<Longrightarrow> steps l (advance l')"
  by (rule steps_trans [OF _ steps_advance])

lemma steps_advance2: "steps l (advance (advance l))"
  by (rule steps_advance_right) (rule steps_advance)

lemma steps_induct [consumes 1, case_names refl advance]:
  assumes "steps l l'" "P l" "\<And>m. P m \<Longrightarrow> P (advance m)"
  shows "P l'"
proof -
  from assms(1) obtain k where "l' = (advance ^^ k) l" by (auto simp: steps_def)
  moreover have "P ((advance ^^ k) l)" by (induction k) (simp_all add: assms(2,3))
  ultimately show ?thesis by simp
qed

lemma source_advance [simp]: "source_chars (advance l) = source_chars l"
  by (simp add: advance_def)

lemma errors_advance [simp]: "lx_errors (advance l) = lx_errors l"
  by (simp add: advance_def)

lemma steps_source: "steps l l' \<Longrightarrow> source_chars l' = source_chars l"
  by (induction rule: steps_induct) simp_all

lemma steps_errors: "steps l l' \<Longrightarrow> lx_errors l' = lx_errors l"
  by (induction rule: steps_induct) simp_all

lemma steps_position: "steps l l' \<Longrightarrow> lx_position l \<le> lx_position l'"
  by (induction rule: steps_induct) (simp_all add: advance_def)

lemma steps_remaining: "steps l l' \<Longrightarrow> remaining_len l' \<le> remaining_len l"
  using steps_source [of l l'] steps_position [of l l'] by (simp add: remaining_len_def)

lemma steps_read_hex [step_intros]: "read_hex n digits l = (digits', ok, l') \<Longrightarrow> steps l l'"
  by (induction n digits l rule: read_hex.induct)
    (auto split: if_splits intro: steps_advance_left)

lemma steps_process_escape [step_intros]:
  "process_escape_sequence text l = (text', l') \<Longrightarrow> steps l l'"
  by (auto simp: process_escape_sequence_def Let_def split: if_splits option.splits prod.splits
      intro: step_intros steps_advance_left)

lemma remaining_len_escape:
  assumes "\<not> is_at_end l" "process_escape_sequence text (advance l) = (text', l')"
  shows "remaining_len l' < remaining_len l"
  using steps_remaining [OF steps_process_escape [OF assms(2)]] remaining_len_advance [OF assms(1)]
  by simp

text \<open>
  The loop shared by \<open>read_string\<close> and \<open>read_template_literal\<close>, up to the closing quote \<open>q\<close>.
\<close>

function read_quoted_loop :: "uchar \<Rightarrow> uchar list \<Rightarrow> lexer \<Rightarrow> uchar list \<times> lexer" where
  "read_quoted_loop q string l =
     (if \<not> is_at_end l \<and> peek l \<noteq> q then
        (if peek l = cp CHR 0x5C then
           (let r = process_escape_sequence string (advance l)
            in read_quoted_loop q (fst r) (snd r))
         else read_quoted_loop q (string @ [peek l]) (advance l))
      else (string, l))"
  by pat_completeness auto
termination
  by (relation "measure (remaining_len \<circ> snd \<circ> snd)")
    (auto intro: remaining_len_advance remaining_len_escape [OF _ surjective_pairing])

definition read_string :: "lexer \<Rightarrow> (lexer_error + uchar list) \<times> lexer" where
  "read_string l =
     (let (string, l) = read_quoted_loop (cp CHR 0x22) [] (advance l)
      in if is_at_end l then (Inl (lx_error UnterminatedString l), l) else (Inr string, advance l))"

definition read_template_literal :: "lexer \<Rightarrow> (lexer_error + uchar list) \<times> lexer" where
  "read_template_literal l =
     (let (content, l) = read_quoted_loop (cp CHR 0x60) [] (advance l)
      in if is_at_end l then (Inl (lx_error UnterminatedString l), l) else (Inr content, advance l))"

text \<open>
  \<open>strip_indentation\<close>. The code slices a line by bytes; the bytes it cuts off are blanks, one
  byte each (lemma \<open>strip_line_boundary\<close> below), so dropping characters is the same.
\<close>

definition blank :: "uchar \<Rightarrow> bool" where
  "blank c \<longleftrightarrow> c = cp CHR '' '' \<or> c = cp CHR 0x09"

fun replace_crlf :: "uchar list \<Rightarrow> uchar list" where
  "replace_crlf (a # b # s) =
     (if a = cp CHR 0x0D \<and> b = cp CHR 0x0A then cp CHR 0x0A # replace_crlf s
      else a # replace_crlf (b # s))"
| "replace_crlf s = s"

definition normalize_newlines :: "uchar list \<Rightarrow> uchar list" where
  "normalize_newlines content =
     map (\<lambda>c. if c = cp CHR 0x0D then cp CHR 0x0A else c) (replace_crlf content)"

definition drop_closing_line :: "uchar list list \<Rightarrow> uchar list list" where
  "drop_closing_line lines =
     (if lines \<noteq> [] \<and> list_all blank (last lines) then butlast lines else lines)"

definition min_indent :: "uchar list list \<Rightarrow> nat" where
  "min_indent lines =
     (case map (length \<circ> takeWhile blank) (filter (\<lambda>l. l \<noteq> []) lines) of
        [] \<Rightarrow> 0
      | n # ns \<Rightarrow> foldl min n ns)"

definition strip_line :: "nat \<Rightarrow> uchar list \<Rightarrow> uchar list" where
  "strip_line n l = (if length l \<ge> n then drop n l else l)"

definition strip_indentation :: "uchar list \<Rightarrow> uchar list" where
  "strip_indentation content =
     (if content = [] then []
      else let lines = drop_closing_line (split_on (cp CHR 0x0A) (normalize_newlines content))
           in join [cp CHR 0x0A] (map (strip_line (min_indent lines)) lines))"

definition skip_first_newline :: "lexer \<Rightarrow> lexer" where
  "skip_first_newline l =
     (if \<not> is_at_end l \<and> peek l = cp CHR 0x0A then advance l
      else if \<not> is_at_end l \<and> peek l = cp CHR 0x0D then
        (let l = advance l
         in if \<not> is_at_end l \<and> peek l = cp CHR 0x0A then advance l else l)
      else l)"

function read_triple_loop ::
    "uchar \<Rightarrow> uchar list \<Rightarrow> nat \<Rightarrow> lexer \<Rightarrow> (lexer_error + uchar list) \<times> lexer" where
  "read_triple_loop q content consecutive l =
     (if \<not> is_at_end l then
        (if peek l = q then
           (if consecutive + 1 = 3
            then (Inr (strip_indentation (take (length content - 2) content)), advance l)
            else read_triple_loop q (content @ [q]) (consecutive + 1) (advance l))
         else read_triple_loop q (content @ [peek l]) 0 (advance l))
      else (Inl (lx_error UnterminatedString l), l))"
  by pat_completeness auto
termination
  by (relation "measure (remaining_len \<circ> snd \<circ> snd \<circ> snd)") (auto intro: remaining_len_advance)

definition read_triple_quote_string :: "lexer \<Rightarrow> (lexer_error + uchar list) \<times> lexer" where
  "read_triple_quote_string l = read_triple_loop (cp CHR 0x22) [] 0 (skip_first_newline l)"

definition read_triple_template_literal :: "lexer \<Rightarrow> (lexer_error + uchar list) \<times> lexer" where
  "read_triple_template_literal l = read_triple_loop (cp CHR 0x60) [] 0 (skip_first_newline l)"

text \<open>
  \<open>next_token\<close>, one definition per arm of its match that does more than consume one
  character.
\<close>

type_synonym 'd scanned = "(lexer_error + 'd token_type) \<times> lexer"

definition punctuation :: "uchar \<Rightarrow> 'd token_type option" where
  "punctuation ch =
     (if ch = cp CHR 0x0A then Some Newline
      else if ch = cp CHR ''('' then Some LeftParen
      else if ch = cp CHR '')'' then Some RightParen
      else if ch = cp CHR ''{'' then Some LeftBrace
      else if ch = cp CHR ''}'' then Some RightBrace
      else if ch = cp CHR ''['' then Some LeftBracket
      else if ch = cp CHR '']'' then Some RightBracket
      else if ch = cp CHR ''<'' then Some AngleBracketOpen
      else if ch = cp CHR ''>'' then Some AngleBracketClose
      else if ch = cp CHR '','' then Some Comma
      else if ch = cp CHR ''!'' then Some NotTok
      else None)"

definition scan_dot :: "lexer \<Rightarrow> 'd scanned" where
  "scan_dot l =
     (let l = advance l
      in if peek l = cp CHR ''.'' \<and> peek_next l = cp CHR ''.''
         then (Inr DotDotDot, advance (advance l)) else (Inr Dot, l))"

definition scan_colon :: "lexer \<Rightarrow> 'd scanned" where
  "scan_colon l =
     (let l = advance l
      in if peek l = cp CHR '':'' then (Inr DoubleColon, advance l) else (Inr Colon, l))"

definition scan_slash :: "lexer \<Rightarrow> 'd scanned" where
  "scan_slash l =
     (let l = advance l
      in if peek l = cp CHR ''/'' then
           (let (comment, l) = read_line_comment [] (advance l) in (Inr (LineComment comment), l))
         else if peek l = cp CHR ''*'' then
           (let (comment, l) = read_block_comment [] (advance l) in (Inr (BlockComment comment), l))
         else (Inr Slash, l))"

definition scan_equals :: "lexer \<Rightarrow> 'd scanned" where
  "scan_equals l =
     (let l = advance l
      in if peek l = cp CHR ''>'' then (Inr Arrow, advance l)
         else (Inl (lx_error (InvalidCharacter (cp CHR ''='')) l), l))"

definition scan_pipe :: "lexer \<Rightarrow> 'd scanned" where
  "scan_pipe l =
     (let l = advance l
      in if peek l = cp CHR ''>'' then (Inr PipeOp, advance l) else (Inr Pipe, l))"

definition scan_question :: "lexer \<Rightarrow> 'd scanned" where
  "scan_question l =
     (let l = advance l
      in if peek l = cp CHR ''?''
         then (Inl (lx_error (InvalidOperator (cps ''??'')
             ([cp CHR 0x27] @ cps ''??'' @ [cp CHR 0x27] @ cps '' is not supported, consider '' @
              [cp CHR 0x27] @ cps ''or(value, default)'' @ [cp CHR 0x27])) l), l)
         else (Inr QuestionMark, l))"

definition scan_text ::
    "('a \<Rightarrow> 'd token_type) \<Rightarrow> (lexer_error + 'a) \<times> lexer \<Rightarrow> 'd scanned" where
  "scan_text tk r = (case r of (Inl e, l) \<Rightarrow> (Inl e, l) | (Inr s, l) \<Rightarrow> (Inr (tk s), l))"

definition scan_quote :: "lexer \<Rightarrow> 'd scanned" where
  "scan_quote l =
     (if peek_next l = cp CHR 0x22 \<and> peek_at 2 l = cp CHR 0x22
      then scan_text StringTok (read_triple_quote_string (advance (advance (advance l))))
      else scan_text StringTok (read_string l))"

definition scan_backtick :: "lexer \<Rightarrow> 'd scanned" where
  "scan_backtick l =
     (if peek_next l = cp CHR 0x60 \<and> peek_at 2 l = cp CHR 0x60
      then scan_text TemplateString (read_triple_template_literal (advance (advance (advance l))))
      else scan_text TemplateString (read_template_literal l))"

definition scan_minus :: "'d lexer_env \<Rightarrow> lexer \<Rightarrow> 'd scanned" where
  "scan_minus U l =
     (if ascii_digit (peek_next l) then read_number U l
      else if peek_next l = cp CHR ''>'' then (Inr Implements, advance (advance l))
      else (Inl (lx_error (InvalidCharacter (peek l)) l), l))"

definition scan_percent :: "lexer \<Rightarrow> 'd scanned" where
  "scan_percent l =
     (let l = advance l
      in if ascii_digit (peek l) then
           (let (num_str, l) = read_percent_digits [] l
            in case parse_usize (ascii_text num_str) of
                 None \<Rightarrow> (Inl (lx_error (InvalidCharacter (cp CHR ''%'')) l), l)
               | Some n \<Rightarrow>
                   (if n = 0
                    then (Inl (lx_error (InvalidOperator (cps ''%0'')
                       (cps ''Placeholder args are 1-based: use %1, %2, etc. (or bare % for %1)'')) l), l)
                    else (Inr (Percent n), l)))
         else (Inr (Percent 0), l))"

definition word_token :: "uchar list \<Rightarrow> 'd token_type" where
  "word_token identifier =
     (if identifier = cps ''true'' then BoolTok True
      else if identifier = cps ''false'' then BoolTok False
      else if identifier = cps ''null'' then NullTok
      else if identifier = cps ''_'' then Underscore
      else case keyword_parse identifier of
        Some keyword \<Rightarrow> Keyword keyword
      | None \<Rightarrow> Identifier identifier)"

definition scan_word :: "'d lexer_env \<Rightarrow> lexer \<Rightarrow> 'd scanned" where
  "scan_word U l = (let (identifier, l) = read_identifier U [] l in (Inr (word_token identifier), l))"

definition scan_token :: "'d lexer_env \<Rightarrow> lexer \<Rightarrow> 'd scanned" where
  "scan_token U l =
     (let ch = peek l
      in case punctuation ch of
           Some t \<Rightarrow> (Inr t, advance l)
         | None \<Rightarrow>
             (if ch = cp CHR ''.'' then scan_dot l
              else if ch = cp CHR '':'' then scan_colon l
              else if ch = cp CHR ''/'' then scan_slash l
              else if ch = cp CHR ''='' then scan_equals l
              else if ch = cp CHR ''|'' then scan_pipe l
              else if ch = cp CHR ''#'' then (Inl (lx_error (InvalidCharacter (cp CHR ''#'')) l), l)
              else if ch = cp CHR ''?'' then scan_question l
              else if ch = cp CHR 0x22 then scan_quote l
              else if ch = cp CHR 0x60 then scan_backtick l
              else if ascii_digit ch then read_number U l
              else if ch = cp CHR ''-'' then scan_minus U l
              else if ch = cp CHR ''%'' then scan_percent l
              else if is_alphabetic U ch \<or> ch = cp CHR ''_'' \<or> ch = cp CHR ''$'' then scan_word U l
              else (Inl (lx_error (InvalidCharacter ch) l), l)))"

definition next_token :: "'d lexer_env \<Rightarrow> lexer \<Rightarrow> (lexer_error + 'd token option) \<times> lexer" where
  "next_token U l =
     (let l = skip_whitespace l
      in if is_at_end l then (Inr None, l)
         else case scan_token U l of
           (Inl e, l') \<Rightarrow> (Inl e, l')
         | (Inr t, l') \<Rightarrow>
             (Inr (Some \<lparr>tok_type = t, tok_line = word_of_nat (lx_line l),
                tok_column = word_of_nat (lx_column l), tok_position = lx_position l,
                tok_length = lx_position l' - lx_position l\<rparr>), l'))"

lemmas reader_loops = skip_whitespace.simps read_line_comment.simps read_block_comment.simps
  read_identifier.simps read_percent_digits.simps read_number_loop.simps read_quoted_loop.simps
  read_triple_loop.simps

declare reader_loops [simp del]

text \<open>Every arm only advances, and one that yields a token consumes at least a character.\<close>

lemma steps_skip_whitespace [step_intros]: "steps l (skip_whitespace l)"
proof (induction l rule: skip_whitespace.induct)
  case (1 l)
  then show ?case by (subst skip_whitespace.simps) (auto intro: steps_advance_left)
qed

lemma steps_read_line_comment [step_intros]: "steps l (snd (read_line_comment c l))"
proof (induction c l rule: read_line_comment.induct)
  case (1 c l)
  then show ?case by (subst read_line_comment.simps) (auto intro: steps_advance_left)
qed

lemma steps_read_block_comment [step_intros]: "steps l (snd (read_block_comment c l))"
proof (induction c l rule: read_block_comment.induct)
  case (1 c l)
  then show ?case
    by (subst read_block_comment.simps)
      (auto intro: steps_advance_left steps_advance_right step_intros)
qed

lemma steps_read_identifier [step_intros]: "steps l (snd (read_identifier U i l))"
proof (induction U i l rule: read_identifier.induct)
  case (1 U i l)
  then show ?case by (subst read_identifier.simps) (auto intro: steps_advance_left)
qed

lemma steps_read_percent_digits [step_intros]: "steps l (snd (read_percent_digits n l))"
proof (induction n l rule: read_percent_digits.induct)
  case (1 n l)
  then show ?case by (subst read_percent_digits.simps) (auto intro: steps_advance_left)
qed

lemma steps_read_number_loop [step_intros]: "steps l (snd (snd (read_number_loop n d l)))"
proof (induction n d l rule: read_number_loop.induct)
  case (1 n d l)
  then show ?case by (subst read_number_loop.simps) (auto intro: steps_advance_left)
qed

lemma steps_read_quoted_loop [step_intros]: "steps l (snd (read_quoted_loop q s l))"
proof (induction q s l rule: read_quoted_loop.induct)
  case (1 q s l)
  let ?r = "process_escape_sequence s (advance l)"
  have esc: "steps l (snd ?r)"
    by (rule steps_advance_left, rule steps_process_escape) (rule surjective_pairing)
  consider (close) "is_at_end l \<or> peek l = q"
    | (escape) "\<not> is_at_end l" "peek l \<noteq> q" "peek l = cp CHR 0x5C"
    | (plain) "\<not> is_at_end l" "peek l \<noteq> q" "peek l \<noteq> cp CHR 0x5C"
    by blast
  then show ?case
  proof cases
    case close
    then show ?thesis by (subst read_quoted_loop.simps) auto
  next
    case escape
    have "steps (snd ?r) (snd (read_quoted_loop q (fst ?r) (snd ?r)))"
      using escape by (intro "1.IH"(1)) auto
    from steps_trans [OF esc this] escape show ?thesis
      by (subst read_quoted_loop.simps) (simp add: Let_def)
  next
    case plain
    then have "steps (advance l) (snd (read_quoted_loop q (s @ [peek l]) (advance l)))"
      by (intro "1.IH"(2)) auto
    from steps_advance_left [OF this] plain show ?thesis
      by (subst read_quoted_loop.simps) simp
  qed
qed

lemma steps_skip_first_newline [step_intros]: "steps l (skip_first_newline l)"
  by (auto simp: skip_first_newline_def Let_def intro: step_intros steps_advance_right)

lemma steps_read_triple_loop [step_intros]: "steps l (snd (read_triple_loop q c n l))"
proof (induction q c n l rule: read_triple_loop.induct)
  case (1 q c n l)
  then show ?case by (subst read_triple_loop.simps) (auto intro: steps_advance_left step_intros)
qed

lemma steps_advance_position:
  "\<not> is_at_end l \<Longrightarrow> steps (advance l) l' \<Longrightarrow> lx_position l < lx_position l'"
  using steps_position [of "advance l" l'] by (simp add: advance_def split: if_splits)

lemma steps_snd: "r = (a, l') \<Longrightarrow> steps l (snd r) \<Longrightarrow> steps l l'"
  by simp

lemma snd_scan_text [simp]: "snd (scan_text tk r) = snd r"
  by (auto simp: scan_text_def split: prod.splits sum.splits)

text \<open>Arms that consume the first character come after \<open>advance l\<close> in every outcome.\<close>

lemma steps_read_string: "steps (advance l) (snd (read_string l))"
  using steps_read_quoted_loop [of "advance l" "cp CHR 0x22" "[]"]
  by (auto simp: read_string_def split: prod.splits intro: steps_advance_right)

lemma steps_read_template_literal: "steps (advance l) (snd (read_template_literal l))"
  using steps_read_quoted_loop [of "advance l" "cp CHR 0x60" "[]"]
  by (auto simp: read_template_literal_def split: prod.splits intro: steps_advance_right)

lemma steps_triple:
  "steps (advance l) (snd (read_triple_loop q [] 0 (skip_first_newline (advance (advance (advance l))))))"
  by (rule steps_advance_left, rule steps_advance_left, rule steps_trans [OF steps_skip_first_newline])
    (rule steps_read_triple_loop)

lemma steps_scan_quote: "steps (advance l) (snd (scan_quote l))"
  by (simp add: scan_quote_def read_triple_quote_string_def steps_triple steps_read_string)

lemma steps_scan_backtick: "steps (advance l) (snd (scan_backtick l))"
  by (simp add: scan_backtick_def read_triple_template_literal_def steps_triple
      steps_read_template_literal)

lemma steps_scan_slash: "steps (advance l) (snd (scan_slash l))"
  using steps_read_line_comment [of "advance (advance l)" "[]"]
    steps_read_block_comment [of "advance (advance l)" "[]"]
  by (auto simp: scan_slash_def Let_def split: prod.splits intro: steps_advance_left)

lemma steps_scan_percent: "steps (advance l) (snd (scan_percent l))"
  using steps_read_percent_digits [of "advance l" "[]"]
  by (auto simp: scan_percent_def Let_def split: prod.splits option.splits)

lemma steps_read_number:
  assumes "ascii_digit (peek l) \<or> peek l = cp CHR ''-''" "\<not> is_at_end l"
  shows "steps (advance l) (snd (read_number U l))"
proof (cases "peek l = cp CHR ''-''")
  case True
  then show ?thesis
    using steps_read_number_loop [of "advance l" "[peek l]" False]
    by (auto simp: read_number_def split: prod.splits option.splits)
next
  case False
  have dot: "\<not> ascii_digit (cp CHR ''.'')" by (simp add: ascii_digit_def)
  with False assms have "read_number_loop [] False l = read_number_loop [peek l] False (advance l)"
    by (subst read_number_loop.simps) auto
  with False show ?thesis
    using steps_read_number_loop [of "advance l" "[peek l]" False]
    by (auto simp: read_number_def split: prod.splits option.splits)
qed

lemma steps_scan_word:
  assumes "is_alphabetic U (peek l) \<or> peek l = cp CHR ''_'' \<or> peek l = cp CHR ''$''" "\<not> is_at_end l"
  shows "steps (advance l) (snd (scan_word U l))"
proof -
  have "read_identifier U [] l = read_identifier U [peek l] (advance l)"
    using assms by (subst read_identifier.simps) (auto simp: is_alphanumeric_def)
  then show ?thesis
    using steps_read_identifier [of "advance l" U "[peek l]"]
    by (auto simp: scan_word_def split: prod.splits)
qed

lemma steps_short_arms:
  "steps (advance l) (snd (scan_dot l))" "steps (advance l) (snd (scan_colon l))"
  "steps (advance l) (snd (scan_equals l))" "steps (advance l) (snd (scan_pipe l))"
  "steps (advance l) (snd (scan_question l))"
  by (auto simp: scan_dot_def scan_colon_def scan_equals_def scan_pipe_def scan_question_def Let_def
      intro: steps_advance steps_advance2)

lemmas steps_arms = steps_short_arms steps_scan_slash steps_scan_quote steps_scan_backtick
  steps_scan_percent

definition arm_ok :: "lexer \<Rightarrow> 'd scanned \<Rightarrow> bool" where
  "arm_ok l r \<longleftrightarrow> steps (advance l) (snd r) \<or> snd r = l \<and> (\<exists>e. fst r = Inl e)"

lemma arm_okI: "steps (advance l) (snd r) \<Longrightarrow> arm_ok l r"
  by (simp add: arm_ok_def)

lemma arm_ok_error: "arm_ok l (Inl e, l)"
  by (simp add: arm_ok_def)

lemma arm_ok_advance: "arm_ok l (Inr t, advance l)"
  by (rule arm_okI) simp

lemma arm_ok_if: "(b \<Longrightarrow> arm_ok l r) \<Longrightarrow> (\<not> b \<Longrightarrow> arm_ok l r') \<Longrightarrow> arm_ok l (if b then r else r')"
  by simp

lemma arm_ok_punctuation:
  "arm_ok l r \<Longrightarrow> arm_ok l (case p of Some t \<Rightarrow> (Inr t, advance l) | None \<Rightarrow> r)"
  by (simp add: arm_ok_advance split: option.split)

lemma arm_ok_minus: "peek l = cp CHR ''-'' \<Longrightarrow> \<not> is_at_end l \<Longrightarrow> arm_ok l (scan_minus U l)"
  unfolding scan_minus_def
  by (intro arm_ok_if arm_ok_error) (auto intro!: arm_okI steps_read_number intro: steps_advance)

lemma scan_token_arm: "\<not> is_at_end l \<Longrightarrow> arm_ok l (scan_token U l)"
  unfolding scan_token_def Let_def
  by (intro arm_ok_punctuation arm_ok_if arm_ok_error arm_ok_minus arm_okI steps_arms
      steps_read_number [OF disjI1] steps_scan_word) assumption+

lemma scan_token_steps:
  assumes "\<not> is_at_end l" "scan_token U l = (r, l')"
  shows "steps (advance l) l' \<or> l' = l \<and> (\<exists>e. r = Inl e)"
  using scan_token_arm [OF assms(1), of U] assms(2) by (simp add: arm_ok_def)

lemma skip_whitespace_progress: "lx_position l \<le> lx_position (skip_whitespace l)"
  by (rule steps_position) (rule step_intros)

text \<open>\<open>next_token\<close> makes progress: a call that returns without an error consumes input.\<close>

lemma next_token_steps: "next_token U l = (r, l') \<Longrightarrow> steps l l'"
  using scan_token_steps [of "skip_whitespace l" U] steps_skip_whitespace [of l]
  by (auto simp: next_token_def Let_def split: if_splits prod.splits sum.splits
      intro: steps_trans steps_advance_left)

lemma next_token_progress:
  assumes "\<not> is_at_end l" "next_token U l = (Inr t, l')"
  shows "remaining_len l' < remaining_len l"
proof (cases "is_at_end (skip_whitespace l)")
  case True
  with assms(2) have "l' = skip_whitespace l" by (simp add: next_token_def Let_def)
  with True assms(1) show ?thesis by (simp add: remaining_len_def is_at_end_def)
next
  case False
  with assms(2) obtain tt where "scan_token U (skip_whitespace l) = (Inr tt, l')"
    by (auto simp: next_token_def Let_def split: prod.splits sum.splits)
  from scan_token_steps [OF False this] have st: "steps (advance (skip_whitespace l)) l'" by simp
  have "remaining_len l' < remaining_len (skip_whitespace l)"
    using steps_remaining [OF st] remaining_len_advance [OF False] by simp
  also have "\<dots> \<le> remaining_len l" by (rule steps_remaining) (rule step_intros)
  finally show ?thesis .
qed

text \<open>
  The loop of \<open>tokenize_with_comments\<close>: it ends because a token, or the recovery from an
  error, consumes input.
\<close>

definition push_error :: "lexer_error \<Rightarrow> lexer \<Rightarrow> lexer" where
  "push_error e l = l\<lparr>lx_errors := lx_errors l @ [e]\<rparr>"

lemma push_error_simps [simp]:
  "is_at_end (push_error e l) = is_at_end l" "remaining_len (push_error e l) = remaining_len l"
  "source_chars (push_error e l) = source_chars l" "lx_position (push_error e l) = lx_position l"
  "lx_line (push_error e l) = lx_line l" "lx_column (push_error e l) = lx_column l"
  "lx_errors (push_error e l) = lx_errors l @ [e]"
  by (simp_all add: push_error_def is_at_end_def remaining_len_def)

lemma recovery_progress:
  assumes "next_token U l = (r, l')" "\<not> is_at_end l'"
  shows "remaining_len (advance (push_error e l')) < remaining_len l"
proof -
  have "remaining_len (advance (push_error e l')) < remaining_len (push_error e l')"
    using assms(2) by (intro remaining_len_advance) simp
  also have "\<dots> \<le> remaining_len l"
    using steps_remaining [OF next_token_steps [OF assms(1)]] by simp
  finally show ?thesis .
qed

function tokenize_loop ::
    "'d lexer_env \<Rightarrow> 'd token list \<Rightarrow> lexer \<Rightarrow> 'd token list \<times> lexer" where
  "tokenize_loop U tokens l =
     (if is_at_end l then (tokens, l)
      else case next_token U l of
        (Inr (Some token), l') \<Rightarrow> tokenize_loop U (tokens @ [token]) l'
      | (Inr None, l') \<Rightarrow> tokenize_loop U tokens l'
      | (Inl err, l') \<Rightarrow>
          (let l'' = push_error err l'
           in if \<not> is_at_end l'' then tokenize_loop U tokens (advance l'') else (tokens, l'')))"
  by pat_completeness auto
termination
  by (relation "measure (remaining_len \<circ> snd \<circ> snd)")
    (auto intro: next_token_progress [OF _ sym] recovery_progress [OF sym])

declare tokenize_loop.simps [simp del]

definition eof_token :: "lexer \<Rightarrow> 'd token" where
  "eof_token l =
     \<lparr>tok_type = Eof, tok_line = word_of_nat (lx_line l), tok_column = word_of_nat (lx_column l),
      tok_position = lx_position l, tok_length = 0\<rparr>"

definition tokenize_with_comments :: "'d lexer_env \<Rightarrow> lexer \<Rightarrow> 'd token list \<times> lexer" where
  "tokenize_with_comments U l =
     (let (tokens, l) = tokenize_loop U [] l in (tokens @ [eof_token l], l))"

fun is_comment_token :: "'d token_type \<Rightarrow> bool" where
  "is_comment_token (LineComment _) = True"
| "is_comment_token (BlockComment _) = True"
| "is_comment_token _ = False"

definition tokenize :: "'d lexer_env \<Rightarrow> lexer \<Rightarrow> 'd token list \<times> lexer" where
  "tokenize U l =
     (let (all_tokens, l) = tokenize_with_comments U l
      in (filter (\<lambda>t. \<not> is_comment_token (tok_type t)) all_tokens, l))"

end
