(* ===== verification/Hot_Tokens.thy ===== *)
theory Hot_Tokens
  imports Hot_Lexer
begin

text \<open>
  What the token stream of \<^verbatim>\<open>lexer.rs\<close> promises its clients (the parser, the formatter and
  the language server): positions, lines and columns are those of the source, the tokens
  are in order and do not overlap, the stream ends with its only \<open>Eof\<close>, and a source that
  lexes without errors is covered by its tokens up to blanks.
\<close>

section \<open>Locations\<close>

definition line_at :: "uchar list \<Rightarrow> nat \<Rightarrow> nat" where
  "line_at src p = 1 + length (filter (\<lambda>c. c = cp CHR 0x0A) (take p src))"

definition column_at :: "uchar list \<Rightarrow> nat \<Rightarrow> nat" where
  "column_at src p = 1 + length (takeWhile (\<lambda>c. c \<noteq> cp CHR 0x0A) (rev (take p src)))"

definition located :: "lexer \<Rightarrow> bool" where
  "located l \<longleftrightarrow> lx_position l \<le> length (source_chars l) \<and>
     lx_line l = line_at (source_chars l) (lx_position l) \<and>
     lx_column l = column_at (source_chars l) (lx_position l)"

lemma located_new: "located (new src)"
  by (simp add: located_def new_def line_at_def column_at_def)

lemma located_advance:
  assumes "located l"
  shows "located (advance l)"
proof (cases "is_at_end l")
  case True
  with assms show ?thesis by (simp add: advance_def)
next
  case False
  then have "take (Suc (lx_position l)) (source_chars l) =
      take (lx_position l) (source_chars l) @ [source_chars l ! lx_position l]"
    by (simp add: is_at_end_def take_Suc_conv_app_nth)
  with False assms show ?thesis
    by (auto simp: located_def advance_def line_at_def column_at_def is_at_end_def peek_def)
qed

lemma located_push_error [simp]: "located (push_error e l) = located l"
  by (simp add: located_def)

lemma located_steps: "steps l l' \<Longrightarrow> located l \<Longrightarrow> located l'"
  by (induction rule: steps_induct) (simp_all add: located_advance)

lemma line_at_le: "line_at src p \<le> length src + 1"
  unfolding line_at_def using length_filter_le [of "\<lambda>c. c = cp CHR 0x0A" "take p src"]
  by (simp del: length_filter_le)

lemma column_at_le: "column_at src p \<le> length src + 1"
  unfolding column_at_def
  using length_takeWhile_le [of "\<lambda>c. c \<noteq> cp CHR 0x0A" "rev (take p src)"] by simp

section \<open>Tilings\<close>

text \<open>
  \<open>tiles gap a ts b\<close>: the tokens \<open>ts\<close> follow one another from position \<open>a\<close> to position \<open>b\<close>
  and what lies between two of them, and before and after them, is a \<open>gap\<close>.
\<close>

fun tiles :: "(nat \<Rightarrow> nat \<Rightarrow> bool) \<Rightarrow> nat \<Rightarrow> 'd token list \<Rightarrow> nat \<Rightarrow> bool" where
  "tiles gap a [] b = gap a b"
| "tiles gap a (t # ts) b =
     (gap a (tok_position t) \<and> tiles gap (tok_position t + tok_length t) ts b)"

definition whitespace :: "uchar \<Rightarrow> bool" where
  "whitespace c \<longleftrightarrow> c \<in> {cp CHR '' '', cp CHR 0x09, cp CHR 0x0D}"

definition blanks :: "uchar list \<Rightarrow> nat \<Rightarrow> nat \<Rightarrow> bool" where
  "blanks src a b \<longleftrightarrow> a \<le> b \<and> (\<forall>i. a \<le> i \<and> i < b \<longrightarrow> whitespace (src ! i))"

locale gap_relation =
  fixes gap :: "nat \<Rightarrow> nat \<Rightarrow> bool"
  assumes gap_refl: "gap a a"
    and gap_trans: "gap a b \<Longrightarrow> gap b c \<Longrightarrow> gap a c"
begin

lemma tiles_extend: "tiles gap a ts b \<Longrightarrow> gap b c \<Longrightarrow> tiles gap a ts c"
  by (induction ts arbitrary: a) (auto intro: gap_trans)

lemma tiles_snoc:
  "tiles gap a ts b \<Longrightarrow> gap b (tok_position t) \<Longrightarrow> tok_position t + tok_length t = c \<Longrightarrow>
   tiles gap a (ts @ [t]) c"
  by (induction ts arbitrary: a) (auto intro: gap_trans gap_refl)

end

interpretation ord: gap_relation "(\<le>)"
  by unfold_locales auto

interpretation bl: gap_relation "blanks src" for src
proof
  fix a b c
  assume ab: "blanks src a b" and bc: "blanks src b c"
  show "blanks src a c"
    unfolding blanks_def
  proof (intro conjI allI impI)
    show "a \<le> c" using ab bc by (simp add: blanks_def)
    fix i assume "a \<le> i \<and> i < c"
    with ab bc show "whitespace (src ! i)" by (cases "i < b") (auto simp: blanks_def)
  qed
qed (auto simp: blanks_def)

lemma tiles_le: "tiles (blanks src) a ts b \<Longrightarrow> tiles (\<le>) a ts b"
  by (induction ts arbitrary: a) (auto simp: blanks_def)

lemma skip_whitespace_blanks:
  "located l \<Longrightarrow> blanks (source_chars l) (lx_position l) (lx_position (skip_whitespace l))"
proof (induction l rule: skip_whitespace.induct)
  case (1 l)
  show ?case
  proof (cases "whitespace (peek l)")
    case True
    then have ne: "\<not> is_at_end l" by (auto simp: whitespace_def dest: peek_at_end)
    have "blanks (source_chars l) (lx_position (advance l)) (lx_position (skip_whitespace (advance l)))"
      using "1.IH" True "1.prems" located_advance by (simp add: whitespace_def)
    moreover have "blanks (source_chars l) (lx_position l) (lx_position (advance l))"
      using ne True by (auto simp: blanks_def advance_def peek_def is_at_end_def less_Suc_eq_le)
    ultimately show ?thesis
      using True bl.gap_trans by (subst skip_whitespace.simps) (auto simp: whitespace_def)
  next
    case False
    then have "skip_whitespace l = l"
      by (subst skip_whitespace.simps) (simp add: whitespace_def)
    then show ?thesis by (simp add: bl.gap_refl)
  qed
qed

section \<open>The invariant of the loop\<close>

definition token_ok :: "uchar list \<Rightarrow> 'd token \<Rightarrow> bool" where
  "token_ok src t \<longleftrightarrow> 0 < tok_length t \<and> tok_position t + tok_length t \<le> length src \<and>
     tok_line t = word_of_nat (line_at src (tok_position t)) \<and>
     tok_column t = word_of_nat (column_at src (tok_position t)) \<and> tok_type t \<noteq> Eof"

definition not_eof :: "'d scanned \<Rightarrow> bool" where
  "not_eof r \<longleftrightarrow> fst r \<noteq> Inr Eof"

lemma not_eof_pair: "not_eof (Inl e, l)" "t \<noteq> Eof \<Longrightarrow> not_eof (Inr t, l)"
  by (simp_all add: not_eof_def)

lemma not_eof_if: "not_eof r \<Longrightarrow> not_eof r' \<Longrightarrow> not_eof (if b then r else r')"
  by simp

lemma not_eof_punctuation:
  "not_eof r \<Longrightarrow> not_eof (case punctuation c of Some t \<Rightarrow> (Inr t, l') | None \<Rightarrow> r)"
  by (auto simp: not_eof_def punctuation_def)

lemma not_eof_text: "(\<And>s. tk s \<noteq> Eof) \<Longrightarrow> not_eof (scan_text tk r)"
  by (auto simp: not_eof_def scan_text_def split: prod.splits sum.splits)

lemma not_eof_number: "not_eof (read_number U l)"
  by (auto simp: not_eof_def read_number_def Let_def split: prod.splits option.splits)

lemma not_eof_word: "not_eof (scan_word U l)"
  by (auto simp: not_eof_def scan_word_def word_token_def split: prod.splits option.splits)

lemma not_eof_arms:
  "not_eof (scan_dot l)" "not_eof (scan_colon l)" "not_eof (scan_equals l)" "not_eof (scan_pipe l)"
  "not_eof (scan_question l)" "not_eof (scan_slash l)" "not_eof (scan_percent l)"
  "not_eof (scan_quote l)" "not_eof (scan_backtick l)" "not_eof (scan_minus U l)"
  unfolding scan_dot_def scan_colon_def scan_equals_def scan_pipe_def scan_question_def Let_def
    scan_quote_def scan_backtick_def scan_minus_def scan_slash_def scan_percent_def
  by (auto intro: not_eof_pair not_eof_text not_eof_number split: prod.splits option.splits)

lemma scan_not_Eof: "scan_token U l = (Inr t, l') \<Longrightarrow> t \<noteq> Eof"
proof -
  have "not_eof (scan_token U l)"
    unfolding scan_token_def Let_def
    by (intro not_eof_punctuation not_eof_if not_eof_pair not_eof_arms not_eof_number not_eof_word)
  then show "scan_token U l = (Inr t, l') \<Longrightarrow> t \<noteq> Eof" by (auto simp: not_eof_def)
qed

lemma next_token_Some:
  assumes "located l" "next_token U l = (Inr (Some t), l')"
  shows "token_ok (source_chars l) t \<and> blanks (source_chars l) (lx_position l) (tok_position t) \<and>
    tok_position t + tok_length t = lx_position l'"
proof -
  let ?m = "skip_whitespace l"
  obtain tt where m: "\<not> is_at_end ?m" "scan_token U ?m = (Inr tt, l')"
    "t = \<lparr>tok_type = tt, tok_line = word_of_nat (lx_line ?m), tok_column = word_of_nat (lx_column ?m),
       tok_position = lx_position ?m, tok_length = lx_position l' - lx_position ?m\<rparr>"
    using assms(2) by (auto simp: next_token_def Let_def split: if_splits prod.splits sum.splits)
  have st: "steps (advance ?m) l'" using scan_token_steps [OF m(1,2)] by simp
  have loc: "located ?m" using located_steps [OF steps_skip_whitespace assms(1)] .
  then have "located l'" using located_steps [OF st] located_advance by blast
  moreover have src: "source_chars l' = source_chars l" "source_chars ?m = source_chars l"
    using steps_source [OF st] steps_source [OF steps_skip_whitespace [of l]] by simp_all
  ultimately show ?thesis
    using loc steps_advance_position [OF m(1) st] scan_not_Eof [OF m(2)]
      skip_whitespace_blanks [OF assms(1)]
    by (simp add: m(3) token_ok_def located_def)
qed

lemma next_token_None:
  assumes "located l" "next_token U l = (Inr None, l')"
  shows "blanks (source_chars l) (lx_position l) (lx_position l')"
  using assms skip_whitespace_blanks [OF assms(1)]
  by (auto simp: next_token_def Let_def split: if_splits prod.splits sum.splits)

definition stream_inv :: "uchar list \<Rightarrow> 'd token list \<Rightarrow> lexer \<Rightarrow> bool" where
  "stream_inv src tokens l \<longleftrightarrow>
     source_chars l = src \<and> located l \<and> list_all (token_ok src) tokens \<and>
     tiles (\<le>) 0 tokens (lx_position l) \<and>
     (lx_errors l = [] \<longrightarrow> tiles (blanks src) 0 tokens (lx_position l))"

lemma stream_inv_new: "stream_inv src [] (new src)"
  by (simp add: stream_inv_def located_new) (simp add: new_def bl.gap_refl)

lemma stream_inv_token:
  assumes "stream_inv src tokens l" "next_token U l = (Inr (Some t), l')"
  shows "stream_inv src (tokens @ [t]) l'"
proof -
  have st: "steps l l'" using assms(2) by (rule next_token_steps)
  have inv: "located l" "source_chars l = src" using assms(1) by (simp_all add: stream_inv_def)
  note t = next_token_Some [OF inv(1) assms(2), unfolded inv(2)]
  have "lx_position l \<le> tok_position t" using t by (simp add: blanks_def)
  then have "tiles (\<le>) 0 (tokens @ [t]) (lx_position l')"
    using assms(1) t ord.tiles_snoc by (auto simp: stream_inv_def)
  moreover have "tiles (blanks src) 0 (tokens @ [t]) (lx_position l')" if "lx_errors l = []"
    using assms(1) t bl.tiles_snoc that by (auto simp: stream_inv_def)
  ultimately show ?thesis
    using assms(1) t located_steps [OF st inv(1)] steps_source [OF st] steps_errors [OF st]
    by (simp add: stream_inv_def)
qed

lemma stream_inv_gap:
  assumes "stream_inv src tokens l" "next_token U l = (Inr None, l')"
  shows "stream_inv src tokens l'"
proof -
  have st: "steps l l'" using assms(2) by (rule next_token_steps)
  have inv: "located l" "source_chars l = src" using assms(1) by (simp_all add: stream_inv_def)
  note gap = next_token_None [OF inv(1) assms(2), unfolded inv(2)]
  show ?thesis
    using assms(1) located_steps [OF st inv(1)] steps_source [OF st] steps_errors [OF st]
      bl.tiles_extend [OF _ gap, of 0 tokens] ord.tiles_extend [OF _ steps_position [OF st], of 0 tokens]
    by (simp add: stream_inv_def)
qed

lemma stream_inv_error:
  assumes "stream_inv src tokens l" "next_token U l = (Inl e, l')"
  shows "stream_inv src tokens (push_error e l')"
proof -
  have st: "steps l l'" using assms(2) by (rule next_token_steps)
  then show ?thesis
    using assms(1) located_steps [OF st] steps_source [OF st]
      ord.tiles_extend [OF _ steps_position [OF st], of 0 tokens]
    by (simp add: stream_inv_def)
qed

lemma stream_inv_advance:
  "stream_inv src tokens l \<Longrightarrow> lx_errors l \<noteq> [] \<Longrightarrow> stream_inv src tokens (advance l)"
  using ord.tiles_extend [OF _ steps_position [OF steps_advance [of l]], of 0 tokens]
  by (simp add: stream_inv_def located_advance)

lemma tokenize_loop_inv:
  "stream_inv src tokens l \<Longrightarrow>
   (case tokenize_loop U tokens l of (ts, l') \<Rightarrow> stream_inv src ts l' \<and> is_at_end l')"
proof (induction U tokens l rule: tokenize_loop.induct)
  case (1 U tokens l)
  obtain r l' where nt: "next_token U l = (r, l')" by fastforce
  consider (finish) "is_at_end l" | (token) t where "\<not> is_at_end l" "r = Inr (Some t)"
    | (gap) "\<not> is_at_end l" "r = Inr None" | (error) e where "\<not> is_at_end l" "r = Inl e"
    by (metis sum.exhaust option.exhaust)
  then show ?case
  proof cases
    case finish
    with "1.prems" show ?thesis by (subst tokenize_loop.simps) simp
  next
    case token
    with "1.IH"(3) nt "1.prems" show ?thesis
      by (subst tokenize_loop.simps) (simp add: stream_inv_token)
  next
    case gap
    with "1.IH"(2) nt "1.prems" show ?thesis
      by (subst tokenize_loop.simps) (simp add: stream_inv_gap)
  next
    case error
    note e = stream_inv_error [OF "1.prems" nt [unfolded error(2)]]
    show ?thesis
    proof (cases "is_at_end l'")
      case True
      with e error nt show ?thesis by (subst tokenize_loop.simps) (simp add: Let_def)
    next
      case False
      with e have "stream_inv src tokens (advance (push_error e l'))"
        by (intro stream_inv_advance) simp_all
      with False error nt "1.IH"(1) show ?thesis
        by (subst tokenize_loop.simps) (simp add: Let_def)
    qed
  qed
qed

section \<open>The token stream\<close>

lemma stream_facts:
  assumes "tokenize_with_comments U (new src) = (ts, l)"
  shows "\<exists>ts'. ts = ts' @ [eof_token l] \<and> stream_inv src ts' l \<and> lx_position l = length src"
  using assms tokenize_loop_inv [OF stream_inv_new, of src U]
  by (auto simp: tokenize_with_comments_def stream_inv_def located_def is_at_end_def
      split: prod.splits)

lemma unat_location: "n < 2 ^ 32 \<Longrightarrow> unat (word_of_nat n :: 32 word) = n"
  by (simp add: unat_of_nat take_bit_nat_eq_self)

text \<open>
  Every token lies inside the source, and (in a source of fewer than 2^32 - 1
  characters) its line and column are those of its first character: one more than the
  number of newlines before it, and one more than the characters since the last of them.
\<close>

theorem tokens_located:
  assumes "tokenize_with_comments U (new src) = (ts, l)" "t \<in> set ts" "length src < 2 ^ 32 - 1"
  shows "tok_position t + tok_length t \<le> length src \<and>
    unat (tok_line t) = line_at src (tok_position t) \<and>
    unat (tok_column t) = column_at src (tok_position t)"
proof -
  have "line_at src p < 2 ^ 32" "column_at src p < 2 ^ 32" for p
    using line_at_le [of src p] column_at_le [of src p] assms(3) by simp_all
  note small = this [THEN unat_location]
  from stream_facts [OF assms(1)] assms(2) have "t = eof_token l \<or> token_ok src t"
    "lx_position l = length src" "located l" "source_chars l = src"
    by (auto simp: stream_inv_def list_all_iff)
  then show ?thesis
    by (elim disjE) (simp_all add: token_ok_def eof_token_def located_def small)
qed

lemma tokens_located_witness:
  "\<exists>ts l. tokenize_with_comments ascii_env (new (cps ''a => 1'')) = (ts, l) \<and>
    unat (tok_column (ts ! 1)) = 3"
proof -
  obtain ts l where r: "tokenize_with_comments ascii_env (new (cps ''a => 1'')) = (ts, l)" by fastforce
  have two: "1 < length (fst (tokenize_with_comments ascii_env (new (cps ''a => 1''))))"
    "tok_position (fst (tokenize_with_comments ascii_env (new (cps ''a => 1''))) ! 1) = 2"
    by code_simp+
  have len: "length (cps ''a => 1'') < 2 ^ 32 - 1" by simp
  have "ts ! 1 \<in> set ts" using two(1) r by simp
  from tokens_located [OF r this len] two(2) r show ?thesis
    by (simp add: column_at_def)
qed

text \<open>
  The tokens are in order and do not overlap, each is at least one character long, and
  the stream ends with one \<open>Eof\<close> at the end of the source, the only one.
\<close>

theorem tokens_ordered:
  "\<exists>ts' l. tokenize_with_comments U (new src) = (ts' @ [eof_token l], l) \<and>
     tiles (\<le>) 0 ts' (length src) \<and> lx_position l = length src \<and>
     list_all (\<lambda>t. tok_type t \<noteq> Eof \<and> 0 < tok_length t) ts'"
proof -
  obtain ts l where r: "tokenize_with_comments U (new src) = (ts, l)" by fastforce
  from stream_facts [OF this] obtain ts' where
    ts': "ts = ts' @ [eof_token l]" "stream_inv src ts' l" "lx_position l = length src" by blast
  have "list_all (\<lambda>t. tok_type t \<noteq> Eof \<and> 0 < tok_length t) ts'"
    using ts'(2) by (auto simp: stream_inv_def token_ok_def list_all_iff)
  with r ts' show ?thesis by (auto simp: stream_inv_def)
qed

text \<open>
  C23. Nothing is lost: when the lexer reports no error, the characters outside the tokens
  are blanks (space, tab, carriage return), so the formatter can rebuild the source from
  the tokens with their comments.
\<close>

theorem tokens_cover_source:
  assumes "tokenize_with_comments U (new src) = (ts, l)" "lx_errors l = []"
  shows "tiles (blanks src) 0 ts (length src)"
proof -
  from stream_facts [OF assms(1)] obtain ts' where
    ts': "ts = ts' @ [eof_token l]" "stream_inv src ts' l" "lx_position l = length src" by blast
  then have "tiles (blanks src) 0 ts' (length src)" using assms(2) by (simp add: stream_inv_def)
  then show ?thesis
    unfolding ts'(1) by (rule bl.tiles_snoc) (simp_all add: eof_token_def ts'(3) bl.gap_refl)
qed

lemma tokens_cover_source_witness:
  "tiles (blanks (cps ''f (x) // c'')) 0
     (fst (tokenize_with_comments ascii_env (new (cps ''f (x) // c''))))
     (length (cps ''f (x) // c''))"
proof -
  have "lx_errors (snd (tokenize_with_comments ascii_env (new (cps ''f (x) // c'')))) = []" by code_simp
  from tokens_cover_source [OF surjective_pairing this] show ?thesis .
qed

section \<open>Error recovery\<close>

text \<open>
  After a lone \<open>=\<close> the recovery loses the character that follows: \<open>next_token\<close> has already
  consumed the \<open>=\<close> when it reports it, so the error carries the next position, and the loop
  then skips one more character. In \<^verbatim>\<open>x=5\<close> the number disappears from the tokens.
\<close>

theorem equals_recovery_drops_character:
  "map tok_type (fst (tokenize_with_comments ascii_env (new (cps ''x=5'')))) =
     [Identifier (cps ''x''), Eof] \<and>
   map (\<lambda>e. (err_kind e, err_position e))
     (lx_errors (snd (tokenize_with_comments ascii_env (new (cps ''x=5''))))) =
     [(InvalidCharacter (cp CHR ''=''), 2)]"
  by code_simp

end
