(* ===== verification/Hot_Codegen.thy ===== *)
theory Hot_Codegen
  imports Hot_Tokens
begin

text \<open>
  The source text that \<^verbatim>\<open>crates/hot/src/skill_codegen.rs\<close> writes for strings, block strings
  and map keys, read back by the lexer. The generator is correct when the lexer gives the
  text back as the one token it stands for; the lemmas say for which strings that is so, and
  name the strings for which it is not.
\<close>

section \<open>Definitions\<close>

text \<open>\<^verbatim>\<open>format!("{:x}")\<close>.\<close>

definition hex_char :: "nat \<Rightarrow> uchar" where
  "hex_char d = (if d < 10 then 48 + d else 87 + d)"

fun lower_hex :: "nat \<Rightarrow> uchar list" where
  "lower_hex n = (if n < 16 then [hex_char n] else lower_hex (n div 16) @ [hex_char (n mod 16)])"

declare lower_hex.simps [simp del]

definition escape_hot_char :: "uchar \<Rightarrow> uchar list" where
  "escape_hot_char c =
     (if c = cp CHR 0x5C then [cp CHR 0x5C, cp CHR 0x5C]
      else if c = cp CHR 0x22 then [cp CHR 0x5C, cp CHR 0x22]
      else if c = cp CHR 0x0A then [cp CHR 0x5C, cp CHR ''n'']
      else if c = cp CHR 0x0D then [cp CHR 0x5C, cp CHR ''r'']
      else if c = cp CHR 0x09 then [cp CHR 0x5C, cp CHR ''t'']
      else if c < 0x20 then [cp CHR 0x5C, cp CHR ''u'', cp CHR ''{''] @ lower_hex c @ [cp CHR ''}'']
      else [c])"

definition escape_hot_str :: "uchar list \<Rightarrow> uchar list" where
  "escape_hot_str s = concat (map escape_hot_char s)"

fun contains_text :: "uchar list \<Rightarrow> uchar list \<Rightarrow> bool" where
  "contains_text [] p = (p = [])"
| "contains_text (x # xs) p = (prefix p (x # xs) \<or> contains_text xs p)"

abbreviation quotes3 :: "uchar list" where
  "quotes3 \<equiv> [cp CHR 0x22, cp CHR 0x22, cp CHR 0x22]"

definition body_indent :: "uchar list" where
  "body_indent = cps ''        ''"

definition body_line :: "uchar list \<Rightarrow> uchar list" where
  "body_line l = (if l = [] then [cp CHR 0x0A] else body_indent @ l @ [cp CHR 0x0A])"

definition quoted :: "uchar list \<Rightarrow> uchar list" where
  "quoted s = [cp CHR 0x22] @ escape_hot_str s @ [cp CHR 0x22]"

definition format_body_str :: "uchar list \<Rightarrow> uchar list" where
  "format_body_str body =
     (if body = [] then [cp CHR 0x22, cp CHR 0x22]
      else if \<not> contains_text body quotes3 then
        quotes3 @ [cp CHR 0x0A] @ concat (map body_line (split_on (cp CHR 0x0A) body)) @
        body_indent @ quotes3
      else quoted body)"

definition meta_key_char :: "nat \<Rightarrow> uchar \<Rightarrow> bool" where
  "meta_key_char i c \<longleftrightarrow> ascii_digit c \<or> ascii_letter c \<or> c = cp CHR ''-'' \<or> c = cp CHR ''_'' \<or>
     c = cp CHR ''?'' \<or> c = cp CHR ''!'' \<or> i > 0 \<and> c = cp CHR ''+''"

definition format_meta_key :: "uchar list \<Rightarrow> uchar list" where
  "format_meta_key k =
     (if k \<noteq> [] \<and> list_all (\<lambda>(i, c). meta_key_char i c) (enumerate 0 k) \<and>
          \<not> (case k of [] \<Rightarrow> False | c # _ \<Rightarrow> ascii_digit c)
      then k else quoted k)"

section \<open>Reading from the rest of the input\<close>

text \<open>\<open>rest l\<close> is what the cursor has not passed; the cursor operations in terms of it.\<close>

definition rest :: "lexer \<Rightarrow> uchar list" where
  "rest l = drop (lx_position l) (source_chars l)"

lemma rest_new [simp]: "rest (new src) = src"
  by (simp add: rest_def new_def)

lemma rest_advance [simp]: "rest (advance l) = tl (rest l)"
  by (auto simp: rest_def advance_def is_at_end_def drop_Suc drop_tl)

lemma is_at_end_rest: "is_at_end l \<longleftrightarrow> rest l = []"
  by (simp add: is_at_end_def rest_def)

lemma peek_rest: "peek l = (case rest l of [] \<Rightarrow> 0 | c # _ \<Rightarrow> c)"
  by (auto simp: peek_def rest_def hd_drop_conv_nth [symmetric] split: list.splits)

lemma peek_next_rest: "peek_next l = (case tl (rest l) of [] \<Rightarrow> 0 | c # _ \<Rightarrow> c)"
  by (auto simp: peek_next_def rest_def tl_drop drop_Suc [symmetric] hd_drop_conv_nth [symmetric]
      split: list.splits)

lemma peek_at_rest: "peek_at n l = (case drop n (rest l) of [] \<Rightarrow> 0 | c # _ \<Rightarrow> c)"
  by (auto simp: peek_at_def rest_def add.commute hd_drop_conv_nth [symmetric] split: list.splits)

lemmas cursor = is_at_end_rest peek_rest peek_next_rest peek_at_rest

text \<open>A source that is one token.\<close>

lemma single_token:
  assumes "scan_token U (new src) = (Inr t, l)" "rest l = []" "src \<noteq> []" "\<not> whitespace (hd src)"
  shows "map tok_type (fst (tokenize_with_comments U (new src))) = [t, Eof] \<and>
    lx_errors (snd (tokenize_with_comments U (new src))) = []"
proof -
  have ws: "skip_whitespace (new src) = new src"
    using assms(3,4) by (subst skip_whitespace.simps) (auto simp: cursor whitespace_def split: list.splits)
  have ne: "\<not> is_at_end (new src)" using assms(3) by (simp add: cursor)
  obtain tk where tk: "next_token U (new src) = (Inr (Some tk), l)" "tok_type tk = t"
    using assms(1) ne by (auto simp: next_token_def ws Let_def)
  have fin: "tokenize_loop U ts l = (ts, l)" for ts
    using assms(2) by (subst tokenize_loop.simps) (simp add: cursor)
  have "lx_errors l = []" using steps_errors [OF next_token_steps [OF tk(1)]] by (simp add: new_def)
  moreover have "tokenize_loop U [] (new src) = ([tk], l)"
    using tk(1) ne fin by (subst tokenize_loop.simps) simp
  ultimately show ?thesis using tk(2) by (simp add: tokenize_with_comments_def eof_token_def)
qed

section \<open>Escaped strings\<close>

definition plain_or_escaped :: "uchar \<Rightarrow> bool" where
  "plain_or_escaped c \<longleftrightarrow> c \<ge> 0x20 \<or> c = cp CHR 0x0A \<or> c = cp CHR 0x0D \<or> c = cp CHR 0x09"

lemma process_simple_escape:
  "rest l = c # r \<Longrightarrow> simple_escape c = Some d \<Longrightarrow>
   process_escape_sequence text l = (text @ [d], advance l)"
  by (simp add: process_escape_sequence_def cursor)

lemma escaped_char_cases:
  assumes "plain_or_escaped c"
  obtains (escape) e where "escape_hot_char c = [cp CHR 0x5C, e]" "simple_escape e = Some c"
  | (plain) "escape_hot_char c = [c]" "c \<noteq> cp CHR 0x22" "c \<noteq> cp CHR 0x5C"
proof -
  have esc: "simple_escape 92 = Some 92" "simple_escape 34 = Some 34" "simple_escape 110 = Some 10"
    "simple_escape 114 = Some 13" "simple_escape 116 = Some 9"
    by (simp_all add: simple_escape_def)
  have "(\<exists>e. escape_hot_char c = [92, e] \<and> simple_escape e = Some c) \<or>
      escape_hot_char c = [c] \<and> c \<noteq> 34 \<and> c \<noteq> 92"
    using assms esc
    by (cases "c \<in> {92, 34, 10, 13, 9}") (auto simp: plain_or_escaped_def escape_hot_char_def)
  with that show ?thesis by auto
qed

lemma read_quoted_escaped:
  assumes "list_all plain_or_escaped s" "rest l = escape_hot_str s @ cp CHR 0x22 # r"
  shows "\<exists>l'. read_quoted_loop (cp CHR 0x22) acc l = (acc @ s, l') \<and> rest l' = cp CHR 0x22 # r"
  using assms
proof (induction s arbitrary: acc l)
  case Nil
  then show ?case by (subst read_quoted_loop.simps) (simp add: escape_hot_str_def cursor)
next
  case (Cons c s)
  then have c: "plain_or_escaped c" "list_all plain_or_escaped s"
    and rest: "rest l = escape_hot_char c @ escape_hot_str s @ cp CHR 0x22 # r"
    by (simp_all add: escape_hot_str_def)
  from c(1) show ?case
  proof (cases rule: escaped_char_cases)
    case (escape e)
    then have "process_escape_sequence acc (advance l) = (acc @ [c], advance (advance l))"
      using rest by (intro process_simple_escape) simp_all
    with escape rest have "read_quoted_loop (cp CHR 0x22) acc l =
        read_quoted_loop (cp CHR 0x22) (acc @ [c]) (advance (advance l))"
      by (subst read_quoted_loop.simps) (simp add: cursor Let_def)
    with Cons.IH [OF c(2), of "advance (advance l)" "acc @ [c]"] escape rest show ?thesis by simp
  next
    case plain
    with rest have "read_quoted_loop (cp CHR 0x22) acc l =
        read_quoted_loop (cp CHR 0x22) (acc @ [c]) (advance l)"
      by (subst read_quoted_loop.simps) (simp add: cursor)
    with Cons.IH [OF c(2), of "advance l" "acc @ [c]"] plain rest show ?thesis by simp
  qed
qed

lemma escape_hot_char_hd: "escape_hot_char c \<noteq> [] \<and> hd (escape_hot_char c) \<noteq> cp CHR 0x22"
  by (simp add: escape_hot_char_def)

lemma scan_token_quote: "peek l = cp CHR 0x22 \<Longrightarrow> scan_token U l = scan_quote l"
  by (simp add: scan_token_def punctuation_def)

lemma lex_quoted:
  assumes "list_all plain_or_escaped s"
  shows "map tok_type (fst (tokenize_with_comments U (new (quoted s)))) = [StringTok s, Eof] \<and>
    lx_errors (snd (tokenize_with_comments U (new (quoted s)))) = []"
proof -
  let ?l = "new (quoted s)"
  from read_quoted_escaped [OF assms, of "advance ?l" "[]" "[]"] obtain l' where
    l': "read_quoted_loop (cp CHR 0x22) [] (advance ?l) = (s, l')" "rest l' = [cp CHR 0x22]"
    by (auto simp: quoted_def)
  have "\<not> (peek_next ?l = cp CHR 0x22 \<and> peek_at 2 ?l = cp CHR 0x22)"
    using escape_hot_char_hd [of "hd s"]
    by (cases s; cases "escape_hot_char (hd s)")
      (auto simp: cursor quoted_def escape_hot_str_def)
  then have "scan_quote ?l = scan_text StringTok (read_string ?l)"
    unfolding scan_quote_def by (simp only: if_False)
  moreover have "scan_token U ?l = scan_quote ?l"
    by (rule scan_token_quote) (simp add: cursor quoted_def)
  moreover have "read_string ?l = (Inr s, advance l')"
    using l' by (simp add: read_string_def is_at_end_rest)
  ultimately have "scan_token U ?l = (Inr (StringTok s), advance l')"
    by (simp add: scan_text_def)
  then show ?thesis
    by (rule single_token) (simp_all add: l'(2) quoted_def whitespace_def)
qed

text \<open>
  C33. Escaping and lexing are inverse: the quoted form of a string without control
  characters (other than newline, carriage return and tab) lexes, without error, to the one
  token holding that string.
\<close>

theorem escape_lex_roundtrip:
  assumes "list_all plain_or_escaped s"
  shows "map tok_type (fst (tokenize_with_comments U (new (quoted s)))) = [StringTok s, Eof] \<and>
    lx_errors (snd (tokenize_with_comments U (new (quoted s)))) = []"
  using assms by (rule lex_quoted)

lemma escape_lex_roundtrip_witness:
  "map tok_type (fst (tokenize_with_comments ascii_env (new (quoted [104, 34, 92, 10, 233])))) =
     [StringTok [104, 34, 92, 10, 233], Eof] \<and>
   lx_errors (snd (tokenize_with_comments ascii_env (new (quoted [104, 34, 92, 10, 233])))) = []"
  by (rule escape_lex_roundtrip) code_simp

text \<open>
  Control characters do not survive: \<open>escape_hot_str\<close> writes \<^verbatim>\<open>\u{b}\<close>, but the lexer knows
  only \<^verbatim>\<open>\uXXXX\<close> with four digits and takes the braces literally, so the string read back
  differs from the one written, with no error reported.
\<close>

theorem control_escape_corrupted:
  "map tok_type (fst (tokenize_with_comments ascii_env (new (quoted [27])))) =
     [StringTok (cp CHR 0x5C # cps ''u{1b}''), Eof] \<and>
   lx_errors (snd (tokenize_with_comments ascii_env (new (quoted [27])))) = []"
  by code_simp

section \<open>Block strings\<close>

text \<open>
  \<open>quote_run q n s\<close> follows the counter of consecutive quotes over \<open>s\<close>: \<open>None\<close> when it
  reaches three.
\<close>

fun quote_run :: "uchar \<Rightarrow> nat \<Rightarrow> uchar list \<Rightarrow> nat option" where
  "quote_run q n [] = Some n"
| "quote_run q n (c # cs) =
     (if c = q then (if n + 1 = 3 then None else quote_run q (n + 1) cs) else quote_run q 0 cs)"

lemma quote_run_append:
  "quote_run q n (a @ b) = (case quote_run q n a of None \<Rightarrow> None | Some m \<Rightarrow> quote_run q m b)"
  by (induction q n a rule: quote_run.induct) auto

lemma quote_run_other: "q \<notin> set s \<Longrightarrow> s \<noteq> [] \<Longrightarrow> quote_run q n s = Some 0"
  by (induction s arbitrary: n) (auto, metis quote_run.simps(1))

lemma contains_text_append: "contains_text s p \<Longrightarrow> contains_text (a @ s) p"
  by (induction a) auto

lemma contains_text_prefix: "contains_text s p \<Longrightarrow> contains_text (s @ b) p"
proof (induction s)
  case Nil
  then show ?case by (cases b) auto
next
  case (Cons x s)
  have "prefix p (x # s) \<Longrightarrow> prefix p (x # s @ b)"
    using prefix_prefix [of p "x # s" b] by simp
  with Cons show ?case by auto
qed

lemma quote_run_None:
  "quote_run q n s = None \<Longrightarrow> n < 3 \<Longrightarrow> contains_text (replicate n q @ s) [q, q, q]"
proof (induction q n s rule: quote_run.induct)
  case (1 q n)
  then show ?case by simp
next
  case (2 q n c cs)
  show ?case
  proof (cases "c = q")
    case True
    have move: "replicate n q @ q # cs = replicate (Suc n) q @ cs"
      by (metis append_Cons append_assoc append_Nil replicate_append_same replicate_Suc)
    show ?thesis
    proof (cases "n + 1 = 3")
      case True
      then have "n = 2" by simp
      then show ?thesis using \<open>c = q\<close> by (simp add: numeral_2_eq_2)
    next
      case False
      with 2 True have "contains_text (replicate (Suc n) q @ cs) [q, q, q]" by simp
      then show ?thesis unfolding True move .
    qed
  next
    case False
    with 2 have "contains_text cs [q, q, q]" by simp
    then show ?thesis using contains_text_append [of cs "[q, q, q]" "replicate n q @ [c]"] by simp
  qed
qed

lemma quote_run_safe: "\<not> contains_text s [q, q, q] \<Longrightarrow> \<exists>m. quote_run q 0 s = Some m"
  using quote_run_None [of q 0 s] by (cases "quote_run q 0 s") auto

lemma read_triple_block:
  assumes "quote_run q n s = Some 0" "rest l = s @ [q, q, q] @ r"
  shows "\<exists>l'. read_triple_loop q acc n l = (Inr (strip_indentation (acc @ s)), l') \<and> rest l' = r"
  using assms
proof (induction s arbitrary: acc n l)
  case Nil
  then have l: "rest l = [q, q, q] @ r" "n = 0" by simp_all
  have "read_triple_loop q acc 0 l = read_triple_loop q (acc @ [q]) 1 (advance l)"
    using l by (subst read_triple_loop.simps) (simp add: cursor)
  also have "\<dots> = read_triple_loop q (acc @ [q, q]) 2 (advance (advance l))"
    using l by (subst read_triple_loop.simps) (simp add: cursor numeral_2_eq_2)
  also have "\<dots> = (Inr (strip_indentation acc), advance (advance (advance l)))"
    using l by (subst read_triple_loop.simps) (simp add: cursor)
  finally show ?case using l by simp
next
  case (Cons c s)
  show ?case
  proof (cases "c = q")
    case True
    with Cons.prems have "n + 1 \<noteq> 3" "quote_run q (n + 1) s = Some 0" by (auto split: if_splits)
    moreover from this True Cons.prems have "read_triple_loop q acc n l =
        read_triple_loop q (acc @ [c]) (n + 1) (advance l)"
      by (subst read_triple_loop.simps) (simp add: cursor)
    ultimately show ?thesis
      using Cons.IH [of "n + 1" "advance l" "acc @ [c]"] Cons.prems by simp
  next
    case False
    with Cons.prems have "read_triple_loop q acc n l = read_triple_loop q (acc @ [c]) 0 (advance l)"
      by (subst read_triple_loop.simps) (simp add: cursor)
    with False show ?thesis using Cons.IH [of 0 "advance l" "acc @ [c]"] Cons.prems by simp
  qed
qed

text \<open>The block \<open>format_body_str\<close> writes between the quotes, and what stripping makes of it.\<close>

definition block :: "uchar list \<Rightarrow> uchar list" where
  "block body = concat (map body_line (split_on (cp CHR 0x0A) body)) @ body_indent"

definition indented :: "uchar list \<Rightarrow> uchar list" where
  "indented l = (if l = [] then [] else body_indent @ l)"

lemma body_line_indented: "body_line l = indented l @ [cp CHR 0x0A]"
  by (simp add: body_line_def indented_def)

lemma block_lines: "concat (map body_line ls) @ e = join [cp CHR 0x0A] (map indented ls @ [e])"
  by (induction ls) (simp_all add: body_line_indented join_Cons)

lemma quote_run_lines:
  assumes "\<forall>l \<in> set ls. \<not> contains_text l quotes3"
  shows "quote_run (cp CHR 0x22) 0 (concat (map body_line ls)) = Some 0"
  using assms
proof (induction ls)
  case Nil
  then show ?case by simp
next
  case (Cons l ls)
  then obtain m where m: "quote_run (cp CHR 0x22) 0 l = Some m" using quote_run_safe by fastforce
  have "quote_run (cp CHR 0x22) 0 body_indent = Some 0"
    by (rule quote_run_other) (simp_all add: body_indent_def)
  with m Cons show ?case by (auto simp: body_line_def quote_run_append)
qed

lemma contains_join: "l \<in> set ls \<Longrightarrow> contains_text l p \<Longrightarrow> contains_text (join sep ls) p"
proof (induction ls)
  case Nil
  then show ?case by simp
next
  case (Cons x ls)
  show ?case
  proof (cases "l = x")
    case True
    with Cons.prems show ?thesis by (cases "ls = []") (auto simp: join_Cons contains_text_prefix)
  next
    case False
    with Cons have "contains_text (x @ sep @ join sep ls) p" "ls \<noteq> []"
      by (auto intro: contains_text_append)
    then show ?thesis by (simp add: join_Cons)
  qed
qed

lemma quote_run_block:
  assumes "\<not> contains_text body quotes3"
  shows "quote_run (cp CHR 0x22) 0 (block body) = Some 0"
proof -
  have "\<forall>l \<in> set (split_on (cp CHR 0x0A) body). \<not> contains_text l quotes3"
    using assms contains_join [of _ "split_on (cp CHR 0x0A) body" quotes3 "[cp CHR 0x0A]"]
    by (auto simp: join_split_on simp del: of_char_Char)
  from quote_run_lines [OF this] show ?thesis
    by (simp add: block_def quote_run_append quote_run_other body_indent_def)
qed

lemma foldl_min: "\<forall>x \<in> set (n # ns). k \<le> x \<Longrightarrow> k \<in> set (n # ns) \<Longrightarrow> foldl min n ns = (k :: nat)"
proof (induction ns arbitrary: n)
  case Nil
  then show ?case by simp
next
  case (Cons m ns)
  have "foldl min (min n m) ns = k"
    by (rule Cons.IH) (use Cons.prems in \<open>auto simp: min_def\<close>)
  then show ?case by simp
qed

lemma min_indent_eq:
  assumes "\<forall>l \<in> set ls. l \<noteq> [] \<longrightarrow> k \<le> length (takeWhile blank l)"
    and "l \<in> set ls" "l \<noteq> []" "length (takeWhile blank l) = k"
  shows "min_indent ls = k"
proof -
  let ?ns = "map (length \<circ> takeWhile blank) (filter (\<lambda>l. l \<noteq> []) ls)"
  have k: "k \<in> set ?ns" using assms(2-4) by auto
  then obtain n ns where ns: "?ns = n # ns" by (cases ?ns) auto
  have "\<forall>x \<in> set ?ns. k \<le> x" using assms(1) by auto
  with k show ?thesis unfolding min_indent_def ns by (simp add: foldl_min)
qed

lemma body_indent_simps [simp]:
  "length body_indent = 8" "list_all blank body_indent" "body_indent \<noteq> []"
  "takeWhile blank (body_indent @ s) = body_indent @ takeWhile blank s"
  by (simp_all add: body_indent_def blank_def)

lemma replace_crlf_id: "cp CHR 0x0D \<notin> set s \<Longrightarrow> replace_crlf s = s"
  by (induction s rule: replace_crlf.induct) auto

lemma normalize_id:
  assumes "cp CHR 0x0D \<notin> set s"
  shows "normalize_newlines s = s"
  unfolding normalize_newlines_def replace_crlf_id [OF assms]
  by (rule map_idI) (use assms in auto)

lemma set_join: "set (join sep ls) \<subseteq> \<Union> (set ` set ls) \<union> set sep"
  by (induction sep ls rule: join.induct) auto

lemma set_split_on: "l \<in> set (split_on c s) \<Longrightarrow> set l \<subseteq> set s"
  by (induction s arbitrary: l) (auto split: if_splits list.splits, fastforce+)

lemma strip_block:
  assumes "cp CHR 0x0D \<notin> set body" "l \<in> set (split_on (cp CHR 0x0A) body)" "l \<noteq> []" "\<not> blank (hd l)"
  shows "strip_indentation (block body) = body"
proof -
  let ?nl = "cp CHR 0x0A" and ?ls = "split_on (cp CHR 0x0A) body"
  have block: "block body = join [?nl] (map indented ?ls @ [body_indent])"
    unfolding block_def by (rule block_lines)
  have "cp CHR 0x0D \<notin> set (indented x)" if "x \<in> set ?ls" for x
    using assms(1) set_split_on [OF that] by (auto simp: indented_def body_indent_def)
  then have norm: "normalize_newlines (block body) = block body"
    using set_join [of "[?nl]" "map indented ?ls @ [body_indent]"]
    by (intro normalize_id) (auto simp: block body_indent_def)
  have "?nl \<notin> set x" if "x \<in> set (map indented ?ls @ [body_indent])" for x
    using that split_on_pieces [of _ ?nl body] by (auto simp: indented_def body_indent_def)
  then have split: "split_on ?nl (block body) = map indented ?ls @ [body_indent]"
    unfolding block by (intro split_on_join) auto
  have lines: "drop_closing_line (map indented ?ls @ [body_indent]) = map indented ?ls"
    by (simp add: drop_closing_line_def)
  have mi: "min_indent (map indented ?ls) = 8"
  proof (rule min_indent_eq)
    show "indented l \<in> set (map indented ?ls)" "indented l \<noteq> []" using assms(2,3)
      by (simp_all add: indented_def)
    show "length (takeWhile blank (indented l)) = 8"
      using assms(3,4) by (cases l) (simp_all add: indented_def)
  qed (auto simp: indented_def)
  have "strip_line 8 (indented x) = x" for x
    by (simp add: strip_line_def indented_def)
  then have "map (strip_line 8) (map indented ?ls) = ?ls" by (simp add: comp_def)
  moreover have "block body \<noteq> []" by (simp add: block_def)
  ultimately show ?thesis
    by (simp only: strip_indentation_def norm split lines mi Let_def if_False join_split_on)
qed

text \<open>
  A skill body survives code generation: when some line starts with a character that
  is not a blank, the body has no carriage return, and it holds no triple quote, the block
  string written for it lexes to the one token holding the body.
\<close>

theorem body_lex_roundtrip:
  assumes "\<not> contains_text body quotes3" "cp CHR 0x0D \<notin> set body"
    and "l \<in> set (split_on (cp CHR 0x0A) body)" "l \<noteq> []" "\<not> blank (hd l)"
  shows "map tok_type (fst (tokenize_with_comments U (new (format_body_str body)))) =
      [StringTok body, Eof] \<and>
    lx_errors (snd (tokenize_with_comments U (new (format_body_str body)))) = []"
proof -
  have "body \<noteq> []" using assms(3,4) by auto
  then have src: "format_body_str body = quotes3 @ cp CHR 0x0A # block body @ quotes3"
    using assms(1) by (simp add: format_body_str_def block_def)
  let ?l = "new (format_body_str body)" and ?m = "advance (advance (advance (new (format_body_str body))))"
  have m: "skip_first_newline ?m = advance ?m"
    by (simp add: skip_first_newline_def cursor src)
  from read_triple_block [OF quote_run_block [OF assms(1)], of "advance ?m" "[]" "[]"]
  obtain l' where l': "read_triple_loop (cp CHR 0x22) [] 0 (advance ?m) =
      (Inr (strip_indentation (block body)), l')" "rest l' = []"
    by (auto simp: src)
  have "scan_quote ?l = scan_text StringTok (read_triple_quote_string ?m)"
    by (simp add: scan_quote_def cursor src)
  also have "\<dots> = (Inr (StringTok body), l')"
    using l'(1) strip_block [OF assms(2-5)]
    by (simp add: read_triple_quote_string_def m scan_text_def)
  finally have "scan_token U ?l = (Inr (StringTok body), l')"
    by (subst scan_token_quote) (simp_all add: cursor src)
  then show ?thesis
    by (rule single_token) (simp_all add: l'(2) src whitespace_def)
qed

lemma body_lex_roundtrip_witness:
  "map tok_type (fst (tokenize_with_comments ascii_env
     (new (format_body_str (cps ''Use it.'' @ [10, 10, 32, 32] @ cps ''- twice''))))) =
     [StringTok (cps ''Use it.'' @ [10, 10, 32, 32] @ cps ''- twice''), Eof] \<and>
   lx_errors (snd (tokenize_with_comments ascii_env
     (new (format_body_str (cps ''Use it.'' @ [10, 10, 32, 32] @ cps ''- twice''))))) = []"
  by (rule body_lex_roundtrip [where l = "cps ''Use it.''"]) code_simp+

text \<open>
  A body whose lines are all indented loses that indentation: the lexer strips the
  smallest indentation of the lines, not the indentation of the closing quotes that the
  generator counts on.
\<close>

theorem body_indentation_lost:
  "map tok_type (fst (tokenize_with_comments ascii_env (new (format_body_str (cps ''  code''))))) =
     [StringTok (cps ''code''), Eof]"
  by code_simp

section \<open>Words, keys and integers\<close>

definition word_char :: "'d lexer_env \<Rightarrow> uchar \<Rightarrow> bool" where
  "word_char U c \<longleftrightarrow> is_alphanumeric U c \<or> c = cp CHR ''_'' \<or> c = cp CHR ''$'' \<or> c = cp CHR ''-''"

lemma read_identifier_all:
  assumes "list_all (word_char U) s" "rest l = s"
  shows "\<exists>l'. read_identifier U acc l = (acc @ s, l') \<and> rest l' = []"
  using assms
proof (induction s arbitrary: acc l)
  case Nil
  then show ?case by (subst read_identifier.simps) (simp add: cursor)
next
  case (Cons c s)
  then have "read_identifier U acc l = read_identifier U (acc @ [c]) (advance l)"
    by (subst read_identifier.simps) (auto simp: cursor word_char_def)
  with Cons.IH [of "advance l" "acc @ [c]"] Cons.prems show ?case by simp
qed

definition word_start :: "'d lexer_env \<Rightarrow> uchar \<Rightarrow> bool" where
  "word_start U c \<longleftrightarrow> is_alphabetic U c \<or> c = cp CHR ''_'' \<or> c = cp CHR ''$''"

lemma word_start_letter:
  fixes U :: "'d lexer_env"
  shows "word_start U c \<Longrightarrow> (punctuation c :: 'd token_type option) = None \<and> c \<notin> cp ` set ''.:/=|#?-%'' \<and> c \<noteq> 34 \<and> c \<noteq> 96 \<and>
     \<not> ascii_digit c \<and> \<not> whitespace c"
  by (auto simp: word_start_def is_alphabetic_def ascii_letter_def ascii_digit_def punctuation_def
      whitespace_def)

lemma scan_token_word: "word_start U (peek l) \<Longrightarrow> scan_token U l = scan_word U l"
  using word_start_letter [of U "peek l"]
  by (auto simp: scan_token_def word_start_def Let_def punctuation_def)

lemma single_word:
  assumes "list_all (word_char U) s" "s \<noteq> []" "word_start U (hd s)"
  shows "map tok_type (fst (tokenize_with_comments U (new s))) = [word_token s, Eof] \<and>
    lx_errors (snd (tokenize_with_comments U (new s))) = []"
proof -
  have "word_start U (peek (new s))" using assms(2,3) by (cases s) (simp_all add: cursor)
  then have scan: "scan_token U (new s) = scan_word U (new s)" by (rule scan_token_word)
  obtain l' where "read_identifier U [] (new s) = (s, l')" "rest l' = []"
    using read_identifier_all [OF assms(1), of "new s" "[]"] by auto
  then have "scan_token U (new s) = (Inr (word_token s), l')" "rest l' = []"
    unfolding scan scan_word_def by simp_all
  then show ?thesis
    using assms(2) word_start_letter [OF assms(3)] by (intro single_token) auto
qed

text \<open>
  Keywords: the text \<open>as_str\<close> gives for a keyword lexes to that keyword, and no other
  text is read as one.
\<close>

theorem keyword_lex_roundtrip:
  "map tok_type (fst (tokenize_with_comments U (new (keyword_as_str k)))) = [Keyword k, Eof] \<and>
   (keyword_parse s = Some k) = (s = keyword_as_str k)"
proof -
  have "list_all (\<lambda>c. ascii_letter c \<or> c = 45) (keyword_as_str k)" "keyword_as_str k \<noteq> []"
    "ascii_letter (hd (keyword_as_str k))"
    by (cases k; simp add: keyword_as_str_def ascii_letter_def)+
  then have "list_all (word_char U) (keyword_as_str k)" "keyword_as_str k \<noteq> []"
    "word_start U (hd (keyword_as_str k))"
    by (auto simp: word_char_def word_start_def is_alphanumeric_def is_alphabetic_def list_all_iff)
  from single_word [OF this] have "map tok_type (fst (tokenize_with_comments U (new (keyword_as_str k)))) =
    [word_token (keyword_as_str k), Eof]" ..
  moreover have "word_token (keyword_as_str k) = Keyword k"
    by (cases k) (simp_all add: keyword_as_str_def word_token_def keyword_parse_def)
  moreover have "(keyword_parse s = Some k) = (s = keyword_as_str k)"
    by (cases k) (auto simp: keyword_as_str_def keyword_parse_def)
  ultimately show ?thesis by simp
qed

lemma escape_hot_str_length: "length k \<le> length (escape_hot_str k)"
proof (induction k)
  case Nil
  then show ?case by simp
next
  case (Cons c k)
  have "1 \<le> length (escape_hot_char c)" by (simp add: escape_hot_char_def)
  with Cons show ?case by (simp add: escape_hot_str_def)
qed

text \<open>
  Map keys: a key without \<open>?\<close>, \<open>!\<close> or \<open>+\<close> and without a leading hyphen is written so
  that it lexes to one token, either the bare word or the quoted string.
\<close>

theorem meta_key_single_token:
  assumes "list_all plain_or_escaped k" "hd k \<noteq> cp CHR ''-''"
    and "list_all (\<lambda>c. c \<notin> cp ` set ''?!+'') k"
  shows "map tok_type (fst (tokenize_with_comments U (new (format_meta_key k)))) =
      [if format_meta_key k = k then word_token k else StringTok k, Eof] \<and>
    lx_errors (snd (tokenize_with_comments U (new (format_meta_key k)))) = []"
proof (cases "format_meta_key k = k")
  case True
  have "length (quoted k) \<noteq> length k" using escape_hot_str_length [of k] by (simp add: quoted_def)
  then have "quoted k \<noteq> k" by auto
  with True have k: "k \<noteq> []" "list_all (\<lambda>(i, c). meta_key_char i c) (enumerate 0 k)"
    "\<not> ascii_digit (hd k)"
    by (auto simp: format_meta_key_def split: if_splits list.splits)
  have "meta_key_char i (k ! i)" if "i < length k" for i
    using k(2) that by (auto simp: list_all_length nth_enumerate_eq)
  then have chars: "c \<in> set k \<Longrightarrow> ascii_digit c \<or> ascii_letter c \<or> c = cp CHR ''-'' \<or> c = cp CHR ''_''" for c
    using assms(3) by (fastforce simp: in_set_conv_nth meta_key_char_def list_all_iff)
  then have "list_all (word_char U) k"
    by (auto simp: list_all_iff word_char_def is_alphanumeric_def is_alphabetic_def)
  moreover have "word_start U (hd k)"
    using chars [of "hd k"] k(1,3) assms(2) by (auto simp: word_start_def is_alphabetic_def)
  ultimately show ?thesis using single_word [OF _ k(1), of U] True by simp
next
  case False
  then have q: "format_meta_key k = quoted k" by (simp add: format_meta_key_def split: if_splits)
  show ?thesis using False unfolding q by (simp add: lex_quoted [OF assms(1)])
qed

lemma meta_key_single_token_witness:
  "map tok_type (fst (tokenize_with_comments ascii_env (new (format_meta_key (cps ''max tokens''))))) =
     [if format_meta_key (cps ''max tokens'') = cps ''max tokens'' then word_token (cps ''max tokens'')
      else StringTok (cps ''max tokens''), Eof] \<and>
   lx_errors (snd (tokenize_with_comments ascii_env (new (format_meta_key (cps ''max tokens''))))) = []"
  by (rule meta_key_single_token) code_simp+

text \<open>
  A key with a leading hyphen is taken for a bare word, which the lexer rejects, and one
  that ends in a question mark falls into two tokens.
\<close>

theorem meta_key_unlexable:
  "lx_errors (snd (tokenize_with_comments ascii_env (new (format_meta_key (cps ''-x''))))) \<noteq> [] \<and>
   map tok_type (fst (tokenize_with_comments ascii_env (new (format_meta_key (cps ''ok?''))))) =
     [Identifier (cps ''ok''), QuestionMark, Eof]"
  by code_simp

lemma read_number_digits:
  assumes "list_all ascii_digit s" "rest l = s"
  shows "\<exists>l'. read_number_loop acc False l = (acc @ s, False, l') \<and> rest l' = []"
  using assms
proof (induction s arbitrary: acc l)
  case Nil
  then show ?case by (subst read_number_loop.simps) (simp add: cursor)
next
  case (Cons c s)
  then have "read_number_loop acc False l = read_number_loop (acc @ [c]) False (advance l)"
    by (subst read_number_loop.simps) (auto simp: cursor ascii_digit_def)
  with Cons.IH [of "advance l" "acc @ [c]"] Cons.prems show ?case by simp
qed

lemma ascii_digit_of_char: "is_ascii_digit c \<Longrightarrow> ascii_digit (cp c)"
  by (simp add: is_ascii_digit_of ascii_digit_def)

lemma digits_cps: "list_all ascii_digit (cps (show_nat n))"
  using show_nat_digits [of n] by (auto simp: list_all_iff ascii_digit_of_char)

lemma ascii_text_cps: "ascii_text (cps s) = s"
  by (simp add: comp_def map_idI)

lemma scan_token_digit:
  fixes U :: "'a lexer_env"
  assumes "ascii_digit (peek l)"
  shows "scan_token U l = read_number U l"
proof -
  from assms have "peek l \<noteq> 34" "peek l \<noteq> 96" "peek l \<notin> cp ` set ''.:/=|#?-%''"
    "(punctuation (peek l) :: 'a token_type option) = None"
    by (auto simp: ascii_digit_def punctuation_def)
  with assms show ?thesis by (simp add: scan_token_def)
qed

lemma scan_token_minus_digit:
  "peek l = cp CHR ''-'' \<Longrightarrow> ascii_digit (peek_next l) \<Longrightarrow> scan_token U l = read_number U l"
  by (simp add: scan_token_def scan_minus_def punctuation_def ascii_digit_def)

lemma show_nat_start: "ascii_digit (hd (cps (show_nat n)))" "cps (show_nat n) \<noteq> []"
  using digits_cps [of n] by (cases "show_nat n", simp_all)

lemma scan_show_int_neg:
  assumes "parse_i64 (show_int i) = Some i" "i < 0"
  shows "\<exists>l. scan_token U (new (cps (show_int i))) = (Inr (IntTok i), l) \<and> rest l = []"
proof -
  let ?l = "new (cps (show_int i))" and ?d = "cps (show_nat (nat (- i)))"
  have l: "rest ?l = 45 # ?d" using assms(2) by (simp add: show_int_def)
  obtain l' where l': "read_number_loop [45] False (advance ?l) = (45 # ?d, False, l')" "rest l' = []"
    using read_number_digits [OF digits_cps, of "advance ?l" "nat (- i)" "[45]"] l by auto
  have "45 # ?d = cps (show_int i)" using assms(2) by (simp add: show_int_def)
  then have "ascii_text (45 # ?d) = show_int i" by (simp only: ascii_text_cps)
  with l l' assms(1) have "\<exists>l'. read_number U ?l = (Inr (IntTok i), l') \<and> rest l' = []"
    by (simp add: read_number_def peek_rest del: list.map)
  moreover have "scan_token U ?l = read_number U ?l"
    using l show_nat_start [of "nat (- i)"]
    by (intro scan_token_minus_digit) (auto simp: cursor split: list.split)
  ultimately show ?thesis by simp
qed

lemma scan_show_int_nonneg:
  assumes "parse_i64 (show_int i) = Some i" "\<not> i < 0"
  shows "\<exists>l. scan_token U (new (cps (show_int i))) = (Inr (IntTok i), l) \<and> rest l = []"
proof -
  let ?l = "new (cps (show_int i))" and ?d = "cps (show_nat (nat i))"
  have l: "rest ?l = ?d" using assms(2) by (simp add: show_int_def)
  then have peek: "ascii_digit (peek ?l)"
    using show_nat_start [of "nat i"] by (auto simp: cursor split: list.split)
  obtain l' where l': "read_number_loop [] False ?l = (?d, False, l')" "rest l' = []"
    using read_number_digits [OF digits_cps, of ?l "nat i" "[]"] l by auto
  have "ascii_text ?d = show_int i" using assms(2) by (simp only: ascii_text_cps show_int_def if_False)
  moreover have "peek ?l \<noteq> 45" using peek by (auto simp: ascii_digit_def)
  ultimately have "\<exists>l'. read_number U ?l = (Inr (IntTok i), l') \<and> rest l' = []"
    using l' assms(1) by (simp add: read_number_def del: map_map)
  then show ?thesis unfolding scan_token_digit [OF peek] .
qed

text \<open>
  Integers: the decimal text of every 64-bit integer, the smallest included, lexes to
  that integer.
\<close>

theorem int_lex_roundtrip:
  assumes "- (2 ^ 63) \<le> i" "i < 2 ^ 63"
  shows "map tok_type (fst (tokenize_with_comments U (new (cps (show_int i))))) = [IntTok i, Eof] \<and>
    lx_errors (snd (tokenize_with_comments U (new (cps (show_int i))))) = []"
proof -
  have "parse_i64 (show_int i) = Some i" using assms by (intro parse_signed_show_int) simp_all
  then obtain l' where "scan_token U (new (cps (show_int i))) = (Inr (IntTok i), l')" "rest l' = []"
    using scan_show_int_neg scan_show_int_nonneg by blast
  moreover have "cps (show_int i) \<noteq> [] \<and> \<not> whitespace (hd (cps (show_int i)))"
    using show_nat_start [of "nat i"] by (auto simp: show_int_def whitespace_def ascii_digit_def)
  ultimately show ?thesis by (intro single_token) auto
qed

lemma int_lex_roundtrip_witness:
  "map tok_type (fst (tokenize_with_comments ascii_env (new (cps (show_int (- (2 ^ 63))))))) =
     [IntTok (- (2 ^ 63)), Eof] \<and>
   lx_errors (snd (tokenize_with_comments ascii_env (new (cps (show_int (- (2 ^ 63))))))) = []"
  by (rule int_lex_roundtrip) simp_all

end
