(* ===== verification/Hot_Scan.thy ===== *)
theory Hot_Scan
  imports Hot_Tokens
begin

text \<open>
  The formatter's view of a source text, \<^verbatim>\<open>crates/hot/src/lang/fmt/scan.rs\<close>: which characters
  belong to strings and comments, the token queries, the matching brace and the application
  of edits. It is a client of the lexer and relies on the order of its tokens, through the
  locale \<open>token_stream\<close>.
\<close>

section \<open>Definitions\<close>

datatype kind = Code | Str | Comment

record 'd scan =
  sc_chars :: "uchar list"
  sc_tokens :: "'d token list"
  sc_kinds :: "kind list"

fun is_string :: "'d token_type \<Rightarrow> bool" where
  "is_string (StringTok _) = True"
| "is_string (TemplateString _) = True"
| "is_string _ = False"

fun is_comment :: "'d token_type \<Rightarrow> bool" where
  "is_comment (LineComment _) = True"
| "is_comment (BlockComment _) = True"
| "is_comment _ = False"

definition is_open :: "'d token_type \<Rightarrow> bool" where
  "is_open t \<longleftrightarrow> (case t of LeftParen \<Rightarrow> True | LeftBracket \<Rightarrow> True | LeftBrace \<Rightarrow> True
     | AngleBracketOpen \<Rightarrow> True | _ \<Rightarrow> False)"

definition is_close :: "'d token_type \<Rightarrow> bool" where
  "is_close t \<longleftrightarrow> (case t of RightParen \<Rightarrow> True | RightBracket \<Rightarrow> True | RightBrace \<Rightarrow> True
     | AngleBracketClose \<Rightarrow> True | _ \<Rightarrow> False)"

definition token_kind :: "'d token \<Rightarrow> kind option" where
  "token_kind t =
     (if is_string (tok_type t) then Some Str
      else if is_comment (tok_type t) then Some Comment else None)"

text \<open>\<open>for slot in &mut kinds[start..end] { *slot = kind }\<close>\<close>

definition fill :: "'a \<Rightarrow> nat \<Rightarrow> nat \<Rightarrow> 'a list \<Rightarrow> 'a list" where
  "fill v start fin xs = take start xs @ replicate (fin - start) v @ drop fin xs"

definition mark_token :: "nat \<Rightarrow> 'd token \<Rightarrow> kind list \<Rightarrow> kind list" where
  "mark_token len t kinds =
     (case token_kind t of
        None \<Rightarrow> kinds
      | Some k \<Rightarrow>
          (let fin = min (tok_position t + tok_length t) len; start = min (tok_position t) fin
           in fill k start fin kinds))"

definition keep_token :: "'d token \<Rightarrow> bool" where
  "keep_token t \<longleftrightarrow> tok_type t \<noteq> Newline \<and> tok_type t \<noteq> Eof"

definition scan_new :: "'d lexer_env \<Rightarrow> uchar list \<Rightarrow> 'd scan" where
  "scan_new U text =
     (let tokens = filter keep_token (fst (tokenize_with_comments U (new text)));
          kinds = fold (mark_token (length text)) tokens (replicate (length text) Code)
      in \<lparr>sc_chars = text, sc_tokens = tokens, sc_kinds = kinds\<rparr>)"

definition kind_at :: "'d scan \<Rightarrow> nat \<Rightarrow> kind" where
  "kind_at s i = (if i < length (sc_kinds s) then sc_kinds s ! i else Code)"

definition scan_end :: "'d scan \<Rightarrow> nat \<Rightarrow> nat" where
  "scan_end s i =
     min (tok_position (sc_tokens s ! i) + tok_length (sc_tokens s ! i)) (length (sc_chars s))"

definition scan_start :: "'d scan \<Rightarrow> nat \<Rightarrow> nat" where
  "scan_start s i = tok_position (sc_tokens s ! i)"

definition slice :: "'d scan \<Rightarrow> nat \<Rightarrow> nat \<Rightarrow> uchar list" where
  "slice s start fin = take (fin - start) (drop start (sc_chars s))"

definition token_text :: "'d scan \<Rightarrow> nat \<Rightarrow> uchar list" where
  "token_text s i = slice s (scan_start s i) (scan_end s i)"

definition has_newline :: "'d scan \<Rightarrow> nat \<Rightarrow> nat \<Rightarrow> bool" where
  "has_newline s start fin \<longleftrightarrow> start < fin \<and> cp CHR 0x0A \<in> set (slice s start fin)"

fun line_start :: "uchar list \<Rightarrow> nat \<Rightarrow> nat" where
  "line_start chars 0 = 0"
| "line_start chars (Suc n) = (if chars ! n \<noteq> cp CHR 0x0A then line_start chars n else Suc n)"

definition line_indent :: "'d scan \<Rightarrow> nat \<Rightarrow> uchar list" where
  "line_indent s index =
     takeWhile blank (drop (line_start (sc_chars s) (min index (length (sc_chars s)))) (sc_chars s))"

fun brace_loop :: "nat \<Rightarrow> nat \<Rightarrow> 'd token list \<Rightarrow> nat option" where
  "brace_loop depth index [] = None"
| "brace_loop depth index (t # ts) =
     (if tok_type t = LeftBrace then brace_loop (depth + 1) (index + 1) ts
      else if tok_type t = RightBrace then
        (if depth = 0 then None
         else if depth - 1 = 0 then Some index
         else brace_loop (depth - 1) (index + 1) ts)
      else brace_loop depth (index + 1) ts)"

definition matching_brace :: "'d scan \<Rightarrow> nat \<Rightarrow> nat option" where
  "matching_brace s opening = brace_loop 0 opening (drop opening (sc_tokens s))"

record edit =
  ed_start :: nat
  ed_end :: nat
  ed_text :: "uchar list"

fun apply_loop :: "uchar list \<Rightarrow> uchar list \<Rightarrow> nat \<Rightarrow> edit list \<Rightarrow> uchar list" where
  "apply_loop chars out cursor [] = out @ drop cursor chars"
| "apply_loop chars out cursor (e # es) =
     (if ed_start e < cursor \<or> ed_end e > length chars \<or> ed_start e > ed_end e
      then apply_loop chars out cursor es
      else apply_loop chars
        (out @ take (ed_start e - cursor) (drop cursor chars) @ ed_text e) (ed_end e) es)"

definition apply_edits :: "uchar list \<Rightarrow> edit list \<Rightarrow> uchar list" where
  "apply_edits chars edits = apply_loop chars [] 0 (sort_key ed_start edits)"

section \<open>Kinds\<close>

definition covers :: "'d token \<Rightarrow> nat \<Rightarrow> bool" where
  "covers t i \<longleftrightarrow> tok_position t \<le> i \<and> i < tok_position t + tok_length t"

lemma fill_nth:
  "start \<le> fin \<Longrightarrow> fin \<le> length xs \<Longrightarrow> i < length xs \<Longrightarrow>
   fill v start fin xs ! i = (if start \<le> i \<and> i < fin then v else xs ! i)"
  by (auto simp: fill_def nth_append)

lemma length_fill [simp]: "start \<le> fin \<Longrightarrow> fin \<le> length xs \<Longrightarrow> length (fill v start fin xs) = length xs"
  by (simp add: fill_def)

lemma length_mark_token [simp]: "length ks = n \<Longrightarrow> length (mark_token n t ks) = n"
  by (auto simp: mark_token_def Let_def fill_def split: option.split)

lemma mark_token_nth:
  assumes "length ks = n" "i < n" "tok_position t + tok_length t \<le> n"
  shows "mark_token n t ks ! i =
    (case token_kind t of None \<Rightarrow> ks ! i | Some k \<Rightarrow> if covers t i then k else ks ! i)"
  using assms by (auto simp: mark_token_def Let_def fill_nth covers_def split: option.split)

text \<open>Facts about ordered tokens.\<close>

lemma tiles_bounds: "tiles (\<le>) a ts b \<Longrightarrow> a \<le> b"
  by (induction ts arbitrary: a) (auto intro: le_trans trans_le_add1)

lemma tiles_weaken: "tiles (\<le>) b ts c \<Longrightarrow> a \<le> b \<Longrightarrow> tiles (\<le>) a ts c"
  by (cases ts) auto

lemma tiles_inside: "tiles (\<le>) a ts b \<Longrightarrow> t \<in> set ts \<Longrightarrow> tok_position t + tok_length t \<le> b"
  by (induction ts arbitrary: a) (auto dest: tiles_bounds)

lemma tiles_after: "tiles (\<le>) a ts b \<Longrightarrow> t \<in> set ts \<Longrightarrow> a \<le> tok_position t"
proof (induction ts arbitrary: a)
  case Nil
  then show ?case by simp
next
  case (Cons u ts)
  from Cons.prems show ?case
    using Cons.IH [of "tok_position u + tok_length u"] by auto
qed

lemma tiles_not_covers: "tiles (\<le>) a ts b \<Longrightarrow> i < a \<Longrightarrow> t \<in> set ts \<Longrightarrow> \<not> covers t i"
  using tiles_after [of a ts b t] by (simp add: covers_def)

lemma tiles_covers_unique:
  "tiles (\<le>) a ts b \<Longrightarrow> t \<in> set ts \<Longrightarrow> u \<in> set ts \<Longrightarrow> covers t i \<Longrightarrow> covers u i \<Longrightarrow> t = u"
proof (induction ts arbitrary: a)
  case Nil
  then show ?case by simp
next
  case (Cons v ts)
  have "covers v i \<Longrightarrow> x \<in> set ts \<Longrightarrow> \<not> covers x i" for x
    using Cons.prems(1) tiles_not_covers [of "tok_position v + tok_length v" ts b i x]
    by (simp add: covers_def)
  with Cons show ?case by auto
qed

lemma fold_mark_outside:
  "\<forall>t \<in> set ts. \<not> covers t i \<and> tok_position t + tok_length t \<le> n \<Longrightarrow> length ks = n \<Longrightarrow> i < n \<Longrightarrow>
   fold (mark_token n) ts ks ! i = ks ! i"
  by (induction ts arbitrary: ks) (auto simp: mark_token_nth split: option.split)

lemma fold_mark_token:
  "tiles (\<le>) a ts n \<Longrightarrow> length ks = n \<Longrightarrow> i < n \<Longrightarrow>
   fold (mark_token n) ts ks ! i =
     (case find (\<lambda>t. covers t i \<and> token_kind t \<noteq> None) ts of
        None \<Rightarrow> ks ! i | Some t \<Rightarrow> the (token_kind t))"
proof (induction ts arbitrary: a ks)
  case Nil
  then show ?case by simp
next
  case (Cons u ts)
  have u: "tok_position u + tok_length u \<le> n" using tiles_inside [OF Cons.prems(1), of u] by simp
  show ?case
  proof (cases "covers u i \<and> token_kind u \<noteq> None")
    case True
    then have "\<forall>t \<in> set ts. \<not> covers t i \<and> tok_position t + tok_length t \<le> n"
      using Cons.prems(1) tiles_inside tiles_not_covers [of "tok_position u + tok_length u" ts n i]
      by (auto simp: covers_def)
    with Cons.prems True u show ?thesis by (auto simp: fold_mark_outside mark_token_nth)
  next
    case False
    with Cons.prems u have "mark_token n u ks ! i = ks ! i"
      by (auto simp: mark_token_nth split: option.split)
    moreover have "fold (mark_token n) ts (mark_token n u ks) ! i =
      (case find (\<lambda>t. covers t i \<and> token_kind t \<noteq> None) ts of
        None \<Rightarrow> mark_token n u ks ! i | Some t \<Rightarrow> the (token_kind t))"
      using Cons.prems by (intro Cons.IH [of "tok_position u + tok_length u"]) simp_all
    ultimately show ?thesis using False by (auto split: option.split)
  qed
qed

text \<open>What the scan needs of the lexer: tokens inside the text, in order, not overlapping.\<close>

locale token_stream =
  fixes src :: "uchar list"
    and tokens :: "'d token list"
  assumes in_order: "tiles (\<le>) 0 tokens (length src)"
begin

lemma tokens_inside: "t \<in> set tokens \<Longrightarrow> tok_position t + tok_length t \<le> length src"
  using in_order by (rule tiles_inside)

lemma marks:
  assumes "i < length src"
  shows "fold (mark_token (length src)) tokens (replicate (length src) Code) ! i =
    (case find (\<lambda>t. covers t i \<and> token_kind t \<noteq> None) tokens of
       None \<Rightarrow> Code | Some t \<Rightarrow> the (token_kind t))"
  using fold_mark_token [OF in_order, of "replicate (length src) Code" i] assms
  by (auto split: option.split)

text \<open>A character is marked exactly as the one token that covers it.\<close>

lemma marks_iff:
  assumes "i < length src" "t \<in> set tokens" "covers t i"
  shows "fold (mark_token (length src)) tokens (replicate (length src) Code) ! i =
    (case token_kind t of None \<Rightarrow> Code | Some k \<Rightarrow> k)"
proof (cases "find (\<lambda>t. covers t i \<and> token_kind t \<noteq> None) tokens")
  case None
  with assms have "token_kind t = None" by (auto simp: find_None_iff)
  with None show ?thesis by (simp add: marks [OF assms(1)])
next
  case (Some u)
  then have u: "u \<in> set tokens" "covers u i" "token_kind u \<noteq> None"
    by (auto simp: find_Some_iff)
  with assms in_order have "u = t" by (meson tiles_covers_unique)
  with u Some show ?thesis by (auto simp: marks [OF assms(1)])
qed

lemma marks_outside:
  assumes "i < length src" "\<forall>t \<in> set tokens. \<not> covers t i"
  shows "fold (mark_token (length src)) tokens (replicate (length src) Code) ! i = Code"
proof -
  have "find (\<lambda>t. covers t i \<and> token_kind t \<noteq> None) tokens = None"
    using assms(2) by (auto simp: find_None_iff)
  then show ?thesis by (simp add: marks [OF assms(1)])
qed

end

lemma tiles_filter: "tiles (\<le>) a ts b \<Longrightarrow> tiles (\<le>) a (filter P ts) b"
proof (induction ts arbitrary: a)
  case Nil
  then show ?case by simp
next
  case (Cons t ts)
  then have IH: "tiles (\<le>) (tok_position t + tok_length t) (filter P ts) b"
    and le: "a \<le> tok_position t + tok_length t" by simp_all
  from tiles_weaken [OF IH le] IH Cons.prems show ?case by simp
qed

lemma lexed_in_order:
  "tiles (\<le>) 0 (filter keep_token (fst (tokenize_with_comments U (new src)))) (length src)"
proof -
  obtain ts l where r: "tokenize_with_comments U (new src) = (ts, l)" by fastforce
  from stream_facts [OF this] obtain ts' where
    ts': "ts = ts' @ [eof_token l]" "stream_inv src ts' l" "lx_position l = length src" by blast
  have "filter keep_token ts = filter keep_token ts'"
    by (simp add: ts'(1) keep_token_def eof_token_def)
  then show ?thesis using r ts' tiles_filter by (auto simp: stream_inv_def)
qed

interpretation lx: token_stream src "filter keep_token (fst (tokenize_with_comments U (new src)))" for src U
  by unfold_locales (rule lexed_in_order)

text \<open>
  The formatter never mistakes text for code: a character of the source has the kind of
  the token that covers it (\<open>Str\<close> for strings and templates, \<open>Comment\<close> for comments), and
  every other character is code.
\<close>

theorem scan_kinds:
  assumes "i < length src"
  shows "kind_at (scan_new U src) i =
    (if \<exists>t \<in> set (sc_tokens (scan_new U src)). covers t i \<and> is_string (tok_type t) then Str
     else if \<exists>t \<in> set (sc_tokens (scan_new U src)). covers t i \<and> is_comment (tok_type t) then Comment
     else Code)"
proof -
  let ?ts = "filter keep_token (fst (tokenize_with_comments U (new src)))"
  have len: "length (fold (mark_token (length src)) ts ks) = length src" if "length ks = length src"
    for ts :: "'a token list" and ks
    using that by (induction ts arbitrary: ks) simp_all
  have kind: "kind_at (scan_new U src) i =
      fold (mark_token (length src)) ?ts (replicate (length src) Code) ! i"
    using assms by (simp add: kind_at_def scan_new_def Let_def len)
  have toks: "sc_tokens (scan_new U src) = ?ts" by (simp add: scan_new_def Let_def)
  have excl: "is_string x \<Longrightarrow> \<not> is_comment x" for x :: "'a token_type" by (cases x) simp_all
  show ?thesis
  proof (cases "\<exists>t \<in> set ?ts. covers t i")
    case True
    then obtain t where t: "t \<in> set ?ts" "covers t i" by blast
    then have "u \<in> set ?ts \<Longrightarrow> covers u i \<Longrightarrow> u = t" for u
      by (meson lx.in_order tiles_covers_unique)
    with t have "(\<exists>u \<in> set ?ts. covers u i \<and> P u) = P t" for P by blast
    then show ?thesis
      unfolding kind toks lx.marks_iff [OF assms t] by (simp add: token_kind_def)
  next
    case False
    then show ?thesis unfolding kind toks using lx.marks_outside [OF assms, of U] by auto
  qed
qed

lemma scan_kinds_witness:
  "kind_at (scan_new ascii_env (cps ''f // x'')) 5 = Comment"
proof -
  let ?ts = "sc_tokens (scan_new ascii_env (cps ''f // x''))"
  have "\<not> (\<exists>t \<in> set ?ts. covers t 5 \<and> is_string (tok_type t))"
    "\<exists>t \<in> set ?ts. covers t 5 \<and> is_comment (tok_type t)"
    by code_simp+
  with scan_kinds [of 5 "cps ''f // x''" ascii_env] show ?thesis by simp
qed

section \<open>Edits\<close>

text \<open>The edits the loop applies, in order: those that start at or after the cursor.\<close>

fun applied :: "nat \<Rightarrow> nat \<Rightarrow> edit list \<Rightarrow> edit list" where
  "applied len cursor [] = []"
| "applied len cursor (e # es) =
     (if ed_start e < cursor \<or> ed_end e > len \<or> ed_start e > ed_end e then applied len cursor es
      else e # applied len (ed_end e) es)"

text \<open>The text with each applied edit in place of its range and the gaps copied.\<close>

fun spliced :: "uchar list \<Rightarrow> nat \<Rightarrow> edit list \<Rightarrow> uchar list" where
  "spliced chars cursor [] = drop cursor chars"
| "spliced chars cursor (e # es) =
     take (ed_start e - cursor) (drop cursor chars) @ ed_text e @ spliced chars (ed_end e) es"

lemma apply_loop_spliced:
  "apply_loop chars out cursor es = out @ spliced chars cursor (applied (length chars) cursor es)"
  by (induction chars out cursor es rule: apply_loop.induct) auto

lemma take_gap: "a \<le> b \<Longrightarrow> b \<le> length xs \<Longrightarrow> take (b - a) (drop a xs) @ drop b xs = drop a xs"
  by (metis append_take_drop_id drop_drop le_add_diff_inverse2)

lemma spliced_identity:
  "\<forall>e \<in> set es. ed_text e = take (ed_end e - ed_start e) (drop (ed_start e) chars) \<Longrightarrow>
   spliced chars cursor (applied (length chars) cursor es) = drop cursor chars"
proof (induction "length chars" cursor es rule: applied.induct)
  case (1 cursor)
  then show ?case by simp
next
  case (2 cursor e es)
  show ?case
  proof (cases "ed_start e < cursor \<or> ed_end e > length chars \<or> ed_start e > ed_end e")
    case True
    with 2 show ?thesis by simp
  next
    case False
    with 2 show ?thesis by (simp add: take_gap)
  qed
qed

text \<open>
  Edits: \<open>apply_edits\<close> replaces the ranges of the edits it applies and copies everything
  between them; an edit that rewrites a range with its own text changes nothing, whatever
  the order and overlap of the edits.
\<close>

theorem apply_edits_splices:
  "apply_edits chars edits = spliced chars 0 (applied (length chars) 0 (sort_key ed_start edits)) \<and>
   ((\<forall>e \<in> set edits. ed_text e = take (ed_end e - ed_start e) (drop (ed_start e) chars)) \<longrightarrow>
      apply_edits chars edits = chars)"
  using spliced_identity [of "sort_key ed_start edits" chars 0]
  by (simp add: apply_edits_def apply_loop_spliced)

lemma apply_edits_splices_witness:
  "apply_edits [1, 2, 3] [\<lparr>ed_start = 1, ed_end = 3, ed_text = [2, 3]\<rparr>,
     \<lparr>ed_start = 0, ed_end = 1, ed_text = [1]\<rparr>, \<lparr>ed_start = 0, ed_end = 2, ed_text = [1, 2]\<rparr>] = [1, 2, 3]"
  by (rule apply_edits_splices [THEN conjunct2, THEN mp]) simp

section \<open>Braces\<close>

definition depth_after :: "'d token list \<Rightarrow> int" where
  "depth_after ts = (\<Sum>t \<leftarrow> ts. if tok_type t = LeftBrace then 1
     else if tok_type t = RightBrace then - 1 else 0)"

lemma depth_after_simps [simp]:
  "depth_after [] = 0"
  "depth_after (t # ts) = (if tok_type t = LeftBrace then 1
     else if tok_type t = RightBrace then - 1 else 0) + depth_after ts"
  by (simp_all add: depth_after_def)

definition closes_at :: "nat \<Rightarrow> 'd token list \<Rightarrow> nat \<Rightarrow> bool" where
  "closes_at depth ts m \<longleftrightarrow> m < length ts \<and> tok_type (ts ! m) = RightBrace \<and>
     int depth + depth_after (take (Suc m) ts) = 0 \<and>
     (\<forall>k \<le> m. 0 \<le> int depth + depth_after (take k ts))"

lemma closes_at_Cons:
  assumes "closes_at d ts m" "int d = int depth +
    (if tok_type t = LeftBrace then 1 else if tok_type t = RightBrace then - 1 else 0)"
  shows "closes_at depth (t # ts) (Suc m)"
proof -
  have "0 \<le> int depth + depth_after (take k (t # ts))" if "k \<le> Suc m" for k
    using assms that by (cases k) (auto simp: closes_at_def)
  with assms show ?thesis by (auto simp: closes_at_def)
qed

lemma brace_loop_Some:
  "brace_loop depth index ts = Some j \<Longrightarrow> index \<le> j \<and> closes_at depth ts (j - index)"
proof (induction depth index ts rule: brace_loop.induct)
  case (1 depth index)
  then show ?case by simp
next
  case (2 depth index t ts)
  have later: ?case if "index + 1 \<le> j \<and> closes_at d ts (j - (index + 1))"
    and "int d = int depth +
      (if tok_type t = LeftBrace then 1 else if tok_type t = RightBrace then - 1 else 0)" for d
    using that closes_at_Cons [of d ts "j - (index + 1)" depth t] by (simp add: Suc_diff_Suc)
  consider (inner) "tok_type t = LeftBrace" | (final) "tok_type t = RightBrace" "depth = 1"
    | (close) "tok_type t = RightBrace" "1 < depth"
    | (other) "tok_type t \<noteq> LeftBrace" "tok_type t \<noteq> RightBrace"
    using "2.prems" by (cases "tok_type t = RightBrace"; cases depth) (auto split: if_splits)
  then show ?case
  proof cases
    case inner
    with 2 show ?thesis by (intro later [of "depth + 1"]) simp_all
  next
    case final
    with "2.prems" show ?thesis by (auto simp: closes_at_def)
  next
    case close
    with 2 show ?thesis by (intro later [of "depth - 1"]) simp_all
  next
    case other
    with 2 show ?thesis by (intro later [of depth]) simp_all
  qed
qed

text \<open>
  \<open>matching_brace\<close> finds the partner: started at an opening brace it answers with a
  closing brace such that the braces from one to the other balance and the nesting is
  never negative before it.
\<close>

theorem matching_brace_balanced:
  assumes "matching_brace s i = Some j" "i < length (sc_tokens s)"
  shows "i \<le> j \<and> j < length (sc_tokens s) \<and> tok_type (sc_tokens s ! j) = RightBrace \<and>
    depth_after (take (Suc (j - i)) (drop i (sc_tokens s))) = 0 \<and>
    (\<forall>k \<le> j - i. 0 \<le> depth_after (take k (drop i (sc_tokens s))))"
proof -
  have "i \<le> j \<and> closes_at 0 (drop i (sc_tokens s)) (j - i)"
    using assms(1) unfolding matching_brace_def by (rule brace_loop_Some)
  with assms(2) show ?thesis by (auto simp: closes_at_def)
qed

lemma matching_brace_balanced_witness:
  "tok_type (sc_tokens (scan_new ascii_env (cps ''{a{b}c}'')) ! 6) = RightBrace"
proof -
  have "matching_brace (scan_new ascii_env (cps ''{a{b}c}'')) 0 = Some 6"
    "0 < length (sc_tokens (scan_new ascii_env (cps ''{a{b}c}'')))"
    by code_simp+
  from matching_brace_balanced [OF this] show ?thesis by blast
qed

end
