(* ===== verification/Hot_MemQueue.thy ===== *)
theory Hot_MemQueue
  imports Hot_Prelude "HOL-Library.Multiset"
begin

text \<open>
  The in-process queue, \<^verbatim>\<open>crates/hot/src/queue/mem.rs\<close>, and the retrying producer of
  \<^verbatim>\<open>queue/mod.rs\<close>: enqueue and dequeue, the claim of a delivery with its retry gate, the
  processing of a lease on every outcome of the worker, the restoration of a dropped lease,
  and the dead-letter channel.

  The channel crate \<^verbatim>\<open>async_channel\<close> is a parameter, a record of its operations;
  \<open>fifo_channel cap C\<close> states what its documentation says of an open bounded channel: a send
  fails exactly when the channel holds \<open>cap\<close> items and appends otherwise, a receive takes the
  oldest item. (The registry keeps both ends of every channel for the life of the process,
  so the channels stay open.) An operation that awaits a send is modelled by one poll of it:
  \<open>Pending\<close> when the channel is full.

  \<open>mq_step\<close> interleaves producers, consumers, cancelled futures, detached tasks and drains of
  the dead-letter channel at their await points, inside and outside a runtime. The lemmas show
  that no item is duplicated, in which three situations one is lost, that the retry count
  bounds deliveries, and when a message that always fails reaches the dead-letter channel.
\<close>

section \<open>The channel\<close>

datatype send_result = Sent | SendFull | SendClosed

datatype 'x recv_result = Received 'x | RecvEmpty | RecvClosed

record ('c, 'x) channel_api =
  try_send :: "'x \<Rightarrow> 'c \<Rightarrow> send_result \<times> 'c"
  try_recv :: "'c \<Rightarrow> 'x recv_result \<times> 'c"
  chan_items :: "'c \<Rightarrow> 'x list"

definition fifo_channel :: "nat \<Rightarrow> ('c, 'x) channel_api \<Rightarrow> bool" where
  "fifo_channel cap C \<longleftrightarrow>
     (\<forall>x c. if length (chan_items C c) < cap
        then fst (try_send C x c) = Sent \<and> chan_items C (snd (try_send C x c)) = chan_items C c @ [x]
        else try_send C x c = (SendFull, c)) \<and>
     (\<forall>c. case chan_items C c of
        [] \<Rightarrow> try_recv C c = (RecvEmpty, c)
      | x # xs \<Rightarrow> fst (try_recv C c) = Received x \<and> chan_items C (snd (try_recv C c)) = xs)"

datatype 'a poll = Pending | Ready 'a

text \<open>One poll of \<^verbatim>\<open>tx.send(x)\<close>: ready with whether the channel took the item.\<close>

definition send_poll :: "('c, 'x) channel_api \<Rightarrow> 'x \<Rightarrow> 'c \<Rightarrow> bool poll \<times> 'c" where
  "send_poll C x c =
     (case try_send C x c of
        (Sent, c') \<Rightarrow> (Ready True, c')
      | (SendFull, c') \<Rightarrow> (Pending, c')
      | (SendClosed, c') \<Rightarrow> (Ready False, c'))"

section \<open>Definitions\<close>

definition MAX_PROCESSING_RETRIES :: nat where
  "MAX_PROCESSING_RETRIES = 3"

definition CHANNEL_CAPACITY :: nat where
  "CHANNEL_CAPACITY = 100000"

datatype queue_error = Closed | RetryLimitExceeded | QueueError | WorkerError

record 't retry_item =
  rt_item :: 't
  retry_count :: nat
  first_attempt :: nat
  redelivered :: bool

definition retry_new :: "nat \<Rightarrow> 't \<Rightarrow> 't retry_item" where
  "retry_new now item = \<lparr>rt_item = item, retry_count = 0, first_attempt = now, redelivered = False\<rparr>"

definition from_parts :: "'t \<Rightarrow> nat \<Rightarrow> nat \<Rightarrow> bool \<Rightarrow> 't retry_item" where
  "from_parts item n first redel =
     \<lparr>rt_item = item, retry_count = n, first_attempt = first, redelivered = redel\<rparr>"

definition exceeded_retries :: "'t retry_item \<Rightarrow> bool" where
  "exceeded_retries r \<longleftrightarrow> retry_count r \<ge> MAX_PROCESSING_RETRIES"

record ('c, 'd) mem_queue =
  mq_main :: 'c
  mq_dlq :: 'd

text \<open>
  The registry of named channels, keyed by name and item type; a channel is named by the
  number it was created with.
\<close>

definition get_or_create_channels ::
    "string \<times> 'ty \<Rightarrow> ((string \<times> 'ty) \<times> nat) list \<Rightarrow> nat \<times> ((string \<times> 'ty) \<times> nat) list" where
  "get_or_create_channels key reg =
     (case im_get reg key of
        Some channels \<Rightarrow> (channels, reg)
      | None \<Rightarrow> (length reg, im_insert key (length reg) reg))"

definition enqueue :: "('c, 't retry_item) channel_api \<Rightarrow> nat \<Rightarrow> 't \<Rightarrow> ('c, 'd) mem_queue \<Rightarrow>
    (queue_error + unit) poll \<times> ('c, 'd) mem_queue" where
  "enqueue M now item q =
     (case send_poll M (retry_new now item) (mq_main q) of
        (Pending, c) \<Rightarrow> (Pending, q\<lparr>mq_main := c\<rparr>)
      | (Ready True, c) \<Rightarrow> (Ready (Inr ()), q\<lparr>mq_main := c\<rparr>)
      | (Ready False, c) \<Rightarrow> (Ready (Inl Closed), q\<lparr>mq_main := c\<rparr>))"

definition dequeue :: "('c, 't retry_item) channel_api \<Rightarrow> ('c, 'd) mem_queue \<Rightarrow>
    (queue_error + 't option) \<times> ('c, 'd) mem_queue" where
  "dequeue M q =
     (case try_recv M (mq_main q) of
        (Received r, c) \<Rightarrow> (Inr (Some (rt_item r)), q\<lparr>mq_main := c\<rparr>)
      | (RecvEmpty, c) \<Rightarrow> (Inr None, q\<lparr>mq_main := c\<rparr>)
      | (RecvClosed, c) \<Rightarrow> (Inl Closed, q\<lparr>mq_main := c\<rparr>))"

text \<open>One poll of \<^verbatim>\<open>recv_async\<close>.\<close>

definition recv_async :: "('c, 't retry_item) channel_api \<Rightarrow> ('c, 'd) mem_queue \<Rightarrow>
    (queue_error + 't) poll \<times> ('c, 'd) mem_queue" where
  "recv_async M q =
     (case try_recv M (mq_main q) of
        (Received r, c) \<Rightarrow> (Ready (Inr (rt_item r)), q\<lparr>mq_main := c\<rparr>)
      | (RecvEmpty, c) \<Rightarrow> (Pending, q\<lparr>mq_main := c\<rparr>)
      | (RecvClosed, c) \<Rightarrow> (Ready (Inl Closed), q\<lparr>mq_main := c\<rparr>))"

definition mq_len :: "('c, 't retry_item) channel_api \<Rightarrow> ('c, 'd) mem_queue \<Rightarrow> nat" where
  "mq_len M q = length (chan_items M (mq_main q))"

definition send_to_dlq :: "('d, 't) channel_api \<Rightarrow> 't \<Rightarrow> ('c, 'd) mem_queue \<Rightarrow>
    bool poll \<times> ('c, 'd) mem_queue" where
  "send_to_dlq D item q = (let (r, d) = send_poll D item (mq_dlq q) in (r, q\<lparr>mq_dlq := d\<rparr>))"

definition move_to_dead_letter_queue :: "('d, 't) channel_api \<Rightarrow> 't \<Rightarrow> ('c, 'd) mem_queue \<Rightarrow>
    (queue_error + unit) poll \<times> ('c, 'd) mem_queue" where
  "move_to_dead_letter_queue D item q =
     (case send_poll D item (mq_dlq q) of
        (Pending, d) \<Rightarrow> (Pending, q\<lparr>mq_dlq := d\<rparr>)
      | (Ready True, d) \<Rightarrow> (Ready (Inr ()), q\<lparr>mq_dlq := d\<rparr>)
      | (Ready False, d) \<Rightarrow> (Ready (Inl Closed), q\<lparr>mq_dlq := d\<rparr>))"

text \<open>\<open>while let Ok(item) = dlq_rx.try_recv()\<close>: ends when the channel is empty or closed.\<close>

partial_function (option) drain_loop ::
    "('d, 't) channel_api \<Rightarrow> 't list \<Rightarrow> 'd \<Rightarrow> ('t list \<times> 'd) option" where
  "drain_loop D out d =
     (case try_recv D d of
        (Received x, d') \<Rightarrow> drain_loop D (out @ [x]) d'
      | (RecvEmpty, d') \<Rightarrow> Some (out, d')
      | (RecvClosed, d') \<Rightarrow> Some (out, d'))"

definition try_drain_dlq :: "('d, 't) channel_api \<Rightarrow> ('c, 'd) mem_queue \<Rightarrow>
    ('t list \<times> ('c, 'd) mem_queue) option" where
  "try_drain_dlq D q =
     (case drain_loop D [] (mq_dlq q) of
        None \<Rightarrow> None
      | Some (out, d) \<Rightarrow> Some (out, q\<lparr>mq_dlq := d\<rparr>))"

text \<open>
  A claim either waits for an item, waits for the dead-letter channel to take an item whose
  retries are used up, or is done.
\<close>

datatype 't claim =
    ClaimBlocked
  | ClaimToDlq 't
  | ClaimDone "queue_error + 't retry_item option"

definition claim_with :: "('c, 't retry_item) channel_api \<Rightarrow> ('d, 't) channel_api \<Rightarrow> bool \<Rightarrow>
    ('c, 'd) mem_queue \<Rightarrow> 't claim \<times> ('c, 'd) mem_queue" where
  "claim_with M D block q =
     (case try_recv M (mq_main q) of
        (RecvEmpty, c) \<Rightarrow> (if block then ClaimBlocked else ClaimDone (Inr None), q\<lparr>mq_main := c\<rparr>)
      | (RecvClosed, c) \<Rightarrow> (ClaimDone (Inl Closed), q\<lparr>mq_main := c\<rparr>)
      | (Received r, c) \<Rightarrow>
          (let q = q\<lparr>mq_main := c\<rparr>
           in if exceeded_retries r then
                (case send_to_dlq D (rt_item r) q of
                   (Pending, q') \<Rightarrow> (ClaimToDlq (rt_item r), q')
                 | (Ready _, q') \<Rightarrow> (ClaimDone (Inl RetryLimitExceeded), q'))
              else (ClaimDone (Inr (Some r)), q)))"

text \<open>What the worker answers: a result, an infrastructure error with a backoff, or an error.\<close>

datatype 'r worker_result =
    WorkerOk 'r
  | WorkerInfra string nat
  | WorkerFailed

definition PRESERVE_DELIVERY_COUNT_TOKEN :: string where
  "PRESERVE_DELIVERY_COUNT_TOKEN = ''[preserve-delivery-count]''"

definition infrastructure_requeue_preserves_delivery_count :: "string \<Rightarrow> bool" where
  "infrastructure_requeue_preserves_delivery_count reason =
     contains_sub reason PRESERVE_DELIVERY_COUNT_TOKEN"

text \<open>
  How far one poll of \<open>process\<close> after the worker's answer gets: finished, or waiting for the
  main or the dead-letter channel. The second component lists the detached requeue, if any.
\<close>

datatype ('t, 'r) progress =
    Finished "queue_error + 'r option"
  | AwaitSend "'t retry_item" queue_error
  | AwaitDead 't queue_error

definition process :: "('c, 't retry_item) channel_api \<Rightarrow> ('d, 't) channel_api \<Rightarrow> 'r worker_result \<Rightarrow>
    't retry_item \<Rightarrow> ('c, 'd) mem_queue \<Rightarrow>
    ('t, 'r) progress \<times> 't retry_item list \<times> ('c, 'd) mem_queue" where
  "process M D w r q =
     (let next_retry_count = retry_count r + 1
      in case w of
        WorkerOk result \<Rightarrow> (Finished (Inr (Some result)), [], q)
      | WorkerInfra reason backoff \<Rightarrow>
          (let counted = infrastructure_requeue_preserves_delivery_count reason;
               requeued = from_parts (rt_item r) (if counted then next_retry_count else retry_count r)
                 (first_attempt r) True
           in if backoff = 0 then
                (case send_poll M requeued (mq_main q) of
                   (Pending, c) \<Rightarrow> (AwaitSend requeued QueueError, [], q\<lparr>mq_main := c\<rparr>)
                 | (Ready _, c) \<Rightarrow> (Finished (Inl QueueError), [], q\<lparr>mq_main := c\<rparr>))
              else (Finished (Inl QueueError), [requeued], q))
      | WorkerFailed \<Rightarrow>
          (let updated = from_parts (rt_item r) next_retry_count (first_attempt r) True
           in if exceeded_retries updated then
                (case send_to_dlq D (rt_item updated) q of
                   (Pending, q') \<Rightarrow> (AwaitDead (rt_item updated) WorkerError, [], q')
                 | (Ready _, q') \<Rightarrow> (Finished (Inl WorkerError), [], q'))
              else
                (case send_poll M updated (mq_main q) of
                   (Pending, c) \<Rightarrow> (AwaitSend updated WorkerError, [], q\<lparr>mq_main := c\<rparr>)
                 | (Ready _, c) \<Rightarrow> (Finished (Inl WorkerError), [], q\<lparr>mq_main := c\<rparr>))))"

text \<open>
  \<open>Drop\<close> of a lease that did not complete: the delivery goes back with its retry counted, by
  a detached task when the channel is full and a runtime is there to run it. The result lists
  the detached restoration and the items the log reports as not restored.
\<close>

definition drop_lease :: "('c, 't retry_item) channel_api \<Rightarrow> bool \<Rightarrow> bool \<Rightarrow> 't retry_item option \<Rightarrow>
    ('c, 'd) mem_queue \<Rightarrow> 't retry_item list \<times> 't list \<times> ('c, 'd) mem_queue" where
  "drop_lease M in_runtime completed held q =
     (if completed then ([], [], q)
      else case held of
        None \<Rightarrow> ([], [], q)
      | Some r \<Rightarrow>
          (let r' = from_parts (rt_item r) (retry_count r + 1) (first_attempt r) True
           in case try_send M r' (mq_main q) of
                (Sent, c) \<Rightarrow> ([], [], q\<lparr>mq_main := c\<rparr>)
              | (SendFull, c) \<Rightarrow>
                  (if in_runtime then ([r'], [], q\<lparr>mq_main := c\<rparr>) else ([], [rt_item r'], q\<lparr>mq_main := c\<rparr>))
              | (SendClosed, c) \<Rightarrow> ([], [rt_item r'], q\<lparr>mq_main := c\<rparr>)))"

definition dequeue_and_work :: "('c, 't retry_item) channel_api \<Rightarrow> ('d, 't) channel_api \<Rightarrow>
    'r worker_result \<Rightarrow> ('c, 'd) mem_queue \<Rightarrow>
    ('t, 'r) progress \<times> 't retry_item list \<times> ('c, 'd) mem_queue" where
  "dequeue_and_work M D w q =
     (case claim_with M D False q of
        (ClaimDone (Inl e), q') \<Rightarrow> (Finished (Inl e), [], q')
      | (ClaimDone (Inr None), q') \<Rightarrow> (Finished (Inr None), [], q')
      | (ClaimDone (Inr (Some r)), q') \<Rightarrow> process M D w r q'
      | (ClaimToDlq item, q') \<Rightarrow> (AwaitDead item RetryLimitExceeded, [], q')
      | (ClaimBlocked, q') \<Rightarrow> (Finished (Inr None), [], q'))"

text \<open>\<open>enqueue_with_retries\<close> of \<^verbatim>\<open>queue/mod.rs\<close>, over any queue's \<open>enqueue\<close>.\<close>

fun enqueue_with_retries :: "('t \<Rightarrow> 's \<Rightarrow> ('e + unit) \<times> 's) \<Rightarrow> 't \<Rightarrow> nat list \<Rightarrow> 's \<Rightarrow> ('e + unit) \<times> 's" where
  "enqueue_with_retries enq item [] s = enq item s"
| "enqueue_with_retries enq item (delay # delays) s =
     (case enq item s of
        (Inr u, s') \<Rightarrow> (Inr u, s')
      | (Inl e, s') \<Rightarrow> enqueue_with_retries enq item delays s')"

section \<open>The operations on a FIFO channel\<close>

lemma fifo_send:
  assumes "fifo_channel cap C" "length (chan_items C c) < cap"
  shows "fst (try_send C x c) = Sent" "chan_items C (snd (try_send C x c)) = chan_items C c @ [x]"
  using assms unfolding fifo_channel_def by presburger+

lemma try_send_room:
  assumes "fifo_channel cap C" "length (chan_items C c) < cap"
  obtains c' where "try_send C x c = (Sent, c')" "chan_items C c' = chan_items C c @ [x]"
  using fifo_send [OF assms] that by (metis prod.collapse)

lemma try_send_full:
  "fifo_channel cap C \<Longrightarrow> \<not> length (chan_items C c) < cap \<Longrightarrow> try_send C x c = (SendFull, c)"
  by (simp add: fifo_channel_def)

lemma try_send_cases:
  assumes "fifo_channel cap C"
  obtains (sent) c' where "try_send C x c = (Sent, c')" "chan_items C c' = chan_items C c @ [x]"
  | (full) "try_send C x c = (SendFull, c)"
  using try_send_room [OF assms, of c x] try_send_full [OF assms, of c x] by blast

lemma try_recv_cases:
  assumes "fifo_channel cap C"
  obtains (received) x c' where "try_recv C c = (Received x, c')" "chan_items C c = x # chan_items C c'"
  | (empty) "try_recv C c = (RecvEmpty, c)" "chan_items C c = []"
proof (cases "chan_items C c")
  case Nil
  with assms empty show ?thesis by (auto simp: fifo_channel_def split: list.splits)
next
  case (Cons x xs)
  from assms have "case chan_items C c of [] \<Rightarrow> try_recv C c = (RecvEmpty, c)
      | x # xs \<Rightarrow> fst (try_recv C c) = Received x \<and> chan_items C (snd (try_recv C c)) = xs"
    unfolding fifo_channel_def by blast
  with Cons received [of x "snd (try_recv C c)"] show ?thesis by (cases "try_recv C c") auto
qed

lemma send_poll_cases:
  assumes "fifo_channel cap C"
  obtains (sent) c' where "send_poll C x c = (Ready True, c')" "chan_items C c' = chan_items C c @ [x]"
  | (full) "send_poll C x c = (Pending, c)"
  by (rule try_send_cases [OF assms, of x c]) (auto simp: send_poll_def intro: sent full)

section \<open>Interleavings\<close>

text \<open>
  A task is a future at an await point: a lease whose worker runs, a lease waiting to
  requeue or to dead-letter its delivery (it still holds the original), a detached requeue,
  and a claim waiting to dead-letter an item it has already received.
\<close>

datatype 't task =
    Working "'t retry_item"
  | WaitSend "'t retry_item" "'t retry_item"
  | WaitDead "'t retry_item"
  | Detached "'t retry_item"
  | ClaimWait 't

fun task_item :: "'t task \<Rightarrow> 't" where
  "task_item (Working r) = rt_item r"
| "task_item (WaitSend r u) = rt_item r"
| "task_item (WaitDead r) = rt_item r"
| "task_item (Detached u) = rt_item u"
| "task_item (ClaimWait x) = x"

fun held_lease :: "'t task \<Rightarrow> 't retry_item option" where
  "held_lease (Working r) = Some r"
| "held_lease (WaitSend r u) = Some r"
| "held_lease (WaitDead r) = Some r"
| "held_lease _ = None"

record ('c, 'd, 't) mq_system =
  sys_queue :: "('c, 'd) mem_queue"
  sys_tasks :: "'t task multiset"
  accepted :: "'t multiset"
  completed :: "'t multiset"
  taken :: "'t multiset"
  lost :: "'t multiset"

fun waiting :: "'t retry_item \<Rightarrow> ('t, 'r) progress \<Rightarrow> 't task multiset" where
  "waiting r (Finished res) = {#}"
| "waiting r (AwaitSend u e) = {#WaitSend r u#}"
| "waiting r (AwaitDead x e) = {#WaitDead r#}"

fun finished_items :: "'t retry_item \<Rightarrow> ('t, 'r) progress \<Rightarrow> 't multiset" where
  "finished_items r (Finished (Inr (Some _))) = {#rt_item r#}"
| "finished_items r _ = {#}"

definition mq_init :: "('c, 't retry_item) channel_api \<Rightarrow> ('d, 't) channel_api \<Rightarrow>
    ('c, 'd, 't) mq_system \<Rightarrow> bool" where
  "mq_init M D s \<longleftrightarrow> chan_items M (mq_main (sys_queue s)) = [] \<and> chan_items D (mq_dlq (sys_queue s)) = [] \<and>
     sys_tasks s = {#} \<and> accepted s = {#} \<and> completed s = {#} \<and> taken s = {#} \<and> lost s = {#}"

text \<open>
  \<open>accepted\<close> counts what \<open>enqueue\<close> and \<open>move_to_dead_letter_queue\<close> took in, \<open>taken\<close> what left by
  \<open>dequeue\<close>, \<open>recv_async\<close> and the drain of the dead-letter channel, which other tasks may
  interleave between two receives. A detached task is aborted when its runtime is torn down.
\<close>

inductive mq_step :: "('c, 't retry_item) channel_api \<Rightarrow> ('d, 't) channel_api \<Rightarrow>
    ('c, 'd, 't) mq_system \<Rightarrow> ('c, 'd, 't) mq_system \<Rightarrow> bool"
  for M :: "('c, 't retry_item) channel_api" and D :: "('d, 't) channel_api" where
  enqueue_step: "enqueue M now x (sys_queue s) = (Ready (Inr ()), q) \<Longrightarrow>
    mq_step M D s (s\<lparr>sys_queue := q, accepted := add_mset x (accepted s)\<rparr>)"
| claim_step: "claim_with M D block (sys_queue s) = (ClaimDone (Inr (Some r)), q) \<Longrightarrow>
    mq_step M D s (s\<lparr>sys_queue := q, sys_tasks := add_mset (Working r) (sys_tasks s)\<rparr>)"
| gate_step: "claim_with M D block (sys_queue s) = (ClaimDone (Inl RetryLimitExceeded), q) \<Longrightarrow>
    mq_step M D s (s\<lparr>sys_queue := q\<rparr>)"
| gate_wait_step: "claim_with M D block (sys_queue s) = (ClaimToDlq x, q) \<Longrightarrow>
    mq_step M D s (s\<lparr>sys_queue := q, sys_tasks := add_mset (ClaimWait x) (sys_tasks s)\<rparr>)"
| gate_resume_step: "ClaimWait x \<in># sys_tasks s \<Longrightarrow> send_to_dlq D x (sys_queue s) = (Ready b, q) \<Longrightarrow>
    mq_step M D s (s\<lparr>sys_queue := q, sys_tasks := sys_tasks s - {#ClaimWait x#}\<rparr>)"
| gate_cancel_step: "ClaimWait x \<in># sys_tasks s \<Longrightarrow>
    mq_step M D s (s\<lparr>sys_tasks := sys_tasks s - {#ClaimWait x#}, lost := add_mset x (lost s)\<rparr>)"
| process_step: "Working r \<in># sys_tasks s \<Longrightarrow>
    process M D (w :: unit worker_result) r (sys_queue s) = (p, spawned, q) \<Longrightarrow>
    mq_step M D s (s\<lparr>sys_queue := q,
      sys_tasks := sys_tasks s - {#Working r#} + waiting r p + image_mset Detached (mset spawned),
      completed := finished_items r p + completed s\<rparr>)"
| send_resume_step: "WaitSend r u \<in># sys_tasks s \<Longrightarrow>
    send_poll M u (mq_main (sys_queue s)) = (Ready b, c) \<Longrightarrow>
    mq_step M D s (s\<lparr>sys_queue := (sys_queue s)\<lparr>mq_main := c\<rparr>, sys_tasks := sys_tasks s - {#WaitSend r u#}\<rparr>)"
| dead_resume_step: "WaitDead r \<in># sys_tasks s \<Longrightarrow>
    send_to_dlq D (rt_item r) (sys_queue s) = (Ready b, q) \<Longrightarrow>
    mq_step M D s (s\<lparr>sys_queue := q, sys_tasks := sys_tasks s - {#WaitDead r#}\<rparr>)"
| detached_step: "Detached u \<in># sys_tasks s \<Longrightarrow>
    send_poll M u (mq_main (sys_queue s)) = (Ready b, c) \<Longrightarrow>
    mq_step M D s (s\<lparr>sys_queue := (sys_queue s)\<lparr>mq_main := c\<rparr>, sys_tasks := sys_tasks s - {#Detached u#}\<rparr>)"
| drop_step: "t \<in># sys_tasks s \<Longrightarrow> held_lease t = Some r \<Longrightarrow>
    drop_lease M in_runtime False (Some r) (sys_queue s) = (spawned, unrestored, q) \<Longrightarrow>
    mq_step M D s (s\<lparr>sys_queue := q,
      sys_tasks := sys_tasks s - {#t#} + image_mset Detached (mset spawned), lost := mset unrestored + lost s\<rparr>)"
| abort_step: "Detached u \<in># sys_tasks s \<Longrightarrow>
    mq_step M D s (s\<lparr>sys_tasks := sys_tasks s - {#Detached u#}, lost := add_mset (rt_item u) (lost s)\<rparr>)"
| dequeue_step: "dequeue M (sys_queue s) = (Inr (Some x), q) \<Longrightarrow>
    mq_step M D s (s\<lparr>sys_queue := q, taken := add_mset x (taken s)\<rparr>)"
| recv_step: "recv_async M (sys_queue s) = (Ready (Inr x), q) \<Longrightarrow>
    mq_step M D s (s\<lparr>sys_queue := q, taken := add_mset x (taken s)\<rparr>)"
| drain_step: "try_recv D (mq_dlq (sys_queue s)) = (Received x, d) \<Longrightarrow>
    mq_step M D s (s\<lparr>sys_queue := (sys_queue s)\<lparr>mq_dlq := d\<rparr>, taken := add_mset x (taken s)\<rparr>)"
| move_step: "move_to_dead_letter_queue D x (sys_queue s) = (Ready (Inr ()), q) \<Longrightarrow>
    mq_step M D s (s\<lparr>sys_queue := q, accepted := add_mset x (accepted s)\<rparr>)"

text \<open>Where the items are.\<close>

definition stored :: "('c, 't retry_item) channel_api \<Rightarrow> ('d, 't) channel_api \<Rightarrow>
    ('c, 'd) mem_queue \<Rightarrow> 't multiset" where
  "stored M D q = mset (map rt_item (chan_items M (mq_main q))) + mset (chan_items D (mq_dlq q))"

definition conserved :: "('c, 't retry_item) channel_api \<Rightarrow> ('d, 't) channel_api \<Rightarrow>
    ('c, 'd, 't) mq_system \<Rightarrow> bool" where
  "conserved M D s \<longleftrightarrow> accepted s =
     stored M D (sys_queue s) + image_mset task_item (sys_tasks s) + completed s + taken s + lost s"

definition counts_ok :: "('c, 't retry_item) channel_api \<Rightarrow> ('c, 'd, 't) mq_system \<Rightarrow> bool" where
  "counts_ok M s \<longleftrightarrow>
     (\<forall>r \<in> set (chan_items M (mq_main (sys_queue s))). retry_count r \<le> MAX_PROCESSING_RETRIES) \<and>
     (\<forall>t \<in># sys_tasks s. case t of
        Working r \<Rightarrow> \<not> exceeded_retries r
      | WaitSend r u \<Rightarrow> \<not> exceeded_retries r \<and> retry_count u \<le> MAX_PROCESSING_RETRIES \<and> rt_item u = rt_item r
      | WaitDead r \<Rightarrow> \<not> exceeded_retries r
      | Detached u \<Rightarrow> retry_count u \<le> MAX_PROCESSING_RETRIES
      | ClaimWait x \<Rightarrow> True)"

lemmas queue_ops = enqueue_def claim_with_def process_def drop_lease_def send_to_dlq_def send_poll_def
  Let_def

lemma enqueue_Ready:
  assumes "fifo_channel cap M" "enqueue M now x q = (Ready (Inr ()), q')"
  shows "chan_items M (mq_main q') = chan_items M (mq_main q) @ [retry_new now x] \<and> mq_dlq q' = mq_dlq q"
  by (rule send_poll_cases [OF assms(1), of "retry_new now x" "mq_main q"])
    (use assms(2) in \<open>auto simp: enqueue_def\<close>)

lemma send_poll_Ready:
  assumes "fifo_channel cap C" "send_poll C x c = (Ready b, c')"
  shows "chan_items C c' = chan_items C c @ [x]"
  by (rule send_poll_cases [OF assms(1), of x c]) (use assms(2) in auto)

lemma send_poll_Pending:
  assumes "fifo_channel cap C" "send_poll C x c = (Pending, c')"
  shows "c' = c"
  by (rule send_poll_cases [OF assms(1), of x c]) (use assms(2) in auto)

lemma send_to_dlq_Ready:
  assumes "fifo_channel cap D" "send_to_dlq D x q = (Ready b, q')"
  shows "chan_items D (mq_dlq q') = chan_items D (mq_dlq q) @ [x] \<and> mq_main q' = mq_main q"
  using assms(2) send_poll_Ready [OF assms(1)] by (auto simp: send_to_dlq_def split: prod.splits)

lemma send_to_dlq_Pending:
  assumes "fifo_channel cap D" "send_to_dlq D x q = (Pending, q')"
  shows "q' = q"
  using assms(2) send_poll_Pending [OF assms(1)] by (auto simp: send_to_dlq_def split: prod.splits)

text \<open>A claim takes the oldest delivery; where it goes depends on its retry count.\<close>

lemma claim_cases:
  assumes "fifo_channel cap M" "fifo_channel cap' D" "claim_with M D block q = (res, q')"
  obtains (lease) r where "res = ClaimDone (Inr (Some r))" "\<not> exceeded_retries r"
      "chan_items M (mq_main q) = r # chan_items M (mq_main q')" "mq_dlq q' = mq_dlq q"
  | (dead) r where "res = ClaimDone (Inl RetryLimitExceeded)" "exceeded_retries r"
      "chan_items M (mq_main q) = r # chan_items M (mq_main q')"
      "chan_items D (mq_dlq q') = chan_items D (mq_dlq q) @ [rt_item r]"
  | (gate) r where "res = ClaimToDlq (rt_item r)" "exceeded_retries r"
      "chan_items M (mq_main q) = r # chan_items M (mq_main q')" "mq_dlq q' = mq_dlq q"
  | (idle) "res = ClaimBlocked \<or> res = ClaimDone (Inr None)" "q' = q"
proof (rule try_recv_cases [OF assms(1), of "mq_main q"])
  fix r c
  assume r: "try_recv M (mq_main q) = (Received r, c)" "chan_items M (mq_main q) = r # chan_items M c"
  let ?q = "q\<lparr>mq_main := c\<rparr>"
  show thesis
  proof (cases "exceeded_retries r")
    case False
    with r assms(3) show ?thesis by (intro lease [of r]) (auto simp: claim_with_def)
  next
    case True
    obtain o' q2 where send: "send_to_dlq D (rt_item r) ?q = (o', q2)" by fastforce
    with r True assms(3) have q2: "q' = q2"
      and res: "res = (case o' of Pending \<Rightarrow> ClaimToDlq (rt_item r)
        | Ready _ \<Rightarrow> ClaimDone (Inl RetryLimitExceeded))"
      by (auto simp: claim_with_def split: poll.splits)
    show ?thesis
    proof (cases o')
      case Pending
      with send send_to_dlq_Pending [OF assms(2)] have "q2 = ?q" by simp
      with Pending True r q2 res show ?thesis by (intro gate [of r]) simp_all
    next
      case (Ready b)
      with send_to_dlq_Ready [OF assms(2)] send
      have "chan_items D (mq_dlq q2) = chan_items D (mq_dlq q) @ [rt_item r] \<and> mq_main q2 = c"
        by fastforce
      with Ready True r q2 res show ?thesis by (intro dead [of r]) simp_all
    qed
  qed
next
  assume "try_recv M (mq_main q) = (RecvEmpty, mq_main q)"
  with assms(3) show thesis by (intro idle) (auto simp: claim_with_def split: if_splits)
qed

text \<open>After the worker's answer the delivery is in exactly one place, with its retry counted.\<close>

lemma process_cases:
  assumes "fifo_channel cap M" "fifo_channel cap' D" "process M D w r q = (p, spawned, q')"
  obtains (complete) x where "p = Finished (Inr (Some x))" "spawned = []" "q' = q"
  | (requeue) u e where "p = Finished (Inl e)" "spawned = []" "rt_item u = rt_item r"
      "retry_count u \<le> retry_count r + 1"
      "chan_items M (mq_main q') = chan_items M (mq_main q) @ [u]" "mq_dlq q' = mq_dlq q"
  | (await) u e where "p = AwaitSend u e" "spawned = []" "rt_item u = rt_item r"
      "retry_count u \<le> retry_count r + 1" "q' = q"
  | (detach) u e where "p = Finished (Inl e)" "spawned = [u]" "rt_item u = rt_item r"
      "retry_count u \<le> retry_count r + 1" "q' = q"
  | (dead) e where "p = Finished (Inl e)" "spawned = []" "mq_main q' = mq_main q"
      "chan_items D (mq_dlq q') = chan_items D (mq_dlq q) @ [rt_item r]"
  | (await_dead) e where "p = AwaitDead (rt_item r) e" "spawned = []" "q' = q"
proof -
  have send: thesis if "rt_item u = rt_item r" "retry_count u \<le> retry_count r + 1"
    and "(case send_poll M u (mq_main q) of
        (Pending, c) \<Rightarrow> (AwaitSend u e, [], q\<lparr>mq_main := c\<rparr>)
      | (Ready _, c) \<Rightarrow> (Finished (Inl e), [], q\<lparr>mq_main := c\<rparr>)) = (p, spawned, q')" for u e
    by (rule send_poll_cases [OF assms(1), of u "mq_main q"])
      (use that requeue [of e u] await [of u e] in auto)
  have die: thesis if "(case send_to_dlq D (rt_item r) q of
        (Pending, q') \<Rightarrow> (AwaitDead (rt_item r) e, [], q')
      | (Ready _, q') \<Rightarrow> (Finished (Inl e), [], q')) = (p, spawned, q')" for e
  proof (cases "send_to_dlq D (rt_item r) q")
    case (Pair o' q2)
    show ?thesis
    proof (cases o')
      case Pending
      with Pair that have "p = AwaitDead (rt_item r) e" "spawned = []" "q' = q2" by simp_all
      with send_to_dlq_Pending [OF assms(2) Pair [unfolded Pending]] show ?thesis
        by (intro await_dead [of e]) simp_all
    next
      case (Ready b)
      with Pair that have "p = Finished (Inl e)" "spawned = []" "q' = q2" by simp_all
      with send_to_dlq_Ready [OF assms(2) Pair [unfolded Ready]] show ?thesis
        by (intro dead [of e]) simp_all
    qed
  qed
  have parts: "rt_item (from_parts i n f b) = i" "retry_count (from_parts i n f b) = n"
    for i :: 't and n f b by (simp_all add: from_parts_def)
  show thesis
  proof (cases w)
    case (WorkerOk x)
    with assms(3) show ?thesis by (intro complete [of x]) (auto simp: process_def)
  next
    case (WorkerInfra reason backoff)
    define u where "u = from_parts (rt_item r) (if infrastructure_requeue_preserves_delivery_count reason
      then retry_count r + 1 else retry_count r) (first_attempt r) True"
    have u: "rt_item u = rt_item r" "retry_count u \<le> retry_count r + 1" by (simp_all add: u_def parts)
    note eq = assms(3) [unfolded process_def Let_def WorkerInfra worker_result.case, folded u_def]
    show ?thesis
    proof (cases "backoff = 0")
      case True
      show ?thesis by (rule send [OF u, of QueueError]) (use eq True in \<open>simp only: if_True simp_thms\<close>)
    next
      case False
      with eq have "p = Finished (Inl QueueError)" "spawned = [u]" "q' = q" by simp_all
      with u show ?thesis by (intro detach [of QueueError u])
    qed
  next
    case WorkerFailed
    define u where "u = from_parts (rt_item r) (retry_count r + 1) (first_attempt r) True"
    have u: "rt_item u = rt_item r" "retry_count u \<le> retry_count r + 1" by (simp_all add: u_def parts)
    note eq = assms(3) [unfolded process_def Let_def WorkerFailed worker_result.case, folded u_def]
    show ?thesis
    proof (cases "exceeded_retries u")
      case True
      show ?thesis by (rule die [of WorkerError]) (use eq True u in \<open>simp only: if_True simp_thms\<close>)
    next
      case False
      show ?thesis by (rule send [OF u, of WorkerError]) (use eq False in \<open>simp only: if_False simp_thms\<close>)
    qed
  qed
qed

lemma drop_cases:
  assumes "fifo_channel cap M" "drop_lease M in_runtime False (Some r) q = (spawned, unrestored, q')"
  obtains u where "rt_item u = rt_item r" "retry_count u = retry_count r + 1" "mq_dlq q' = mq_dlq q"
    "spawned = [] \<and> unrestored = [] \<and> chan_items M (mq_main q') = chan_items M (mq_main q) @ [u] \<or>
     spawned = [u] \<and> unrestored = [] \<and> mq_main q' = mq_main q \<or>
     spawned = [] \<and> unrestored = [rt_item r] \<and> mq_main q' = mq_main q \<and> \<not> in_runtime \<and> cap \<le> length (chan_items M (mq_main q))"
proof -
  let ?u = "from_parts (rt_item r) (retry_count r + 1) (first_attempt r) True"
  have "mq_dlq q' = mq_dlq q \<and> (spawned = [] \<and> unrestored = [] \<and> chan_items M (mq_main q') = chan_items M (mq_main q) @ [?u] \<or>
     spawned = [?u] \<and> unrestored = [] \<and> mq_main q' = mq_main q \<or>
     spawned = [] \<and> unrestored = [rt_item ?u] \<and> mq_main q' = mq_main q \<and> \<not> in_runtime \<and> cap \<le> length (chan_items M (mq_main q)))"
  proof (cases "length (chan_items M (mq_main q)) < cap")
    case True
    show ?thesis
      by (rule try_send_room [OF assms(1) True, of ?u]) (use assms(2) in \<open>auto simp: drop_lease_def Let_def\<close>)
  next
    case False
    with try_send_full [OF assms(1) False, of ?u] assms(2) show ?thesis by (auto simp: drop_lease_def Let_def split: if_splits)
  qed
  with that [of ?u] show thesis by (simp add: from_parts_def)
qed

lemma dequeue_Some:
  assumes "fifo_channel cap M" "dequeue M q = (Inr (Some x), q')"
  shows "\<exists>r. x = rt_item r \<and> chan_items M (mq_main q) = r # chan_items M (mq_main q') \<and> mq_dlq q' = mq_dlq q"
  by (rule try_recv_cases [OF assms(1), of "mq_main q"]) (use assms(2) in \<open>auto simp: dequeue_def\<close>)

lemma recv_async_Ready:
  assumes "fifo_channel cap M" "recv_async M q = (Ready (Inr x), q')"
  shows "\<exists>r. x = rt_item r \<and> chan_items M (mq_main q) = r # chan_items M (mq_main q') \<and> mq_dlq q' = mq_dlq q"
  by (rule try_recv_cases [OF assms(1), of "mq_main q"]) (use assms(2) in \<open>auto simp: recv_async_def\<close>)

lemma try_recv_Received:
  assumes "fifo_channel cap D" "try_recv D d = (Received x, d')"
  shows "chan_items D d = x # chan_items D d'"
  by (rule try_recv_cases [OF assms(1), of d]) (use assms(2) in auto)

lemma move_Ready:
  assumes "fifo_channel cap D" "move_to_dead_letter_queue D x q = (Ready (Inr ()), q')"
  shows "chan_items D (mq_dlq q') = chan_items D (mq_dlq q) @ [x] \<and> mq_main q' = mq_main q"
  by (rule send_poll_cases [OF assms(1), of x "mq_dlq q"])
    (use assms(2) in \<open>auto simp: move_to_dead_letter_queue_def\<close>)

lemma conserved_step:
  assumes "fifo_channel cap M" "fifo_channel cap' D" "mq_step M D s s'" "conserved M D s"
    "counts_ok M s"
  shows "conserved M D s'"
  using assms(3)
proof cases
  case (enqueue_step now x q)
  then show ?thesis
    using enqueue_Ready [OF assms(1) enqueue_step(2)] assms(4)
    by (simp add: conserved_def stored_def retry_new_def)
next
  case (claim_step block r q)
  show ?thesis
    by (rule claim_cases [OF assms(1,2) claim_step(2)])
      (use assms(4) claim_step in \<open>auto simp: conserved_def stored_def\<close>)
next
  case (gate_step block q)
  show ?thesis
    by (rule claim_cases [OF assms(1,2) gate_step(2)])
      (use assms(4) gate_step in \<open>auto simp: conserved_def stored_def\<close>)
next
  case (gate_wait_step block x q)
  show ?thesis
    by (rule claim_cases [OF assms(1,2) gate_wait_step(2)])
      (use assms(4) gate_wait_step in \<open>auto simp: conserved_def stored_def\<close>)
next
  case (gate_resume_step x b q)
  then show ?thesis
    using send_to_dlq_Ready [OF assms(2) gate_resume_step(3)] assms(4)
    by (auto simp: conserved_def stored_def dest!: multi_member_split)
next
  case (gate_cancel_step x)
  then show ?thesis using assms(4) by (auto simp: conserved_def dest!: multi_member_split)
next
  case (process_step r w p spawned q)
  then obtain T where T: "sys_tasks s = add_mset (Working r) T" by (auto dest: multi_member_split)
  show ?thesis
    by (rule process_cases [OF assms(1,2) process_step(3)])
      (use assms(4) process_step(1) T in \<open>simp_all add: conserved_def stored_def\<close>)
next
  case (send_resume_step r u b c)
  then obtain T where T: "sys_tasks s = add_mset (WaitSend r u) T" by (auto dest: multi_member_split)
  moreover have "rt_item u = rt_item r" using assms(5) T by (simp add: counts_ok_def)
  ultimately show ?thesis
    using send_poll_Ready [OF assms(1) send_resume_step(3)] assms(4) send_resume_step(1)
    by (simp add: conserved_def stored_def)
next
  case (dead_resume_step r b q)
  then show ?thesis
    using send_to_dlq_Ready [OF assms(2) dead_resume_step(3)] assms(4)
    by (auto simp: conserved_def stored_def dest!: multi_member_split)
next
  case (detached_step u b c)
  then show ?thesis
    using send_poll_Ready [OF assms(1) detached_step(3)] assms(4)
    by (auto simp: conserved_def stored_def dest!: multi_member_split)
next
  case (drop_step t r in_runtime spawned unrestored q)
  then obtain T where T: "sys_tasks s = add_mset t T" by (auto dest: multi_member_split)
  have t: "task_item t = rt_item r" using drop_step(3) by (cases t) simp_all
  show ?thesis
    by (rule drop_cases [OF assms(1) drop_step(4)])
      (use assms(4) drop_step(1) T t in \<open>auto simp: conserved_def stored_def\<close>)
next
  case (abort_step u)
  then show ?thesis using assms(4) by (auto simp: conserved_def dest!: multi_member_split)
next
  case (dequeue_step x q)
  then show ?thesis
    using dequeue_Some [OF assms(1) dequeue_step(2)] assms(4) by (auto simp: conserved_def stored_def)
next
  case (recv_step x q)
  then show ?thesis
    using recv_async_Ready [OF assms(1) recv_step(2)] assms(4) by (auto simp: conserved_def stored_def)
next
  case (drain_step x d)
  then show ?thesis
    using try_recv_Received [OF assms(2) drain_step(2)] assms(4) by (auto simp: conserved_def stored_def)
next
  case (move_step x q)
  then show ?thesis
    using move_Ready [OF assms(2) move_step(2)] assms(4) by (simp add: conserved_def stored_def)
qed

lemma counts_ok_step:
  assumes "fifo_channel cap M" "fifo_channel cap' D" "mq_step M D s s'" "counts_ok M s"
  shows "counts_ok M s'"
  using assms(3)
proof cases
  case (enqueue_step now x q)
  then show ?thesis
    using enqueue_Ready [OF assms(1) enqueue_step(2)] assms(4)
    by (auto simp: counts_ok_def retry_new_def)
next
  case (claim_step block r q)
  show ?thesis
    by (rule claim_cases [OF assms(1,2) claim_step(2)])
      (use assms(4) claim_step in \<open>auto simp: counts_ok_def\<close>)
next
  case (gate_step block q)
  show ?thesis
    by (rule claim_cases [OF assms(1,2) gate_step(2)])
      (use assms(4) gate_step in \<open>auto simp: counts_ok_def\<close>)
next
  case (gate_wait_step block x q)
  show ?thesis
    by (rule claim_cases [OF assms(1,2) gate_wait_step(2)])
      (use assms(4) gate_wait_step in \<open>auto simp: counts_ok_def\<close>)
next
  case (gate_resume_step x b q)
  then show ?thesis
    using send_to_dlq_Ready [OF assms(2) gate_resume_step(3)] assms(4)
    by (auto simp: counts_ok_def dest: in_diffD)
next
  case (gate_cancel_step x)
  then show ?thesis using assms(4) by (auto simp: counts_ok_def dest: in_diffD)
next
  case (process_step r w p spawned q)
  then have r: "\<not> exceeded_retries r" using assms(4) by (auto simp: counts_ok_def)
  then have le: "retry_count u \<le> Suc (retry_count r) \<Longrightarrow> retry_count u \<le> MAX_PROCESSING_RETRIES" for u
    by (simp add: exceeded_retries_def)
  show ?thesis
    by (rule process_cases [OF assms(1,2) process_step(3)])
      (use assms(4) process_step(1) r in \<open>auto simp: counts_ok_def dest: in_diffD le\<close>)
next
  case (send_resume_step r u b c)
  then have "retry_count u \<le> MAX_PROCESSING_RETRIES" using assms(4) by (auto simp: counts_ok_def)
  then show ?thesis
    using send_poll_Ready [OF assms(1) send_resume_step(3)] assms(4) send_resume_step(1)
    by (auto simp: counts_ok_def dest: in_diffD)
next
  case (dead_resume_step r b q)
  then show ?thesis
    using send_to_dlq_Ready [OF assms(2) dead_resume_step(3)] assms(4)
    by (auto simp: counts_ok_def dest: in_diffD)
next
  case (detached_step u b c)
  then have "retry_count u \<le> MAX_PROCESSING_RETRIES" using assms(4) by (auto simp: counts_ok_def)
  then show ?thesis
    using send_poll_Ready [OF assms(1) detached_step(3)] assms(4) detached_step(1)
    by (auto simp: counts_ok_def dest: in_diffD)
next
  case (drop_step t r in_runtime spawned unrestored q)
  then have "\<not> exceeded_retries r" using assms(4) by (cases t) (auto simp: counts_ok_def)
  then have le: "retry_count u = Suc (retry_count r) \<Longrightarrow> retry_count u \<le> MAX_PROCESSING_RETRIES" for u
    by (simp add: exceeded_retries_def)
  show ?thesis
    by (rule drop_cases [OF assms(1) drop_step(4)])
      (use assms(4) drop_step(1) in \<open>auto simp: counts_ok_def dest: in_diffD le\<close>)
next
  case (abort_step u)
  then show ?thesis using assms(4) by (auto simp: counts_ok_def dest: in_diffD)
next
  case (dequeue_step x q)
  then show ?thesis using dequeue_Some [OF assms(1) dequeue_step(2)] assms(4) by (auto simp: counts_ok_def)
next
  case (recv_step x q)
  then show ?thesis using recv_async_Ready [OF assms(1) recv_step(2)] assms(4) by (auto simp: counts_ok_def)
next
  case (drain_step x d)
  then show ?thesis using assms(4) by (auto simp: counts_ok_def)
next
  case (move_step x q)
  then show ?thesis using move_Ready [OF assms(2) move_step(2)] assms(4) by (auto simp: counts_ok_def)
qed



interpretation mq: invariant_system "mq_init M D" "mq_step M D"
    "\<lambda>s. fifo_channel CHANNEL_CAPACITY M \<and> fifo_channel CHANNEL_CAPACITY D \<longrightarrow>
       conserved M D s \<and> counts_ok M s" for M D
proof
  fix s
  assume "mq_init M D s"
  then show "fifo_channel CHANNEL_CAPACITY M \<and> fifo_channel CHANNEL_CAPACITY D \<longrightarrow>
      conserved M D s \<and> counts_ok M s"
    by (simp add: mq_init_def conserved_def stored_def counts_ok_def)
next
  fix s t
  assume "mq_step M D s t" "fifo_channel CHANNEL_CAPACITY M \<and> fifo_channel CHANNEL_CAPACITY D \<longrightarrow>
      conserved M D s \<and> counts_ok M s"
  then show "fifo_channel CHANNEL_CAPACITY M \<and> fifo_channel CHANNEL_CAPACITY D \<longrightarrow>
      conserved M D t \<and> counts_ok M t"
    using conserved_step counts_ok_step by blast
qed

text \<open>A concrete channel, for the witnesses: a list with a capacity.\<close>

definition list_channel :: "nat \<Rightarrow> ('x list, 'x) channel_api" where
  "list_channel cap =
     \<lparr>try_send = (\<lambda>x c. if length c < cap then (Sent, c @ [x]) else (SendFull, c)),
      try_recv = (\<lambda>c. case c of [] \<Rightarrow> (RecvEmpty, []) | x # xs \<Rightarrow> (Received x, xs)),
      chan_items = (\<lambda>c. c)\<rparr>"

lemma fifo_list_channel: "fifo_channel cap (list_channel cap)"
  by (auto simp: fifo_channel_def list_channel_def split: list.split)

definition empty_system :: "(nat retry_item list, nat list, nat) mq_system" where
  "empty_system = \<lparr>sys_queue = \<lparr>mq_main = [], mq_dlq = []\<rparr>, sys_tasks = {#}, accepted = {#},
     completed = {#}, taken = {#}, lost = {#}\<rparr>"

definition one_item_system :: "(nat retry_item list, nat list, nat) mq_system" where
  "one_item_system = empty_system\<lparr>sys_queue := \<lparr>mq_main = [retry_new 0 7], mq_dlq = []\<rparr>, accepted := {#7#}\<rparr>"

definition leased_system :: "(nat retry_item list, nat list, nat) mq_system" where
  "leased_system = empty_system\<lparr>sys_tasks := {#Working (retry_new 0 7)#}, accepted := {#7#}\<rparr>"

abbreviation queue_channel :: "('x list, 'x) channel_api" where
  "queue_channel \<equiv> list_channel CHANNEL_CAPACITY"

lemma mq_init_empty: "mq_init queue_channel queue_channel empty_system"
  by (simp add: mq_init_def list_channel_def empty_system_def)

lemma example_run: "(mq_step queue_channel queue_channel)\<^sup>*\<^sup>* empty_system leased_system"
proof -
  have "mq_step queue_channel queue_channel empty_system
      (empty_system\<lparr>sys_queue := \<lparr>mq_main = [retry_new 0 7], mq_dlq = []\<rparr>,
        accepted := add_mset 7 (accepted empty_system)\<rparr>)"
    by (rule enqueue_step [where now = 0])
      (simp add: enqueue_def send_poll_def list_channel_def empty_system_def CHANNEL_CAPACITY_def)
  then have one: "mq_step queue_channel queue_channel empty_system one_item_system"
    by (simp add: one_item_system_def empty_system_def)
  have "mq_step queue_channel queue_channel one_item_system
      (one_item_system\<lparr>sys_queue := \<lparr>mq_main = [], mq_dlq = []\<rparr>,
        sys_tasks := add_mset (Working (retry_new 0 7)) (sys_tasks one_item_system)\<rparr>)"
    by (rule claim_step [where block = False])
      (simp add: claim_with_def list_channel_def one_item_system_def exceeded_retries_def
        retry_new_def MAX_PROCESSING_RETRIES_def Let_def)
  then have "mq_step queue_channel queue_channel one_item_system leased_system"
    by (simp add: one_item_system_def leased_system_def empty_system_def)
  with one show ?thesis by (meson rtranclp.rtrancl_refl rtranclp.rtrancl_into_rtrancl)
qed

section \<open>Properties\<close>



text \<open>
  C28. The retry count bounds deliveries: in every reachable state a worker only ever holds
  a delivery with fewer than \<open>MAX_PROCESSING_RETRIES\<close> counted attempts behind it, and no
  delivery in the channel counts more than that.
\<close>

theorem mem_queue_retry_bound:
  assumes "fifo_channel CHANNEL_CAPACITY M" "fifo_channel CHANNEL_CAPACITY D"
    and "mq_init M D s0" "(mq_step M D)\<^sup>*\<^sup>* s0 s"
  shows "(Working r \<in># sys_tasks s \<longrightarrow> retry_count r < MAX_PROCESSING_RETRIES) \<and>
    (r \<in> set (chan_items M (mq_main (sys_queue s))) \<longrightarrow> retry_count r \<le> MAX_PROCESSING_RETRIES)"
  using mq.inv_reachable [OF assms(3,4)] assms(1,2)
  by (auto simp: counts_ok_def exceeded_retries_def)

lemma mem_queue_retry_bound_witness: "retry_count (retry_new 0 (7 :: nat)) < MAX_PROCESSING_RETRIES"
  using mem_queue_retry_bound [OF fifo_list_channel fifo_list_channel mq_init_empty example_run,
      of "retry_new 0 7"]
  by (simp add: leased_system_def)

text \<open>
  The queue refines a bounded first-in first-out queue of items: \<open>enqueue\<close> appends the
  item, or waits without change when the channel is full, and \<open>dequeue\<close> answers with the
  oldest item and removes it, or with none.
\<close>

theorem mem_queue_refines_fifo:
  assumes "fifo_channel CHANNEL_CAPACITY M"
  shows "(case enqueue M now x q of (res, q') \<Rightarrow>
      if mq_len M q < CHANNEL_CAPACITY
      then res = Ready (Inr ()) \<and>
        map rt_item (chan_items M (mq_main q')) = map rt_item (chan_items M (mq_main q)) @ [x]
      else res = Pending \<and> q' = q) \<and>
    (case dequeue M q of (res, q') \<Rightarrow>
      (case map rt_item (chan_items M (mq_main q)) of
         [] \<Rightarrow> res = Inr None \<and> q' = q
       | y # ys \<Rightarrow> res = Inr (Some y) \<and> map rt_item (chan_items M (mq_main q')) = ys))"
proof
  show "case enqueue M now x q of (res, q') \<Rightarrow>
      if mq_len M q < CHANNEL_CAPACITY
      then res = Ready (Inr ()) \<and>
        map rt_item (chan_items M (mq_main q')) = map rt_item (chan_items M (mq_main q)) @ [x]
      else res = Pending \<and> q' = q"
  proof (cases "mq_len M q < CHANNEL_CAPACITY")
    case True
    show ?thesis
      by (rule try_send_room [OF assms, of "mq_main q" "retry_new now x"])
        (use True in \<open>simp_all add: mq_len_def enqueue_def send_poll_def retry_new_def\<close>)
  next
    case False
    with try_send_full [OF assms, of "mq_main q" "retry_new now x"] show ?thesis
      by (simp add: mq_len_def enqueue_def send_poll_def)
  qed
  show "case dequeue M q of (res, q') \<Rightarrow>
      (case map rt_item (chan_items M (mq_main q)) of
         [] \<Rightarrow> res = Inr None \<and> q' = q
       | y # ys \<Rightarrow> res = Inr (Some y) \<and> map rt_item (chan_items M (mq_main q')) = ys)"
    by (rule try_recv_cases [OF assms, of "mq_main q"]) (simp_all add: dequeue_def)
qed

lemma mem_queue_refines_fifo_witness:
  "fst (dequeue queue_channel \<lparr>mq_main = [retry_new 0 (5 :: nat)], mq_dlq = ([] :: nat list)\<rparr>) =
     Inr (Some 5)"
proof -
  let ?q = "\<lparr>mq_main = [retry_new 0 (5 :: nat)], mq_dlq = ([] :: nat list)\<rparr>"
  obtain res q' where d: "dequeue queue_channel ?q = (res, q')" by fastforce
  have items: "map rt_item (chan_items queue_channel (mq_main ?q)) = [5]"
    by (simp add: list_channel_def retry_new_def)
  from mem_queue_refines_fifo [OF fifo_list_channel, where q = ?q, THEN conjunct2, unfolded items d]
  show ?thesis unfolding d by simp
qed

text \<open>A message that always fails.\<close>

lemma fail_once:
  assumes "fifo_channel CHANNEL_CAPACITY M" "fifo_channel CHANNEL_CAPACITY D"
    and "chan_items M (mq_main q) = [r]" "retry_count r < MAX_PROCESSING_RETRIES"
    and "length (chan_items D (mq_dlq q)) < CHANNEL_CAPACITY"
    and "dequeue_and_work M D WorkerFailed q = (p, spawned, q')"
  shows "if retry_count r + 1 < MAX_PROCESSING_RETRIES
    then mq_dlq q' = mq_dlq q \<and>
      (\<exists>u. chan_items M (mq_main q') = [u] \<and> rt_item u = rt_item r \<and> retry_count u = retry_count r + 1)
    else chan_items M (mq_main q') = [] \<and> chan_items D (mq_dlq q') = chan_items D (mq_dlq q) @ [rt_item r]"
proof (rule try_recv_cases [OF assms(1), of "mq_main q"])
  fix r' c
  assume r': "try_recv M (mq_main q) = (Received r', c)" "chan_items M (mq_main q) = r' # chan_items M c"
  with assms(3) have c: "r' = r" "chan_items M c = []" by simp_all
  let ?u = "from_parts (rt_item r) (retry_count r + 1) (first_attempt r) True"
  have claim: "claim_with M D False q = (ClaimDone (Inr (Some r)), q\<lparr>mq_main := c\<rparr>)"
    using r' c assms(4) by (simp add: claim_with_def exceeded_retries_def)
  show ?thesis
  proof (cases "retry_count r + 1 < MAX_PROCESSING_RETRIES")
    case True
    show ?thesis
      by (rule try_send_room [OF assms(1), of c ?u])
        (use True c claim assms(6) in \<open>auto simp: CHANNEL_CAPACITY_def dequeue_and_work_def process_def
          Let_def exceeded_retries_def from_parts_def send_poll_def\<close>)
  next
    case False
    show ?thesis
      by (rule try_send_room [OF assms(2,5), of "rt_item r"])
        (use False c claim assms(6) in \<open>auto simp: dequeue_and_work_def process_def
          Let_def exceeded_retries_def from_parts_def send_poll_def send_to_dlq_def\<close>)
  qed
qed (use assms(3) in simp)

definition fail_again :: "('c, 't retry_item) channel_api \<Rightarrow> ('d, 't) channel_api \<Rightarrow>
    ('c, 'd) mem_queue \<Rightarrow> ('c, 'd) mem_queue" where
  "fail_again M D q = snd (snd (dequeue_and_work M D (WorkerFailed :: unit worker_result) q))"

text \<open>
  C27. A message that always fails reaches the dead-letter channel: alone in the queue,
  with room in the dead-letter channel and with \<open>n\<close> attempts left, it is delivered exactly \<open>n\<close> times, after which the main channel is
  empty and the message is the last one in the dead-letter channel.
\<close>

theorem poison_message_dead_letters:
  assumes "fifo_channel CHANNEL_CAPACITY M" "fifo_channel CHANNEL_CAPACITY D"
    and "chan_items M (mq_main q) = [r]" "retry_count r + Suc n = MAX_PROCESSING_RETRIES"
    and "length (chan_items D (mq_dlq q)) < CHANNEL_CAPACITY"
  shows "chan_items M (mq_main ((fail_again M D ^^ n) q)) \<noteq> [] \<and>
    chan_items M (mq_main ((fail_again M D ^^ Suc n) q)) = [] \<and>
    chan_items D (mq_dlq ((fail_again M D ^^ Suc n) q)) = chan_items D (mq_dlq q) @ [rt_item r]"
  using assms(3-5)
proof (induction n arbitrary: q r)
  case 0
  obtain p sp q' where w: "dequeue_and_work M D (WorkerFailed :: unit worker_result) q = (p, sp, q')"
    by (metis prod_cases3)
  from fail_once [OF assms(1,2) "0.prems"(1) _ "0.prems"(3) w] "0.prems" show ?case
    by (simp add: fail_again_def w)
next
  case (Suc n)
  obtain p sp q' where w: "dequeue_and_work M D (WorkerFailed :: unit worker_result) q = (p, sp, q')"
    by (metis prod_cases3)
  from fail_once [OF assms(1,2) Suc.prems(1) _ Suc.prems(3) w] Suc.prems(2)
  obtain u where u: "mq_dlq q' = mq_dlq q" "chan_items M (mq_main q') = [u]" "rt_item u = rt_item r"
    "retry_count u = retry_count r + 1" by auto
  have q': "(fail_again M D ^^ Suc k) q = (fail_again M D ^^ k) q'" for k
    by (simp add: funpow_swap1 fail_again_def w)
  have "chan_items M (mq_main ((fail_again M D ^^ n) q')) \<noteq> [] \<and>
    chan_items M (mq_main ((fail_again M D ^^ Suc n) q')) = [] \<and>
    chan_items D (mq_dlq ((fail_again M D ^^ Suc n) q')) = chan_items D (mq_dlq q') @ [rt_item u]"
    using u Suc.prems by (intro Suc.IH) simp_all
  with u show ?case unfolding q' by simp
qed

lemma poison_message_dead_letters_witness:
  "chan_items queue_channel (mq_dlq ((fail_again queue_channel queue_channel ^^ Suc 2)
     \<lparr>mq_main = [retry_new 0 (9 :: nat)], mq_dlq = []\<rparr>)) = [9]"
  using poison_message_dead_letters [OF fifo_list_channel fifo_list_channel,
      of "\<lparr>mq_main = [retry_new 0 (9 :: nat)], mq_dlq = []\<rparr>" "retry_new 0 9" 2]
  by (simp add: list_channel_def retry_new_def MAX_PROCESSING_RETRIES_def CHANNEL_CAPACITY_def)

text \<open>
  C39. A full dead-letter channel stops the gate: nothing drains that channel while the
  program runs, so once it is full a claim that meets an exhausted delivery waits on it,
  and when the claim's future is cancelled (as a \<^verbatim>\<open>select!\<close> loop does) the delivery is gone.
\<close>

theorem full_dlq_loses_delivery:
  assumes "fifo_channel CHANNEL_CAPACITY M" "fifo_channel CHANNEL_CAPACITY D"
    and "chan_items M (mq_main (sys_queue s)) = r # rs" "exceeded_retries r"
    and "length (chan_items D (mq_dlq (sys_queue s))) = CHANNEL_CAPACITY"
  shows "\<exists>s'. (mq_step M D)\<^sup>*\<^sup>* s s' \<and> lost s' = add_mset (rt_item r) (lost s)"
proof (rule try_recv_cases [OF assms(1), of "mq_main (sys_queue s)"])
  fix r' c
  assume r': "try_recv M (mq_main (sys_queue s)) = (Received r', c)"
    "chan_items M (mq_main (sys_queue s)) = r' # chan_items M c"
  let ?q = "(sys_queue s)\<lparr>mq_main := c\<rparr>"
  have full: "try_send D x (mq_dlq (sys_queue s)) = (SendFull, mq_dlq (sys_queue s))" for x
    using try_send_full [OF assms(2)] assms(5) by simp
  have "claim_with M D True (sys_queue s) = (ClaimToDlq (rt_item r), ?q)"
    using r' assms(3,4) full by (simp add: claim_with_def send_to_dlq_def send_poll_def)
  then have "mq_step M D s (s\<lparr>sys_queue := ?q, sys_tasks := add_mset (ClaimWait (rt_item r)) (sys_tasks s)\<rparr>)"
    (is "mq_step M D s ?s") by (rule gate_wait_step)
  moreover have "mq_step M D ?s (?s\<lparr>sys_tasks := sys_tasks ?s - {#ClaimWait (rt_item r)#},
      lost := add_mset (rt_item r) (lost ?s)\<rparr>)"
    by (rule gate_cancel_step) simp
  ultimately show ?thesis
    by (intro exI [of _ "?s\<lparr>sys_tasks := sys_tasks ?s - {#ClaimWait (rt_item r)#},
      lost := add_mset (rt_item r) (lost ?s)\<rparr>"]) (simp add: rtranclp.intros)
qed (use assms(3) in simp)

definition exhausted :: "nat retry_item" where
  "exhausted = \<lparr>rt_item = 4, retry_count = 3, first_attempt = 0, redelivered = True\<rparr>"

lemma full_dlq_loses_delivery_witness:
  "\<exists>s'. (mq_step queue_channel queue_channel)\<^sup>*\<^sup>*
     (empty_system\<lparr>sys_queue := \<lparr>mq_main = [exhausted], mq_dlq = replicate CHANNEL_CAPACITY 0\<rparr>\<rparr>) s' \<and>
     lost s' = {#4#}"
  using full_dlq_loses_delivery [OF fifo_list_channel fifo_list_channel,
      of "empty_system\<lparr>sys_queue := \<lparr>mq_main = [exhausted], mq_dlq = replicate CHANNEL_CAPACITY 0\<rparr>\<rparr>"
        exhausted "[]"]
  by (simp add: exhausted_def exceeded_retries_def MAX_PROCESSING_RETRIES_def list_channel_def
      empty_system_def)

section \<open>Draining and retrying\<close>

lemma drain_loop_all:
  assumes "fifo_channel cap D"
  shows "\<exists>d'. drain_loop D out d = Some (out @ chan_items D d, d') \<and> chan_items D d' = []"
proof (induction "chan_items D d" arbitrary: d out)
  case Nil
  show ?case
    by (rule try_recv_cases [OF assms, of d]) (use Nil in \<open>subst drain_loop.simps, simp\<close>)+
next
  case (Cons x xs)
  show ?case
  proof (rule try_recv_cases [OF assms, of d])
    fix y d'
    assume y: "try_recv D d = (Received y, d')" "chan_items D d = y # chan_items D d'"
    with Cons.hyps have "xs = chan_items D d'" "y = x" by simp_all
    with Cons.hyps(1) [of d' "out @ [y]"] y show ?thesis by (subst drain_loop.simps) auto
  qed (use Cons.hyps in simp)
qed

text \<open>Draining ends and empties the dead-letter channel.\<close>

lemma try_drain_dlq_all:
  assumes "fifo_channel CHANNEL_CAPACITY D"
  shows "\<exists>q'. try_drain_dlq D q = Some (chan_items D (mq_dlq q), q') \<and> chan_items D (mq_dlq q') = []"
  using drain_loop_all [OF assms, of "[]" "mq_dlq q"] by (auto simp: try_drain_dlq_def)

text \<open>The same name and item type give the same channel, and other names keep theirs.\<close>

lemma get_or_create_channels_same:
  "get_or_create_channels key reg = (c, reg') \<Longrightarrow> get_or_create_channels key reg' = (c, reg')"
  by (auto simp: get_or_create_channels_def map_laws split: option.splits)

lemma enqueue_with_retries_tries:
  "enqueue_with_retries enq item delays s = (Inl e, s') \<Longrightarrow>
   \<exists>f. f 0 = s \<and> f (Suc (length delays)) = s' \<and>
     (\<forall>i \<le> length delays. \<exists>e'. enq item (f i) = (Inl e', f (Suc i)))"
proof (induction enq item delays s rule: enqueue_with_retries.induct)
  case (1 enq item s)
  then show ?case by (intro exI [of _ "\<lambda>i. if i = 0 then s else s'"]) simp
next
  case (2 enq item delay delays s)
  then obtain e1 s1 where e1: "enq item s = (Inl e1, s1)" "enqueue_with_retries enq item delays s1 = (Inl e, s')"
    by (auto split: prod.splits sum.splits)
  from "2.IH" [OF e1(1) [symmetric]] e1(2) obtain f where f: "f 0 = s1" "f (Suc (length delays)) = s'"
    "\<forall>i \<le> length delays. \<exists>e'. enq item (f i) = (Inl e', f (Suc i))" by blast
  let ?g = "\<lambda>i. case i of 0 \<Rightarrow> s | Suc j \<Rightarrow> f j"
  have "\<exists>e'. enq item (?g i) = (Inl e', ?g (Suc i))" if "i \<le> Suc (length delays)" for i
    using e1(1) f that by (cases i) auto
  then show ?case using f(2) by (intro exI [of _ ?g]) simp
qed

end
