(* ===== verification/Hot_DepGraph.thy ===== *)
theory Hot_DepGraph
  imports Hot_Prelude
begin

text \<open>
  The dependency analysis of parallel flows, \<^verbatim>\<open>crates/hot/src/lang/compiler/dependency_graph.rs\<close>:
  which variables an expression reads, the graph of a flow's bindings, its order by Kahn's
  algorithm, and the levels whose bindings run in parallel.

  The syntax tree keeps what the analysis looks at: \<open>ast_value\<close> has a constructor per variant of
  \<^verbatim>\<open>ast::Value\<close> (source locations, types and labels left out), and \<open>ast_lit\<close> is the literal
  \<^verbatim>\<open>Val\<close> of \<^verbatim>\<open>Value::Val\<close>, in which the parser boxes every element of a vector or map literal
  that is not a literal itself. An \<^verbatim>\<open>IndexSet\<close> is a distinct list.

  The lemmas show what the loops of Kahn's algorithm keep: the degree of a binding is the number
  of its dependencies not placed yet, so no arithmetic or indexing fails on the way. The theory
  \<open>Hot_Levels\<close> draws the conclusions for the order and for the levels.
\<close>

section \<open>Definitions\<close>

datatype ast_value =
    AVal ast_lit
  | ARefVar string
  | ARefNs
  | AFnCall ast_value "ast_value list"
  | AFlow "ast_value list"
  | AFn "ast_value list"
  | ATypeDef
  | ATypeImplementation
  | AUnbound
  | ACond ast_value "ast_value list"
  | ACondDefault "ast_value list"
  | AMatch ast_value "ast_value list"
  | ATemplateLiteral "ast_value option list"
  | ARaw ast_value
  | ADo ast_value
  | AVariadicExpansion string
  | AMultipleValues "ast_value list"
  | ALambda ast_value
  | AMatchArm ast_value
  | AMapWithSpread "(ast_lit \<times> ast_lit) list" "(nat \<times> ast_value) list"
  | APlaceholder nat
and ast_lit =
    LScalar
  | LVec "ast_lit list"
  | LMap "(ast_lit \<times> ast_lit) list"
  | LBoxCall ast_value "ast_value list"
  | LBoxNode ast_value

definition set_insert :: "string \<Rightarrow> string list \<Rightarrow> string list" where
  "set_insert x xs = (if x \<in> set xs then xs else xs @ [x])"

fun extract_dependencies_recursive :: "ast_value \<Rightarrow> string list \<Rightarrow> string list"
  and extract_all :: "ast_value list \<Rightarrow> string list \<Rightarrow> string list"
  and extract_parts :: "ast_value option list \<Rightarrow> string list \<Rightarrow> string list"
  and extract_spreads :: "(nat \<times> ast_value) list \<Rightarrow> string list \<Rightarrow> string list" where
  "extract_dependencies_recursive (AVal (LBoxCall f args)) deps =
     extract_all args (extract_dependencies_recursive f deps)"
| "extract_dependencies_recursive (AVal _) deps = deps"
| "extract_dependencies_recursive (ARefVar x) deps = set_insert x deps"
| "extract_dependencies_recursive ARefNs deps = deps"
| "extract_dependencies_recursive (AFnCall f args) deps =
     extract_all args (extract_dependencies_recursive f deps)"
| "extract_dependencies_recursive (AFlow exprs) deps = extract_all exprs deps"
| "extract_dependencies_recursive (AFn bodies) deps = extract_all bodies deps"
| "extract_dependencies_recursive ATypeDef deps = deps"
| "extract_dependencies_recursive ATypeImplementation deps = deps"
| "extract_dependencies_recursive AUnbound deps = deps"
| "extract_dependencies_recursive (ACond condition exprs) deps =
     extract_all exprs (extract_dependencies_recursive condition deps)"
| "extract_dependencies_recursive (ACondDefault exprs) deps = extract_all exprs deps"
| "extract_dependencies_recursive (AMatch v arms) deps =
     extract_all arms (extract_dependencies_recursive v deps)"
| "extract_dependencies_recursive (ATemplateLiteral parts) deps = extract_parts parts deps"
| "extract_dependencies_recursive (ARaw inner) deps = extract_dependencies_recursive inner deps"
| "extract_dependencies_recursive (ADo inner) deps = extract_dependencies_recursive inner deps"
| "extract_dependencies_recursive (AVariadicExpansion x) deps = set_insert x deps"
| "extract_dependencies_recursive (AMultipleValues vs) deps = extract_all vs deps"
| "extract_dependencies_recursive (ALambda body) deps = extract_dependencies_recursive body deps"
| "extract_dependencies_recursive (AMatchArm body) deps = extract_dependencies_recursive body deps"
| "extract_dependencies_recursive (AMapWithSpread base spreads) deps = extract_spreads spreads deps"
| "extract_dependencies_recursive (APlaceholder n) deps = deps"
| "extract_all [] deps = deps"
| "extract_all (v # vs) deps = extract_all vs (extract_dependencies_recursive v deps)"
| "extract_parts [] deps = deps"
| "extract_parts (p # ps) deps =
     extract_parts ps (case p of Some e \<Rightarrow> extract_dependencies_recursive e deps | None \<Rightarrow> deps)"
| "extract_spreads [] deps = deps"
| "extract_spreads ((i, v) # ss) deps = extract_spreads ss (extract_dependencies_recursive v deps)"

definition extract_dependencies :: "ast_value \<Rightarrow> string list" where
  "extract_dependencies v = extract_dependencies_recursive v []"

type_synonym graph = "(string \<times> string list) list"

fun build_loop :: "ast_value list \<Rightarrow> graph \<Rightarrow> graph" where
  "build_loop (ARefVar name # value_expr # rest) g =
     build_loop rest (im_insert name (extract_dependencies value_expr) g)"
| "build_loop (_ # rest) g = build_loop rest g"
| "build_loop [] g = g"

definition build_dependency_graph :: "ast_value list \<Rightarrow> graph" where
  "build_dependency_graph exprs = build_loop exprs []"

text \<open>
  Kahn's algorithm. \<open>add_edge\<close> is the body of the loop that fills \<open>adj_list\<close> and \<open>in_degree\<close>;
  its node is a key of the graph and so of \<open>in_degree\<close>. In \<open>relax\<close> an index that is not in
  \<open>in_degree\<close>, or a decrement below zero, would panic: \<open>None\<close>.
\<close>

definition add_edge :: "string \<Rightarrow> string \<Rightarrow> (string \<times> nat) list \<times> (string \<times> string list) list \<Rightarrow>
    (string \<times> nat) list \<times> (string \<times> string list) list" where
  "add_edge node dep st =
     (let (in_degree, adj_list) = st
      in (im_insert node (case im_get in_degree node of Some n \<Rightarrow> n + 1 | None \<Rightarrow> 1) in_degree,
          im_insert dep ((case im_get adj_list dep of Some ns \<Rightarrow> ns | None \<Rightarrow> []) @ [node]) adj_list))"

definition edges_of :: "graph \<Rightarrow> string \<times> string list \<Rightarrow>
    (string \<times> nat) list \<times> (string \<times> string list) list \<Rightarrow>
    (string \<times> nat) list \<times> (string \<times> string list) list" where
  "edges_of g entry st =
     fold (add_edge (fst entry)) (filter (\<lambda>dep. im_contains g dep) (snd entry)) st"

fun relax :: "string list \<Rightarrow> (string \<times> nat) list \<Rightarrow> string list \<Rightarrow>
    ((string \<times> nat) list \<times> string list) option" where
  "relax [] in_degree queue = Some (in_degree, queue)"
| "relax (neighbor # rest) in_degree queue =
     (case im_get in_degree neighbor of
        None \<Rightarrow> None
      | Some 0 \<Rightarrow> None
      | Some (Suc degree) \<Rightarrow>
          relax rest (im_insert neighbor degree in_degree)
            (if degree = 0 then queue @ [neighbor] else queue))"

lemma sum_im_insert:
  "im_get m k = Some v \<Longrightarrow> sum_list (map snd (im_insert k w m)) + v = sum_list (map snd m) + (w :: nat)"
  by (induction k w m rule: im_insert.induct) (auto split: if_splits)

lemma relax_measure:
  "relax ns d q = Some (d', q') \<Longrightarrow>
   length q' + sum_list (map snd d') \<le> length q + sum_list (map snd d)"
proof (induction ns d q rule: relax.induct)
  case (1 d q)
  then show ?case by simp
next
  case (2 n ns d q)
  then obtain k where k: "im_get d n = Some (Suc k)"
    "relax ns (im_insert n k d) (if k = 0 then q @ [n] else q) = Some (d', q')"
    by (auto split: option.splits nat.splits)
  with "2.IH" [of "Suc k" k] sum_im_insert [OF k(1), of k] show ?case by (simp split: if_splits)
qed

function kahn_loop :: "(string \<times> string list) list \<Rightarrow> (string \<times> nat) list \<Rightarrow> string list \<Rightarrow>
    string list \<Rightarrow> ((string \<times> nat) list \<times> string list) option" where
  "kahn_loop adj_list in_degree [] result = Some (in_degree, result)"
| "kahn_loop adj_list in_degree (node # queue) result =
     (case relax (case im_get adj_list node of Some ns \<Rightarrow> ns | None \<Rightarrow> []) in_degree queue of
        None \<Rightarrow> None
      | Some (in_degree', queue') \<Rightarrow> kahn_loop adj_list in_degree' queue' (result @ [node]))"
  by pat_completeness auto
termination
  by (relation "measure (\<lambda>(_, d, q, _). length q + sum_list (map snd d))")
    (auto dest!: sym [of "Some _"] relax_measure)

definition topological_sort :: "graph \<Rightarrow> (string list + string list) option" where
  "topological_sort g =
     (let (in_degree, adj_list) = fold (edges_of g) g (map (\<lambda>(node, _). (node, 0)) g, []);
          queue = map fst (filter (\<lambda>(_, degree). degree = 0) in_degree)
      in case kahn_loop adj_list in_degree queue [] of
           None \<Rightarrow> None
         | Some (in_degree', result) \<Rightarrow>
             (if length result \<noteq> length in_degree'
              then Some (Inl (map fst (filter (\<lambda>(_, degree). degree > 0) in_degree')))
              else Some (Inr result)))"

text \<open>Levels.\<close>

definition binding_level :: "graph \<Rightarrow> (string \<times> nat) list \<Rightarrow> string \<Rightarrow> nat" where
  "binding_level g level_of v =
     (let levels = concat (map (\<lambda>dep. case im_get level_of dep of Some l \<Rightarrow> [l + 1] | None \<Rightarrow> [])
        (case im_get g v of Some deps \<Rightarrow> deps | None \<Rightarrow> []))
      in foldl max 0 levels)"

definition levels_of :: "graph \<Rightarrow> string list \<Rightarrow> (string \<times> nat) list" where
  "levels_of g order = fold (\<lambda>v level_of. im_insert v (binding_level g level_of v) level_of) order []"

definition push_level :: "(string \<times> nat) list \<Rightarrow> string \<Rightarrow> string list list \<Rightarrow> string list list" where
  "push_level level_of v levels =
     (case im_get level_of v of
        Some l \<Rightarrow> levels[l := levels ! l @ [v]]
      | None \<Rightarrow> levels)"

definition group_by_dependency_levels :: "graph \<Rightarrow> string list \<Rightarrow> string list list" where
  "group_by_dependency_levels g execution_order =
     (let level_of = levels_of g execution_order;
          level_count = (if level_of = [] then 0 else foldl max 0 (map snd level_of) + 1)
      in fold (push_level level_of) (map fst g) (replicate level_count []))"

section \<open>What an expression reads\<close>

lemma set_set_insert [simp]: "set (set_insert x xs) = insert x (set xs)"
  by (auto simp: set_insert_def)

lemma distinct_set_insert [simp]: "distinct (set_insert x xs) = distinct xs"
  by (auto simp: set_insert_def)

text \<open>The names an expression mentions outside vector and map literals.\<close>

fun names_outside_literals :: "ast_value \<Rightarrow> string set" where
  "names_outside_literals (AVal l) =
     (case l of LBoxCall f args \<Rightarrow> names_outside_literals f \<union> (\<Union>a \<in> set args. names_outside_literals a)
      | _ \<Rightarrow> {})"
| "names_outside_literals (ARefVar x) = {x}"
| "names_outside_literals (AFnCall f args) =
     names_outside_literals f \<union> (\<Union>a \<in> set args. names_outside_literals a)"
| "names_outside_literals (AFlow es) = (\<Union>a \<in> set es. names_outside_literals a)"
| "names_outside_literals (AFn es) = (\<Union>a \<in> set es. names_outside_literals a)"
| "names_outside_literals (ACond c es) =
     names_outside_literals c \<union> (\<Union>a \<in> set es. names_outside_literals a)"
| "names_outside_literals (ACondDefault es) = (\<Union>a \<in> set es. names_outside_literals a)"
| "names_outside_literals (AMatch c es) =
     names_outside_literals c \<union> (\<Union>a \<in> set es. names_outside_literals a)"
| "names_outside_literals (ATemplateLiteral ps) =
     (\<Union>p \<in> set ps. case p of Some e \<Rightarrow> names_outside_literals e | None \<Rightarrow> {})"
| "names_outside_literals (ARaw e) = names_outside_literals e"
| "names_outside_literals (ADo e) = names_outside_literals e"
| "names_outside_literals (AVariadicExpansion x) = {x}"
| "names_outside_literals (AMultipleValues es) = (\<Union>a \<in> set es. names_outside_literals a)"
| "names_outside_literals (ALambda e) = names_outside_literals e"
| "names_outside_literals (AMatchArm e) = names_outside_literals e"
| "names_outside_literals (AMapWithSpread base ss) = (\<Union>s \<in> set ss. names_outside_literals (snd s))"
| "names_outside_literals _ = {}"

lemma extract_set:
  "set (extract_dependencies_recursive v deps) = set deps \<union> names_outside_literals v"
  "set (extract_all vs deps) = set deps \<union> (\<Union>a \<in> set vs. names_outside_literals a)"
  "set (extract_parts ps deps) =
     set deps \<union> (\<Union>p \<in> set ps. case p of Some e \<Rightarrow> names_outside_literals e | None \<Rightarrow> {})"
  "set (extract_spreads ss deps) = set deps \<union> (\<Union>s \<in> set ss. names_outside_literals (snd s))"
  by (induction v deps and vs deps and ps deps and ss deps
      rule: extract_dependencies_recursive_extract_all_extract_parts_extract_spreads.induct)
    (auto split: option.splits)

lemma extract_distinct:
  "distinct deps \<Longrightarrow> distinct (extract_dependencies_recursive v deps)"
  "distinct deps \<Longrightarrow> distinct (extract_all vs deps)"
  "distinct deps \<Longrightarrow> distinct (extract_parts ps deps)"
  "distinct deps \<Longrightarrow> distinct (extract_spreads ss deps)"
  by (induction v deps and vs deps and ps deps and ss deps
      rule: extract_dependencies_recursive_extract_all_extract_parts_extract_spreads.induct)
    (auto split: option.splits)

definition graph_wf :: "graph \<Rightarrow> bool" where
  "graph_wf g \<longleftrightarrow> im_wf g \<and> (\<forall>(v, ds) \<in> set g. distinct ds)"

lemma set_im_insert: "set (im_insert k v m) \<subseteq> insert (k, v) (set m)"
  by (induction k v m rule: im_insert.induct) auto

lemma graph_wf_insert: "graph_wf g \<Longrightarrow> distinct ds \<Longrightarrow> graph_wf (im_insert v ds g)"
  using set_im_insert [of v ds g] by (auto simp: graph_wf_def im_wf_insert)

lemma graph_wf_build_loop: "graph_wf g \<Longrightarrow> graph_wf (build_loop es g)"
  by (induction es g rule: build_loop.induct)
    (auto simp: graph_wf_insert extract_dependencies_def extract_distinct)

lemma graph_wf_build: "graph_wf (build_dependency_graph es)"
  unfolding build_dependency_graph_def by (rule graph_wf_build_loop) (simp add: graph_wf_def im_wf_def)

section \<open>Kahn's algorithm\<close>

definition get_list :: "(string \<times> 'a list) list \<Rightarrow> string \<Rightarrow> 'a list" where
  "get_list m k = (case im_get m k of Some x \<Rightarrow> x | None \<Rightarrow> [])"

text \<open>The dependencies of a binding that are bindings of the flow, and the bindings that wait for it.\<close>

definition in_edges :: "graph \<Rightarrow> string \<Rightarrow> string list" where
  "in_edges g v = filter (\<lambda>dep. im_contains g dep) (get_list g v)"

definition preds :: "graph \<Rightarrow> string \<Rightarrow> string set" where
  "preds g v = set (in_edges g v)"

definition succs :: "graph \<Rightarrow> string \<Rightarrow> string list" where
  "succs g u = map fst (filter (\<lambda>(v, ds). u \<in> set ds) g)"

lemma preds_keys: "preds g v \<subseteq> fst ` set g"
  by (auto simp: preds_def in_edges_def)

lemma finite_preds [simp]: "finite (preds g v)"
  by (simp add: preds_def)

lemma card_preds: "graph_wf g \<Longrightarrow> card (preds g v) = length (in_edges g v)"
proof -
  assume "graph_wf g"
  then have "distinct (get_list g v)"
    by (auto simp: get_list_def graph_wf_def split: option.split dest: im_get_SomeD)
  then have "distinct (in_edges g v)" by (simp add: in_edges_def)
  then show ?thesis by (simp add: preds_def distinct_card)
qed

lemma succs_iff: "graph_wf g \<Longrightarrow> u \<in> fst ` set g \<Longrightarrow> v \<in> set (succs g u) \<longleftrightarrow> u \<in> preds g v"
  by (auto simp: succs_def preds_def in_edges_def get_list_def graph_wf_def im_get_wf_iff
      split: option.split dest: im_get_SomeD)
    (force simp: im_wf_def)+

lemma succs_keys: "set (succs g u) \<subseteq> fst ` set g"
  by (auto simp: succs_def)

lemma distinct_succs: "graph_wf g \<Longrightarrow> distinct (succs g u)"
  unfolding succs_def graph_wf_def im_wf_def by (auto intro: distinct_map_filter)

text \<open>The loop that fills the degrees and the adjacency lists.\<close>

lemma get_list_insert: "get_list (im_insert k v m) u = (if u = k then v else get_list m u)"
  by (simp add: get_list_def map_laws)

lemma add_edge_simps:
  assumes "v \<in> fst ` set d"
  shows "map fst (fst (add_edge v x (d, a))) = map fst d"
    "im_get (fst (add_edge v x (d, a))) w = (if w = v then Some (the (im_get d v) + 1) else im_get d w)"
    "get_list (snd (add_edge v x (d, a))) u = get_list a u @ (if u = x then [v] else [])"
proof -
  from assms obtain n where n: "im_get d v = Some n" by (cases "im_get d v") (auto simp: map_of_eq_None_iff)
  show "map fst (fst (add_edge v x (d, a))) = map fst d"
    using assms by (simp add: add_edge_def map_fst_im_insert)
  show "im_get (fst (add_edge v x (d, a))) w = (if w = v then Some (the (im_get d v) + 1) else im_get d w)"
    using n by (simp add: add_edge_def map_laws)
  show "get_list (snd (add_edge v x (d, a))) u = get_list a u @ (if u = x then [v] else [])"
    by (simp add: add_edge_def get_list_insert) (simp add: get_list_def)
qed

lemma fold_add_edge:
  assumes "distinct ds" "v \<in> fst ` set d"
  shows "map fst (fst (fold (add_edge v) ds (d, a))) = map fst d \<and>
    im_get (fst (fold (add_edge v) ds (d, a))) w =
      (if w = v then Some (the (im_get d v) + length ds) else im_get d w) \<and>
    get_list (snd (fold (add_edge v) ds (d, a))) u = get_list a u @ (if u \<in> set ds then [v] else [])"
  using assms
proof (induction ds arbitrary: d a)
  case Nil
  then show ?case by (auto simp: map_of_eq_None_iff split: option.split)
next
  case (Cons x ds)
  obtain d1 a1 where st: "add_edge v x (d, a) = (d1, a1)" by fastforce
  note e = add_edge_simps [OF Cons.prems(2), of x a, unfolded st fst_conv snd_conv]
  have "v \<in> fst ` set d1" using Cons.prems(2) e(1) by (metis set_map)
  from Cons.IH [OF _ this, of a1] Cons.prems(1) e show ?case by (simp add: st)
qed

lemma fold_edges:
  assumes "distinct (map fst es)" "set es \<subseteq> set g" "graph_wf g" "fst ` set es \<subseteq> fst ` set d"
  shows "map fst (fst (fold (edges_of g) es (d, a))) = map fst d \<and>
    im_get (fst (fold (edges_of g) es (d, a))) w =
      (if w \<in> fst ` set es then Some (the (im_get d w) + length (in_edges g w)) else im_get d w) \<and>
    get_list (snd (fold (edges_of g) es (d, a))) u =
      get_list a u @ map fst (filter (\<lambda>(v, ds). u \<in> set (filter (\<lambda>x. x \<in> fst ` set g) ds)) es)"
  using assms(1,2,4)
proof (induction es arbitrary: d a)
  case Nil
  then show ?case by simp
next
  case (Cons e es)
  obtain v ds where e: "e = (v, ds)" by fastforce
  have "im_get g v = Some ds" using Cons.prems(2) assms(3) e by (auto simp: graph_wf_def im_get_wf_iff)
  then have ie: "in_edges g v = filter (\<lambda>x. x \<in> fst ` set g) ds" by (simp add: in_edges_def get_list_def)
  have dist: "distinct (filter (\<lambda>x. x \<in> fst ` set g) ds)"
    using Cons.prems(2) assms(3) e by (auto simp: graph_wf_def)
  have v: "v \<in> fst ` set d" using Cons.prems(3) e by simp
  obtain d1 a1 where st: "edges_of g e (d, a) = (d1, a1)" by fastforce
  note f = fold_add_edge [OF dist v, of a, folded ie]
  have d1: "map fst d1 = map fst d"
    "im_get d1 w = (if w = v then Some (the (im_get d v) + length (in_edges g v)) else im_get d w)"
    "get_list a1 u = get_list a u @ (if u \<in> set (in_edges g v) then [v] else [])" for w u
    using f [of w u] st by (simp_all add: edges_of_def e ie [symmetric])
  have "fst ` set es \<subseteq> fst ` set d1" using Cons.prems(3) d1(1) by (metis e image_mono list.set_intros(2) set_map set_subset_Cons subset_trans)
  moreover have "v \<notin> fst ` set es" using Cons.prems(1) e by auto
  ultimately show ?case
    using Cons.IH [of d1 a1] Cons.prems(1,2) d1 st by (simp add: e ie)
qed

lemma edges_filled:
  assumes "graph_wf g"
    and "fold (edges_of g) g (map (\<lambda>(node, _). (node, 0)) g, []) = (d, a)"
  shows "map fst d = map fst g"
    "v \<in> fst ` set g \<Longrightarrow> im_get d v = Some (card (preds g v))"
    "u \<in> fst ` set g \<Longrightarrow> get_list a u = succs g u"
proof -
  let ?d0 = "map (\<lambda>(node, _). (node, 0 :: nat)) g"
  have d0: "map fst ?d0 = map fst g" by (induction g) auto
  have get0: "im_get ?d0 w = (if w \<in> fst ` set g then Some 0 else None)" for w
    by (induction g) auto
  have keys: "fst ` set g \<subseteq> fst ` set ?d0" using d0 by (metis set_map subset_refl)
  have wf: "distinct (map fst g)" using assms(1) by (simp add: graph_wf_def im_wf_def)
  note f = fold_edges [OF wf subset_refl assms(1) keys, of "[]", unfolded assms(2) fst_conv snd_conv]
  show "map fst d = map fst g" using f d0 by simp
  show "im_get d v = Some (card (preds g v))" if "v \<in> fst ` set g"
    using f [of v] that get0 by (simp add: card_preds [OF assms(1)])
  show "get_list a u = succs g u" if "u \<in> fst ` set g"
    using f [of _ u] that by (auto simp: succs_def get_list_def intro!: arg_cong [where f = "map fst"] filter_cong)
qed

text \<open>One round: the popped binding leaves the degrees of those that wait for it.\<close>

lemma relax_spec:
  assumes "distinct ns" "\<forall>n \<in> set ns. \<exists>k. im_get d n = Some (Suc k)"
  shows "\<exists>d'. relax ns d q = Some (d', q @ filter (\<lambda>n. im_get d n = Some 1) ns) \<and>
    map fst d' = map fst d \<and>
    (\<forall>v. im_get d' v = (if v \<in> set ns then map_option (\<lambda>x. x - 1) (im_get d v) else im_get d v))"
  using assms
proof (induction ns arbitrary: d q)
  case Nil
  then show ?case by simp
next
  case (Cons n ns)
  then obtain k where k: "im_get d n = Some (Suc k)" by auto
  then have nd: "n \<in> fst ` set d" by (metis im_contains_def im_contains_iff option.distinct(1))
  let ?d = "im_insert n k d" and ?q = "if k = 0 then q @ [n] else q"
  have same: "im_get ?d m = im_get d m" if "m \<in> set ns" for m
    using that Cons.prems(1) by (auto simp: map_laws)
  have "\<exists>d'. relax ns ?d ?q = Some (d', ?q @ filter (\<lambda>n. im_get ?d n = Some 1) ns) \<and>
      map fst d' = map fst ?d \<and>
      (\<forall>v. im_get d' v = (if v \<in> set ns then map_option (\<lambda>x. x - 1) (im_get ?d v) else im_get ?d v))"
    using Cons.prems same by (intro Cons.IH) auto
  then obtain d' where d': "relax ns ?d ?q = Some (d', ?q @ filter (\<lambda>n. im_get ?d n = Some 1) ns)"
    "map fst d' = map fst ?d"
    "\<forall>v. im_get d' v = (if v \<in> set ns then map_option (\<lambda>x. x - 1) (im_get ?d v) else im_get ?d v)"
    by blast
  have "filter (\<lambda>n. im_get ?d n = Some 1) ns = filter (\<lambda>n. im_get d n = Some 1) ns"
    using same by (intro filter_cong) auto
  then have "relax (n # ns) d q = Some (d', q @ filter (\<lambda>n. im_get d n = Some 1) (n # ns))"
    using k d'(1) by simp
  moreover have "map fst d' = map fst d" using d'(2) nd by (simp add: map_fst_im_insert)
  moreover have "\<forall>v. im_get d' v = (if v \<in> set (n # ns) then map_option (\<lambda>x. x - 1) (im_get d v) else im_get d v)"
    using d'(3) k Cons.prems(1) by (auto simp: map_laws)
  ultimately show ?case by blast
qed

definition kahn_inv :: "graph \<Rightarrow> (string \<times> nat) list \<Rightarrow> string list \<Rightarrow> string list \<Rightarrow> bool" where
  "kahn_inv g d q r \<longleftrightarrow>
     map fst d = map fst g \<and> distinct (r @ q) \<and> set (r @ q) \<subseteq> fst ` set g \<and>
     (\<forall>v \<in> fst ` set g. im_get d v = Some (card (preds g v - set r)) \<and>
        (v \<in> set (r @ q) \<longleftrightarrow> preds g v \<subseteq> set r)) \<and>
     (\<forall>i < length r. preds g (r ! i) \<subseteq> set (take i r))"

lemma kahn_round:
  assumes "graph_wf g" "kahn_inv g d (node # q) r"
  shows "\<exists>d' q'. relax (succs g node) d q = Some (d', q') \<and> kahn_inv g d' q' (r @ [node])"
proof -
  let ?ns = "succs g node"
  have node: "node \<in> fst ` set g" "node \<notin> set r" "node \<notin> set q" "preds g node \<subseteq> set r"
    using assms(2) by (auto simp: kahn_inv_def)
  have keys: "set ?ns \<subseteq> fst ` set g" by (rule succs_keys)
  have deg: "v \<in> fst ` set g \<Longrightarrow> im_get d v = Some (card (preds g v - set r))" for v
    using assms(2) unfolding kahn_inv_def by blast
  have mem: "v \<in> fst ` set g \<Longrightarrow> v \<in> set (r @ node # q) \<longleftrightarrow> preds g v \<subseteq> set r" for v
    using assms(2) unfolding kahn_inv_def by blast
  have succ: "v \<in> set ?ns \<longleftrightarrow> node \<in> preds g v" for v by (rule succs_iff [OF assms(1) node(1)])
  have split: "preds g v - set r = insert node (preds g v - set (r @ [node]))" if "v \<in> set ?ns" for v
    using that succ node(2) by auto
  have pos: "card (preds g v - set r) = Suc (card (preds g v - set (r @ [node])))" if "v \<in> set ?ns" for v
    unfolding split [OF that] by (subst card_insert_disjoint) auto
  have "\<forall>n \<in> set ?ns. \<exists>k. im_get d n = Some (Suc k)" using deg pos keys by (metis subsetD)
  from relax_spec [OF distinct_succs [OF assms(1)] this, of q] obtain d' where
    d': "relax ?ns d q = Some (d', q @ filter (\<lambda>n. im_get d n = Some 1) ?ns)" "map fst d' = map fst d"
    "\<And>v. im_get d' v = (if v \<in> set ?ns then map_option (\<lambda>x. x - 1) (im_get d v) else im_get d v)"
    by blast
  let ?new = "filter (\<lambda>n. im_get d n = Some 1) ?ns"
  have new: "v \<in> set ?new \<longleftrightarrow> node \<in> preds g v \<and> preds g v \<subseteq> set (r @ [node])"
    if "v \<in> fst ` set g" for v
    using deg [OF that] pos [of v] succ [of v]
    by (auto simp: card_eq_0_iff)
  have fresh: "v \<notin> set (r @ node # q)" if "v \<in> set ?new" for v
    using that new [of v] mem [of v] keys node(2) by auto
  have "distinct ((r @ [node]) @ (q @ ?new))"
    using assms(2) fresh distinct_succs [OF assms(1)] by (auto simp: kahn_inv_def)
  moreover have "im_get d' v = Some (card (preds g v - set (r @ [node])))" if "v \<in> fst ` set g" for v
  proof (cases "v \<in> set ?ns")
    case True
    then show ?thesis using d'(3) deg [OF that] pos [OF True] by (simp del: set_append)
  next
    case False
    then have "preds g v - set (r @ [node]) = preds g v - set r" using succ by auto
    then show ?thesis using d'(3) deg [OF that] False by (simp del: set_append)
  qed
  moreover have "v \<in> set ((r @ [node]) @ (q @ ?new)) \<longleftrightarrow> preds g v \<subseteq> set (r @ [node])"
    if "v \<in> fst ` set g" for v
    using mem [OF that] new [OF that] by auto
  moreover have "\<forall>i < length (r @ [node]). preds g ((r @ [node]) ! i) \<subseteq> set (take i (r @ [node]))"
    using assms(2) node(4) by (auto simp: kahn_inv_def nth_append less_Suc_eq)
  moreover have "set ((r @ [node]) @ (q @ ?new)) \<subseteq> fst ` set g"
    using assms(2) keys by (auto simp: kahn_inv_def)
  moreover have "map fst d' = map fst g" using d'(2) assms(2) by (simp add: kahn_inv_def)
  ultimately have "kahn_inv g d' (q @ ?new) (r @ [node])" unfolding kahn_inv_def by blast
  with d'(1) show ?thesis by blast
qed

lemma kahn_loop_inv:
  assumes "graph_wf g" "\<And>u. u \<in> fst ` set g \<Longrightarrow> get_list adj u = succs g u" "kahn_inv g d q r"
  shows "\<exists>d' r'. kahn_loop adj d q r = Some (d', r') \<and> kahn_inv g d' [] r'"
  using assms(2,3)
proof (induction adj d q r rule: kahn_loop.induct)
  case (1 adj d r)
  then show ?case by simp
next
  case (2 adj d node q r)
  from kahn_round [OF assms(1) "2.prems"(2)] obtain d' q' where
    r: "relax (succs g node) d q = Some (d', q')" "kahn_inv g d' q' (r @ [node])" by blast
  have "node \<in> fst ` set g" using "2.prems"(2) by (simp add: kahn_inv_def)
  then have adj: "(case im_get adj node of Some ns \<Rightarrow> ns | None \<Rightarrow> []) = succs g node"
    using "2.prems"(1) [of node] by (simp add: get_list_def)
  with r "2.IH" [of "(d', q')" d' q'] "2.prems"(1) show ?case by simp
qed

end
