(* ===== verification/Hot_Levels.thy ===== *)
theory Hot_Levels
  imports Hot_DepGraph
begin

text \<open>
  What \<open>topological_sort\<close> and \<open>group_by_dependency_levels\<close> of
  \<^verbatim>\<open>crates/hot/src/lang/compiler/dependency_graph.rs\<close> promise to the compiler of parallel flows:
  an order is found exactly when the bindings do not wait for each other in a circle, it places
  every binding after those it reads, and the levels are the earliest ones that respect this.
\<close>

section \<open>What an order and a list of levels have to satisfy\<close>

definition dep_rel :: "graph \<Rightarrow> (string \<times> string) set" where
  "dep_rel g = {(u, v). v \<in> fst ` set g \<and> u \<in> preds g v}"

definition topological_order :: "graph \<Rightarrow> string list \<Rightarrow> bool" where
  "topological_order g r \<longleftrightarrow>
     distinct r \<and> set r = fst ` set g \<and> (\<forall>i < length r. preds g (r ! i) \<subseteq> set (take i r))"

text \<open>Every one of the names waits for another of them.\<close>

definition waits_in_circle :: "graph \<Rightarrow> string list \<Rightarrow> bool" where
  "waits_in_circle g ns \<longleftrightarrow> ns \<noteq> [] \<and> (\<forall>v \<in> set ns. \<exists>u \<in> set ns. (u, v) \<in> dep_rel g)"

definition parallel_levels :: "graph \<Rightarrow> string list list \<Rightarrow> bool" where
  "parallel_levels g levels \<longleftrightarrow>
     distinct (concat levels) \<and> set (concat levels) = fst ` set g \<and>
     (\<forall>i < length levels. \<forall>v \<in> set (levels ! i).
        preds g v \<subseteq> set (concat (take i levels)) \<and>
        (i = 0 \<or> (\<exists>u \<in> set (levels ! (i - 1)). u \<in> preds g v))) \<and>
     (\<forall>i < length levels. levels ! i = filter (\<lambda>v. v \<in> set (levels ! i)) (map fst g))"

section \<open>The order\<close>

lemma finite_dep_rel: "finite (dep_rel g)"
  by (rule finite_subset [of _ "fst ` set g \<times> fst ` set g"]) (use preds_keys in \<open>auto simp: dep_rel_def\<close>)

lemma circle_not_acyclic:
  assumes "waits_in_circle g ns"
  shows "\<not> acyclic (dep_rel g)"
proof
  assume "acyclic (dep_rel g)"
  then have "wf (dep_rel g)" by (rule finite_acyclic_wf [OF finite_dep_rel])
  moreover have "set ns \<noteq> {}" using assms by (simp add: waits_in_circle_def)
  ultimately obtain v where "v \<in> set ns" "\<And>u. (u, v) \<in> dep_rel g \<Longrightarrow> u \<notin> set ns"
    by (metis wfE_min ex_in_conv)
  with assms show False by (auto simp: waits_in_circle_def)
qed

lemma order_acyclic:
  assumes "topological_order g r"
  shows "acyclic (dep_rel g)"
proof -
  let ?pos = "\<lambda>v. LEAST i. i < length r \<and> r ! i = v"
  have "?pos u < ?pos v" if "(u, v) \<in> dep_rel g" for u v
  proof -
    have "v \<in> set r" using that assms by (auto simp: dep_rel_def topological_order_def)
    then obtain i where i: "i < length r \<and> r ! i = v" by (auto simp: in_set_conv_nth)
    then have p: "?pos v < length r \<and> r ! ?pos v = v" by (rule LeastI)
    moreover have "u \<in> preds g v" using that by (simp add: dep_rel_def)
    ultimately have "u \<in> set (take (?pos v) r)"
      using assms unfolding topological_order_def by (metis subsetD)
    then obtain j where j: "j < ?pos v" "r ! j = u" by (auto simp: in_set_conv_nth)
    with p have "?pos u \<le> j" by (intro Least_le) auto
    with j show ?thesis by simp
  qed
  then have "dep_rel g \<subseteq> measure ?pos" by (auto simp: in_measure)
  then show ?thesis by (meson wf_measure wf_subset wf_acyclic)
qed

lemma kahn_inv_start:
  assumes "graph_wf g" and "fold (edges_of g) g (map (\<lambda>(node, _). (node, 0)) g, []) = (d, a)"
  shows "kahn_inv g d (map fst (filter (\<lambda>(_, degree). degree = 0) d)) []"
proof -
  note f = edges_filled [OF assms]
  let ?q = "map fst (filter (\<lambda>(_, degree). degree = 0) d)"
  have wf: "distinct (map fst d)" using f(1) assms(1) by (simp add: graph_wf_def im_wf_def)
  have "v \<in> set ?q \<longleftrightarrow> im_get d v = Some 0" for v
    using wf by (force simp: image_iff)
  then have "v \<in> set ?q \<longleftrightarrow> preds g v \<subseteq> {}" if "v \<in> fst ` set g" for v
    using f(2) [OF that] by simp
  moreover have "distinct ?q" using wf by (rule distinct_map_filter)
  moreover have "set ?q \<subseteq> fst ` set g" using f(1) by (metis (no_types, lifting) filter_is_subset image_mono list.set_map)
  ultimately show ?thesis unfolding kahn_inv_def using f(1,2) by simp
qed

lemma topological_sort_inv:
  assumes "graph_wf g"
  shows "\<exists>d r. kahn_inv g d [] r \<and> topological_sort g =
    (if length r \<noteq> length d then Some (Inl (map fst (filter (\<lambda>(_, degree). degree > 0) d)))
     else Some (Inr r))"
proof -
  obtain d a where f: "fold (edges_of g) g (map (\<lambda>(node, _). (node, 0)) g, []) = (d, a)"
    by (metis surj_pair)
  from kahn_loop_inv [OF assms edges_filled(3) [OF assms f] kahn_inv_start [OF assms f]]
  obtain d' r where "kahn_loop a d (map fst (filter (\<lambda>(_, degree). degree = 0) d)) [] = Some (d', r)"
    "kahn_inv g d' [] r" by blast
  then show ?thesis unfolding topological_sort_def f by (intro exI [of _ d'] exI [of _ r]) simp
qed

lemma topological_sort_cases:
  assumes "graph_wf g"
  obtains r where "topological_sort g = Some (Inr r)" "topological_order g r"
  | ns where "topological_sort g = Some (Inl ns)" "waits_in_circle g ns"
proof -
  from topological_sort_inv [OF assms] obtain d r where i: "kahn_inv g d [] r" and t: "topological_sort g =
    (if length r \<noteq> length d then Some (Inl (map fst (filter (\<lambda>(_, degree). degree > 0) d)))
     else Some (Inr r))" by blast
  let ?ns = "map fst (filter (\<lambda>(_, degree). degree > 0) d)"
  have keys: "map fst d = map fst g" and r: "distinct r" "set r \<subseteq> fst ` set g"
    and before: "\<forall>i < length r. preds g (r ! i) \<subseteq> set (take i r)"
    using i by (simp_all add: kahn_inv_def)
  have deg: "im_get d v = Some (card (preds g v - set r))" "v \<in> set r \<longleftrightarrow> preds g v \<subseteq> set r"
    if "v \<in> fst ` set g" for v using i that unfolding kahn_inv_def by auto
  have dist: "distinct (map fst d)" using keys assms by (simp add: graph_wf_def im_wf_def)
  have card_keys: "card (fst ` set g) = length d"
    using dist keys by (metis distinct_card length_map list.set_map)
  have ns: "v \<in> set ?ns \<longleftrightarrow> v \<in> fst ` set g \<and> v \<notin> set r" for v
  proof -
    have "v \<in> set ?ns \<longleftrightarrow> (\<exists>n > 0. im_get d v = Some n)" using dist by (force simp: image_iff)
    also have "\<dots> \<longleftrightarrow> v \<in> fst ` set g \<and> v \<notin> set r"
    proof (cases "v \<in> fst ` set g")
      case True
      then show ?thesis using deg [OF True] by (auto simp: card_gt_0_iff)
    next
      case False
      then have "v \<notin> fst ` set d" using keys by (metis list.set_map)
      then have "im_get d v = None" by (simp add: map_of_eq_None_iff)
      then show ?thesis using False by simp
    qed
    finally show ?thesis .
  qed
  show thesis
  proof (cases "length r = length d")
    case True
    then have "set r = fst ` set g" using r card_keys by (metis card_subset_eq distinct_card finite_imageI finite_set)
    then show thesis using that(1) t True r before by (simp add: topological_order_def)
  next
    case False
    then have "set r \<noteq> fst ` set g" using r card_keys distinct_card by metis
    then obtain v where "v \<in> set ?ns" using ns r(2) by blast
    then have "set ?ns \<noteq> {}" by (metis empty_iff)
    moreover have "\<exists>u \<in> set ?ns. (u, v) \<in> dep_rel g" if "v \<in> set ?ns" for v
      using ns [of v] that deg(2) [of v] preds_keys [of g v] ns unfolding dep_rel_def by blast
    ultimately have "waits_in_circle g ?ns" unfolding waits_in_circle_def by (metis empty_set)
    then show thesis using that(2) t False by simp
  qed
qed

section \<open>The levels\<close>

lemma foldl_max: "foldl max (a :: nat) xs = Max (insert a (set xs))"
proof (induction xs arbitrary: a)
  case (Cons x xs)
  have "insert (max a x) (set xs) = insert (max a x) (set xs)" ..
  then show ?case using Cons by (cases "xs = []") (simp_all add: max.assoc insert_commute)
qed simp

lemma levels_of_snoc:
  "levels_of g (r @ [v]) = im_insert v (binding_level g (levels_of g r) v) (levels_of g r)"
  by (simp add: levels_of_def)

lemma levels_of_keys: "fst ` set (levels_of g r) = set r"
proof (induction r rule: rev_induct)
  case (snoc v r)
  then show ?case by (simp add: levels_of_snoc keys_im_insert)
qed (simp add: levels_of_def)

lemma binding_level_eq:
  assumes "preds g v \<subseteq> set r" "set r \<subseteq> fst ` set g"
  shows "binding_level g (levels_of g r) v =
    Max (insert 0 ((\<lambda>u. Suc (the (im_get (levels_of g r) u))) ` preds g v))"
proof -
  let ?lo = "levels_of g r"
  have got: "(case im_get ?lo u of Some l \<Rightarrow> [l + 1] | None \<Rightarrow> []) =
      (if u \<in> set r then [Suc (the (im_get ?lo u))] else [])" for u
  proof (cases "u \<in> set r")
    case True
    then have "im_get ?lo u \<noteq> None" using levels_of_keys [of g r] by (simp add: map_of_eq_None_iff)
    with True show ?thesis by auto
  next
    case False
    then have "im_get ?lo u = None" using levels_of_keys [of g r] by (simp add: map_of_eq_None_iff)
    with False show ?thesis by simp
  qed
  have "set (concat (map (\<lambda>u. if u \<in> set r then [Suc (the (im_get ?lo u))] else []) (get_list g v)))
      = (\<lambda>u. Suc (the (im_get ?lo u))) ` (set (get_list g v) \<inter> set r)"
    by auto
  also have "set (get_list g v) \<inter> set r = preds g v"
    using assms by (auto simp: preds_def in_edges_def)
  finally show ?thesis
    unfolding binding_level_def foldl_max Let_def got get_list_def [symmetric] by simp
qed

text \<open>The level of a binding does not change once it is set, and is one past the deepest it reads.\<close>

lemma levels_of_spec:
  assumes "distinct r" "set r \<subseteq> fst ` set g" "\<forall>i < length r. preds g (r ! i) \<subseteq> set (take i r)"
    "v \<in> set r"
  shows "im_get (levels_of g r) v =
    Some (Max (insert 0 ((\<lambda>u. Suc (the (im_get (levels_of g r) u))) ` preds g v)))"
  using assms
proof (induction r arbitrary: v rule: rev_induct)
  case (snoc w r)
  have before: "\<forall>i < length r. preds g (r ! i) \<subseteq> set (take i r)" and w: "preds g w \<subseteq> set r"
    using snoc.prems(3) by (auto simp: nth_append less_Suc_eq)
  have fresh: "w \<notin> set r" and r: "set r \<subseteq> fst ` set g" using snoc.prems(1,2) by auto
  have in_r: "preds g u \<subseteq> set r" if "u \<in> set (r @ [w])" for u
    using that w before by (auto simp: in_set_conv_nth dest: in_set_takeD)
  have keep: "im_get (levels_of g (r @ [w])) u = im_get (levels_of g r) u" if "u \<in> set r" for u
    using that fresh by (auto simp: levels_of_snoc im_get_insert)
  have img: "(\<lambda>u. Suc (the (im_get (levels_of g (r @ [w])) u))) ` preds g v =
      (\<lambda>u. Suc (the (im_get (levels_of g r) u))) ` preds g v"
    using in_r [OF snoc.prems(4)] keep by (auto intro!: image_cong)
  show ?case
  proof (cases "v = w")
    case True
    then show ?thesis unfolding img using binding_level_eq [OF w r] by (simp add: levels_of_snoc im_get_insert)
  next
    case False
    then have "v \<in> set r" using snoc.prems(4) by simp
    then show ?thesis unfolding img keep [OF \<open>v \<in> set r\<close>] using snoc.IH snoc.prems(1) r before by simp
  qed
qed simp

lemma push_level_length: "length (fold (push_level lo) vs ls) = length ls"
  by (induction vs arbitrary: ls) (auto simp: push_level_def split: option.split)

lemma push_levels:
  "i < length ls \<Longrightarrow> fold (push_level lo) vs ls ! i = ls ! i @ filter (\<lambda>v. im_get lo v = Some i) vs"
proof (induction vs arbitrary: ls)
  case (Cons v vs)
  then show ?case using Cons.IH [of "push_level lo v ls"]
    by (auto simp: push_level_def nth_list_update split: option.split)
qed simp

definition level_count_of :: "(string \<times> nat) list \<Rightarrow> nat" where
  "level_count_of lo = (if lo = [] then 0 else foldl max 0 (map snd lo) + 1)"

lemma group_levels:
  "length (group_by_dependency_levels g r) = level_count_of (levels_of g r)"
  "i < level_count_of (levels_of g r) \<Longrightarrow>
   group_by_dependency_levels g r ! i = filter (\<lambda>v. im_get (levels_of g r) v = Some i) (map fst g)"
  by (simp_all add: group_by_dependency_levels_def Let_def push_level_length push_levels
      level_count_of_def [symmetric])

lemma level_in_range: "im_get lo v = Some l \<Longrightarrow> l < level_count_of lo"
proof -
  assume "im_get lo v = Some l"
  then have "(v, l) \<in> set lo" by (rule im_get_SomeD)
  then have "l \<in> set (map snd lo)" "lo \<noteq> []" by force+
  then show ?thesis unfolding level_count_of_def foldl_max by (simp add: le_imp_less_Suc)
qed

text \<open>Lists that sort the elements of a list by a number they are given.\<close>

lemma sorted_into:
  assumes "distinct ks" "\<And>v. v \<in> set ks \<Longrightarrow> f v = Some (l v) \<and> l v < length ls"
    "\<And>i. i < length ls \<Longrightarrow> ls ! i = filter (\<lambda>v. f v = Some i) ks"
  shows "distinct (concat ls)" "n \<le> length ls \<Longrightarrow> set (concat (take n ls)) = {v \<in> set ks. l v < n}"
    "i < length ls \<Longrightarrow> set (ls ! i) = {v \<in> set ks. l v = i}"
proof -
  have mem: "v \<in> set (ls ! i) \<longleftrightarrow> v \<in> set ks \<and> l v = i" if "i < length ls" for i v
    using assms(2) [of v] assms(3) [OF that] by auto
  then show "i < length ls \<Longrightarrow> set (ls ! i) = {v \<in> set ks. l v = i}" by auto
  show "set (concat (take n ls)) = {v \<in> set ks. l v < n}" if "n \<le> length ls"
    using that mem by (force simp: in_set_conv_nth [of _ "take n ls"])
  have upto: "set (concat (take n ls)) = {v \<in> set ks. l v < n}" if "n \<le> length ls" for n
    using that mem by (force simp: in_set_conv_nth [of _ "take n ls"])
  have "distinct (concat (take n ls))" if "n \<le> length ls" for n
    using that
  proof (induction n)
    case (Suc n)
    then have "distinct (ls ! n)" using assms(1,3) by simp
    moreover have "set (concat (take n ls)) \<inter> set (ls ! n) = {}"
      using upto [of n] mem [of n] Suc.prems by auto
    ultimately show ?case using Suc by (simp add: take_Suc_conv_app_nth)
  qed simp
  from this [of "length ls"] show "distinct (concat ls)" by simp
qed

lemma group_parallel_levels:
  assumes "graph_wf g" "topological_order g r"
  shows "parallel_levels g (group_by_dependency_levels g r)"
proof -
  let ?lo = "levels_of g r" and ?ls = "group_by_dependency_levels g r"
  define l where "l v = the (im_get ?lo v)" for v
  have keys: "set r = fst ` set g" "distinct (map fst g)"
    using assms by (auto simp: topological_order_def graph_wf_def im_wf_def)
  have lev: "im_get ?lo v = Some (Max (insert 0 ((\<lambda>u. Suc (l u)) ` preds g v)))"
    if "v \<in> fst ` set g" for v
    using levels_of_spec [of r g v] assms(2) that by (simp add: topological_order_def l_def)
  have get: "im_get ?lo v = Some (l v) \<and> l v < length ?ls" if "v \<in> set (map fst g)" for v
    using lev [of v] that level_in_range [of ?lo v] group_levels(1) [where g = g and r = r] by (simp add: l_def)
  have deep: "l v = Max (insert 0 ((\<lambda>u. Suc (l u)) ` preds g v))" if "v \<in> fst ` set g" for v
    using lev [OF that] by (simp add: l_def)
  have nth: "?ls ! i = filter (\<lambda>v. im_get ?lo v = Some i) (map fst g)" if "i < length ?ls" for i
    using that group_levels [where g = g and r = r] by simp
  note s = sorted_into [OF keys(2) get nth]
  have lt: "l u < l v" if "v \<in> fst ` set g" "u \<in> preds g v" for u v
    unfolding deep [OF that(1)] using that(2) by (subst Max_gr_iff) (auto intro: lessI)
  have wit: "\<exists>u \<in> preds g v. l v = Suc (l u)" if "v \<in> fst ` set g" "l v \<noteq> 0" for v
    using Max_in [of "insert 0 ((\<lambda>u. Suc (l u)) ` preds g v)"] deep [OF that(1)] that(2) by auto
  have "preds g v \<subseteq> set (concat (take i ?ls)) \<and> (i = 0 \<or> (\<exists>u \<in> set (?ls ! (i - 1)). u \<in> preds g v))"
    if "i < length ?ls" "v \<in> set (?ls ! i)" for i v
  proof -
    have v: "v \<in> fst ` set g" "l v = i" using that s(3) by auto
    have "preds g v \<subseteq> set (concat (take i ?ls))"
      using s(2) [of i] that(1) lt [OF v(1)] v(2) preds_keys [of g v] by auto
    moreover have "\<exists>u \<in> set (?ls ! (i - 1)). u \<in> preds g v" if nz: "i \<noteq> 0"
    proof -
      obtain u where "u \<in> preds g v" "l v = Suc (l u)" using wit [OF v(1)] v(2) nz by auto
      then have "u \<in> set (?ls ! (i - 1))"
        using s(3) [of "i - 1"] \<open>i < length ?ls\<close> v(2) subsetD [OF preds_keys] by auto
      with \<open>u \<in> preds g v\<close> show ?thesis by blast
    qed
    ultimately show ?thesis by blast
  qed
  moreover have "?ls ! i = filter (\<lambda>v. v \<in> set (?ls ! i)) (map fst g)" if "i < length ?ls" for i
    using nth [OF that] by (auto intro: filter_cong)
  moreover have "set (concat ?ls) = fst ` set g" using s(2) [of "length ?ls"] get by auto
  ultimately show ?thesis using s(1) unfolding parallel_levels_def by blast
qed

section \<open>Properties\<close>

text \<open>C10. The dependency analysis of a parallel flow never panics: it returns an order exactly when
  the bindings of the flow do not wait for each other in a circle. The order lists every binding
  once, after the bindings it reads, and grouping it gives levels that hold every binding once, in
  source order, after all it reads and directly after one it reads. Otherwise the names reported
  all wait for each other.\<close>
theorem flow_schedule_correct:
  "case topological_sort (build_dependency_graph exprs) of
     Some (Inr order) \<Rightarrow>
       acyclic (dep_rel (build_dependency_graph exprs)) \<and>
       topological_order (build_dependency_graph exprs) order \<and>
       parallel_levels (build_dependency_graph exprs)
         (group_by_dependency_levels (build_dependency_graph exprs) order)
   | Some (Inl names) \<Rightarrow>
       \<not> acyclic (dep_rel (build_dependency_graph exprs)) \<and>
       waits_in_circle (build_dependency_graph exprs) names
   | None \<Rightarrow> False"
  using graph_wf_build [of exprs]
  by (rule topological_sort_cases)
    (simp_all add: order_acyclic group_parallel_levels graph_wf_build circle_not_acyclic)

text \<open>The dependencies of a binding are the names its expression mentions outside vector and map
  literals, each listed once.\<close>
theorem extract_dependencies_names:
  "set (extract_dependencies v) = names_outside_literals v \<and> distinct (extract_dependencies v)"
  by (simp add: extract_dependencies_def extract_set extract_distinct)

lemma build_loop_binding:
  assumes "distinct (map fst bs)" "(b, v) \<in> set bs"
  shows "im_get (build_loop (concat (map (\<lambda>(name, e). [ARefVar name, e]) bs)) g) b = Some (extract_dependencies v)"
  using assms
proof (induction bs arbitrary: g)
  case (Cons entry bs)
  obtain name e where entry: "entry = (name, e)" by fastforce
  have keep: "im_get (build_loop (concat (map (\<lambda>(name, e). [ARefVar name, e]) cs)) h) name = im_get h name"
    if "name \<notin> fst ` set cs" for cs h
    using that by (induction cs arbitrary: h) (auto simp: map_laws)
  show ?case
  proof (cases "(b, v) = entry")
    case True
    then show ?thesis using Cons.prems(1) entry by (simp add: keep map_laws)
  next
    case False
    then show ?thesis using Cons entry by auto
  qed
qed simp

lemma distinct_concat_nth:
  assumes "distinct (concat xss)" "i < j" "j < length xss"
  shows "set (xss ! i) \<inter> set (xss ! j) = {}"
  using assms
proof (induction xss arbitrary: i j)
  case (Cons xs xss)
  then obtain j' where j: "j = Suc j'" "j' < length xss" by (cases j) auto
  show ?case
  proof (cases i)
    case 0
    have "set (xss ! j') \<subseteq> set (concat xss)" using nth_mem [OF j(2)] by auto
    then show ?thesis using 0 j Cons.prems(1) by auto
  next
    case (Suc i')
    then show ?thesis using Cons j by auto
  qed
qed simp

text \<open>C36. A binding of a vector or map literal waits for nothing: in every flow of bindings that has a
  schedule it is put into the first level, whatever bindings its elements read, so it runs no later than
  any of them. A read of a binding of the flow as the argument of a call puts it behind that binding.\<close>
theorem literal_dependency_missed:
  assumes "distinct (map fst bs)" "(b, AVal l) \<in> set bs" "\<forall>f args. l \<noteq> LBoxCall f args"
    and "g = build_dependency_graph (concat (map (\<lambda>(name, e). [ARefVar name, e]) bs))"
    and "topological_sort g = Some (Inr order)"
  shows "b \<in> set (group_by_dependency_levels g order ! 0) \<and>
    (\<forall>c f args a i j. (c, AFnCall f args) \<in> set bs \<longrightarrow> ARefVar a \<in> set args \<longrightarrow>
      i < length (group_by_dependency_levels g order) \<longrightarrow> a \<in> set (group_by_dependency_levels g order ! i) \<longrightarrow>
      j < length (group_by_dependency_levels g order) \<longrightarrow> c \<in> set (group_by_dependency_levels g order ! j) \<longrightarrow> i < j)"
proof -
  let ?ls = "group_by_dependency_levels g order"
  have levels: "parallel_levels g ?ls"
    by (rule topological_sort_cases [OF graph_wf_build [of "concat (map (\<lambda>(name, e). [ARefVar name, e]) bs)"]])
      (use assms(4,5) in \<open>simp_all add: group_parallel_levels graph_wf_build\<close>)
  have get: "im_get g c = Some (extract_dependencies e)" if "(c, e) \<in> set bs" for c e
    unfolding assms(4) build_dependency_graph_def by (rule build_loop_binding [OF assms(1) that])
  have none: "preds g b = {}"
    using get [OF assms(2)] assms(3)
    by (cases l) (simp_all add: preds_def in_edges_def get_list_def extract_dependencies_def)
  have "b \<in> fst ` set g" using get [OF assms(2)] by (metis im_contains_def im_contains_iff option.distinct(1))
  then obtain i where i: "i < length ?ls" "b \<in> set (?ls ! i)"
    using levels unfolding parallel_levels_def by (metis in_set_conv_nth set_concat UN_E)
  then have "i = 0" using levels none unfolding parallel_levels_def by blast
  moreover have "i < j" if c: "(c, AFnCall f args) \<in> set bs" "ARefVar a \<in> set args"
    "i < length ?ls" "a \<in> set (?ls ! i)" "j < length ?ls" "c \<in> set (?ls ! j)" for c f args a i j
  proof -
    have "a \<in> fst ` set g" using levels c(3,4) unfolding parallel_levels_def by (metis nth_mem set_concat UN_I)
    then have "a \<in> preds g c"
      using get [OF c(1)] c(2)
      by (force simp: preds_def in_edges_def get_list_def extract_dependencies_def extract_set im_contains_def)
    then have "a \<in> set (concat (take j ?ls))" using levels c(5,6) unfolding parallel_levels_def by blast
    then obtain xs where xs: "xs \<in> set (take j ?ls)" "a \<in> set xs" by auto
    then obtain k where k: "k < j" "k < length ?ls" "a \<in> set (?ls ! k)" by (auto simp: in_set_conv_nth [of xs])
    have "k = i"
    proof (rule ccontr)
      assume "k \<noteq> i"
      moreover have "distinct (concat ?ls)" using levels unfolding parallel_levels_def by blast
      ultimately have "set (?ls ! k) \<inter> set (?ls ! i) = {}"
        using k(2) c(3) distinct_concat_nth [of ?ls k i] distinct_concat_nth [of ?ls i k] by (cases "k < i") auto
      with k(3) c(4) show False by blast
    qed
    with k(1) show ?thesis by simp
  qed
  ultimately show ?thesis using i(2) by blast
qed

theorem literal_dependency_missed_witness:
  "''b'' \<in> set (group_by_dependency_levels
     (build_dependency_graph
       [ARefVar ''a'', AVal LScalar, ARefVar ''b'', AVal (LVec [LBoxNode (ARefVar ''a'')])]) [''a'', ''b''] ! 0)"
  using literal_dependency_missed [of "[(''a'', AVal LScalar), (''b'', AVal (LVec [LBoxNode (ARefVar ''a'')]))]" "''b''"
      "LVec [LBoxNode (ARefVar ''a'')]" _ "[''a'', ''b'']", OF _ _ _ refl]
  by (simp add: build_dependency_graph_def extract_dependencies_def topological_sort_def edges_of_def
      add_edge_def set_insert_def im_contains_def)

end
