(* ===== verification/Hot_Conf.thy ===== *)
theory Hot_Conf
  imports Hot_Val
begin

text \<open>
  Reading settings: the typed getters of \<^verbatim>\<open>crates/hot/src/val.rs\<close> over the deep \<open>get\<close>, with the defaults the
  services use, and the part of \<^verbatim>\<open>str\<close> that their callers need.
\<close>

section \<open>Strings\<close>

text \<open>The characters with the property \<^verbatim>\<open>White_Space\<close> in UTF-8; \<^verbatim>\<open>str::trim\<close> drops them at both ends.\<close>

definition bytes_str :: "nat list \<Rightarrow> string" where
  "bytes_str = map char_of"

definition white_space :: "string list" where
  "white_space = map bytes_str
     ([[9], [10], [11], [12], [13], [32], [194, 133], [194, 160], [225, 154, 128]] @
      map (\<lambda>n. [226, 128, n]) ([128..<139] @ [168, 169, 175]) @ [[226, 129, 159], [227, 128, 128]])"

function trim_front :: "string list \<Rightarrow> string \<Rightarrow> string" where
  "trim_front ws s =
     (case find (\<lambda>w. w \<noteq> [] \<and> starts_with s w) ws of
        Some w \<Rightarrow> trim_front ws (drop (length w) s)
      | None \<Rightarrow> s)"
  by pat_completeness auto
termination
proof (relation "measure (\<lambda>(_, s). length s)", goal_cases)
  case (2 ws s w)
  then have "w \<noteq> []" "starts_with s w" by (auto simp: find_Some_iff)
  then show ?case by (cases s) (auto simp: starts_with_def)
qed simp

declare trim_front.simps [simp del]

definition trim :: "string \<Rightarrow> string" where
  "trim s = rev (trim_front (map rev white_space) (rev (trim_front white_space s)))"

text \<open>Text of visible ASCII characters has nothing to trim.\<close>

definition visible :: "char \<Rightarrow> bool" where
  "visible c \<longleftrightarrow> 33 \<le> (of_char c :: nat) \<and> (of_char c :: nat) < 127"

lemma white_space_ends: "list_all (\<lambda>w. w \<noteq> [] \<and> \<not> visible (hd w) \<and> \<not> visible (last w)) white_space"
  by (simp add: white_space_def bytes_str_def visible_def upt_conv_Cons)

lemma trim_front_visible:
  assumes "list_all visible s" "list_all (\<lambda>w. w \<noteq> [] \<and> \<not> visible (hd w)) ws"
  shows "trim_front ws s = s"
proof -
  have "\<not> starts_with s w" if "w \<in> set ws" for w
    using assms that by (cases w; cases s) (auto simp: list_all_iff starts_with_def)
  then have "find (\<lambda>w. w \<noteq> [] \<and> starts_with s w) ws = None" by (auto simp: find_None_iff)
  then show ?thesis by (simp add: trim_front.simps [of ws s])
qed

lemma trim_visible: "list_all visible s \<Longrightarrow> trim s = s"
  using white_space_ends
  by (simp add: trim_def trim_front_visible list_all_iff hd_rev)

definition trim_quotes :: "string \<Rightarrow> string" where
  "trim_quotes s = rev (dropWhile (\<lambda>c. c = CHR 34) (rev (dropWhile (\<lambda>c. c = CHR 34) s)))"

section \<open>Getters\<close>

definition get_int_or_default :: "('d, 'b) val_env \<Rightarrow> ('d, 'b) val \<Rightarrow> string \<Rightarrow> int \<Rightarrow> int" where
  "get_int_or_default E conf path other =
     (case val_get conf path of
        Some (VInt i) \<Rightarrow> i
      | Some (VDec d) \<Rightarrow> (case dec_to_i64 E d of Some i \<Rightarrow> i | None \<Rightarrow> other)
      | Some (VStr s) \<Rightarrow> (case parse_signed 64 s of Some i \<Rightarrow> i | None \<Rightarrow> other)
      | _ \<Rightarrow> other)"

definition get_str_or_default :: "('d, 'b) val_env \<Rightarrow> ('d, 'b) val \<Rightarrow> string \<Rightarrow> string \<Rightarrow> string" where
  "get_str_or_default E conf path other =
     (case val_get conf path of
        Some (VStr s) \<Rightarrow> s
      | Some v \<Rightarrow> trim_quotes (display E v)
      | None \<Rightarrow> other)"

definition parse_bool :: "string \<Rightarrow> bool option" where
  "parse_bool s = (if s = ''true'' then Some True else if s = ''false'' then Some False else None)"

definition get_bool_or_default :: "('d, 'b) val \<Rightarrow> string \<Rightarrow> bool \<Rightarrow> bool" where
  "get_bool_or_default conf path other =
     (case val_get conf path of
        Some (VBool b) \<Rightarrow> b
      | Some (VInt i) \<Rightarrow> i \<noteq> 0
      | Some (VStr s) \<Rightarrow> (case parse_bool s of Some b \<Rightarrow> b | None \<Rightarrow> other)
      | _ \<Rightarrow> other)"

definition get_vec_str_or_default :: "('d, 'b) val \<Rightarrow> string \<Rightarrow> string list \<Rightarrow> string list" where
  "get_vec_str_or_default conf path other =
     (case val_get conf path of
        Some (VVec vs) \<Rightarrow> List.map_filter (\<lambda>v. case v of VStr s \<Rightarrow> Some s | _ \<Rightarrow> None) vs
      | _ \<Rightarrow> other)"

end
