(* ===== verification/Hot_Admission.thy ===== *)
theory Hot_Admission
  imports Hot_Conf
begin

text \<open>
  Request limits and connection admission of the API: \<^verbatim>\<open>crates/hot_api/src/rate_limit.rs\<close>. An \<^verbatim>\<open>Instant\<close> is a number of
  nanoseconds and \<open>now\<close> is an argument of what reads the clock. What asks the database (the billing owner of
  an organization, its plan, the account's shared counter, the organization of an environment) is a parameter.
\<close>

type_synonym uuid = "128 word"

section \<open>Caches\<close>

definition SECOND :: int where "SECOND = 1000000000"
definition FEATURES_TTL :: int where "FEATURES_TTL = 60 * SECOND"

record features_entry =
  fe_rate_limit_rps :: int
  fe_fetched_at :: int

definition features_get :: "(uuid \<times> features_entry) list \<Rightarrow> uuid \<Rightarrow> int \<Rightarrow> int option" where
  "features_get cache org now =
     (case im_get cache org of
        Some e \<Rightarrow> (if now - fe_fetched_at e < FEATURES_TTL then Some (fe_rate_limit_rps e) else None)
      | None \<Rightarrow> None)"

definition features_insert :: "(uuid \<times> features_entry) list \<Rightarrow> uuid \<Rightarrow> int \<Rightarrow> int \<Rightarrow> (uuid \<times> features_entry) list" where
  "features_insert cache org rps now = im_insert org \<lparr>fe_rate_limit_rps = rps, fe_fetched_at = now\<rparr> cache"

section \<open>Sliding window\<close>

definition SWEEP_INTERVAL :: int where "SWEEP_INTERVAL = 60 * SECOND"
definition STALE_THRESHOLD :: int where "STALE_THRESHOLD = 300 * SECOND"
definition WINDOW_DURATION :: int where "WINDOW_DURATION = SECOND"

record sliding_window =
  sw_windows :: "(uuid \<times> int list) list"
  sw_last_sweep :: int

definition sliding_window_new :: "int \<Rightarrow> sliding_window" where
  "sliding_window_new now = \<lparr>sw_windows = [], sw_last_sweep = now\<rparr>"

definition sweep :: "int \<Rightarrow> sliding_window \<Rightarrow> sliding_window" where
  "sweep now l =
     (if SWEEP_INTERVAL \<le> now - sw_last_sweep l
      then \<lparr>sw_windows = filter (\<lambda>(_, w). w \<noteq> [] \<and> now - STALE_THRESHOLD \<le> last w) (sw_windows l), sw_last_sweep = now\<rparr>
      else l)"

definition window_of :: "sliding_window \<Rightarrow> uuid \<Rightarrow> int list" where
  "window_of l org = (case im_get (sw_windows l) org of Some w \<Rightarrow> w | None \<Rightarrow> [])"

text \<open>\<open>None\<close> when the request is allowed, otherwise the time to wait.\<close>

definition sliding_check :: "uuid \<Rightarrow> int \<Rightarrow> int \<Rightarrow> sliding_window \<Rightarrow> int option \<times> sliding_window" where
  "sliding_check org max_rps now l =
     (if max_rps < 0 then (None, l)
      else if max_rps = 0 then (Some SECOND, l)
      else let l1 = sweep now l;
               window = dropWhile (\<lambda>t. t < now - WINDOW_DURATION) (window_of l1 org)
           in if nat max_rps \<le> length window
              then (Some (max (WINDOW_DURATION - (now - hd window)) (SECOND div 10)),
                    l1\<lparr>sw_windows := im_insert org window (sw_windows l1)\<rparr>)
              else (None, l1\<lparr>sw_windows := im_insert org (window @ [now]) (sw_windows l1)\<rparr>))"

section \<open>In-flight limiter\<close>

type_synonym counts = "(uuid \<times> nat) list"

definition count_of :: "counts \<Rightarrow> uuid \<Rightarrow> nat" where
  "count_of c i = (case im_get c i of Some n \<Rightarrow> n | None \<Rightarrow> 0)"

definition increment :: "uuid \<Rightarrow> counts \<Rightarrow> counts" where
  "increment i c = im_insert i (count_of c i + 1) c"

definition decrement_and_remove :: "uuid \<Rightarrow> counts \<Rightarrow> counts" where
  "decrement_and_remove i c =
     (case im_get c i of
        Some n \<Rightarrow> (if n - 1 = 0 then im_remove i c else im_insert i (n - 1) c)
      | None \<Rightarrow> c)"

text \<open>A refused request leaves an entry for the organization, as \<^verbatim>\<open>entry().or_default()\<close> does.\<close>

definition try_acquire :: "uuid \<Rightarrow> nat \<Rightarrow> counts \<Rightarrow> (nat + uuid) \<times> counts" where
  "try_acquire org max_count c =
     (if max_count \<le> count_of c org then (Inl (count_of c org), im_insert org (count_of c org) c)
      else (Inr org, increment org c))"

definition inflight_release :: "uuid \<Rightarrow> counts \<Rightarrow> counts" where
  "inflight_release = decrement_and_remove"

section \<open>Connections\<close>

datatype rate_limit_mode = Observe | Enforce

record rate_limit_exceeded =
  retry_after_secs :: nat
  message :: string

definition exceeded :: "string \<Rightarrow> rate_limit_exceeded" where
  "exceeded m = \<lparr>retry_after_secs = 1, message = m\<rparr>"

definition DEFAULT_PUBLIC_ORG_INFLIGHT_LIMIT :: int where "DEFAULT_PUBLIC_ORG_INFLIGHT_LIMIT = 50"
definition DEFAULT_SSE_PER_CREDENTIAL_LIMIT :: int where "DEFAULT_SSE_PER_CREDENTIAL_LIMIT = 128"
definition DEFAULT_SSE_PER_ORG_LIMIT :: int where "DEFAULT_SSE_PER_ORG_LIMIT = 1024"
definition DEFAULT_SSE_GLOBAL_LIMIT :: int where "DEFAULT_SSE_GLOBAL_LIMIT = 10000"

record sse_limits =
  per_credential_limit :: nat
  per_org_limit :: nat
  global_limit :: nat

definition sse_limits_from_conf :: "('d, 'b) val_env \<Rightarrow> ('d, 'b) val \<Rightarrow> sse_limits" where
  "sse_limits_from_conf E conf =
     (let configured_limit = (\<lambda>key other. nat (max (get_int_or_default E conf key other) 0))
      in \<lparr>per_credential_limit =
            configured_limit ''api.sse-per-credential-connection-limit'' DEFAULT_SSE_PER_CREDENTIAL_LIMIT,
          per_org_limit = configured_limit ''api.sse-per-org-connection-limit'' DEFAULT_SSE_PER_ORG_LIMIT,
          global_limit = configured_limit ''api.sse-global-connection-limit'' DEFAULT_SSE_GLOBAL_LIMIT\<rparr>)"

record sse_counts =
  sse_per_credential :: counts
  sse_per_org :: counts
  sse_global :: nat

definition sse_counts_new :: sse_counts where
  "sse_counts_new = \<lparr>sse_per_credential = [], sse_per_org = [], sse_global = 0\<rparr>"

definition sse_exceeded :: "sse_limits \<Rightarrow> uuid \<Rightarrow> uuid \<Rightarrow> sse_counts \<Rightarrow> (nat \<times> nat \<times> string) option" where
  "sse_exceeded limits credential org c =
     find (\<lambda>(limit, current, _). 0 < limit \<and> limit \<le> current)
       [(per_credential_limit limits, count_of (sse_per_credential c) credential, ''credential''),
        (per_org_limit limits, count_of (sse_per_org c) org, ''organization''),
        (global_limit limits, sse_global c, ''global'')]"

definition sse_acquire :: "uuid \<Rightarrow> uuid \<Rightarrow> sse_limits \<Rightarrow> rate_limit_mode \<Rightarrow> sse_counts \<Rightarrow>
    (rate_limit_exceeded + uuid \<times> uuid) \<times> sse_counts" where
  "sse_acquire credential org limits mode c =
     (case (sse_exceeded limits credential org c, mode) of
        (Some (_, _, scope), Enforce) \<Rightarrow>
          (Inl (exceeded (''Too many active SSE connections for this '' @ scope)), c)
      | _ \<Rightarrow>
          (Inr (credential, org),
           \<lparr>sse_per_credential = increment credential (sse_per_credential c),
            sse_per_org = increment org (sse_per_org c), sse_global = sse_global c + 1\<rparr>))"

definition sse_release :: "uuid \<Rightarrow> uuid \<Rightarrow> sse_counts \<Rightarrow> sse_counts" where
  "sse_release credential org c =
     \<lparr>sse_per_credential = decrement_and_remove credential (sse_per_credential c),
      sse_per_org = decrement_and_remove org (sse_per_org c), sse_global = sse_global c - 1\<rparr>"

definition mode_of :: "string \<Rightarrow> rate_limit_mode" where
  "mode_of s = (if to_ascii_lowercase (trim s) = ''enforce'' then Enforce else Observe)"

definition mode_from_conf :: "('d, 'b) val_env \<Rightarrow> ('d, 'b) val \<Rightarrow> rate_limit_mode" where
  "mode_from_conf E conf = mode_of (get_str_or_default E conf ''api.public-org-rate-limit-mode'' ''observe'')"

definition sse_from_conf :: "('d, 'b) val_env \<Rightarrow> ('d, 'b) val \<Rightarrow> rate_limit_mode" where
  "sse_from_conf E conf = mode_of (get_str_or_default E conf ''api.sse-connection-limit-mode'' ''observe'')"

section \<open>Admission\<close>

text \<open>What is asked of the database, whose state is \<open>'w\<close>: \<open>None\<close> is a failed query.\<close>

record 'w accounts =
  billing_owner_id_for :: "'w \<Rightarrow> uuid \<Rightarrow> uuid option"
  plan_rate_limit_rps :: "'w \<Rightarrow> uuid \<Rightarrow> int option"
  try_acquire_account_request :: "'w \<Rightarrow> uuid \<Rightarrow> int \<Rightarrow> bool option \<times> 'w"
  env_org :: "'w \<Rightarrow> uuid \<Rightarrow> uuid option"

record 'w api =
  api_env_to_org :: "(uuid \<times> uuid) list"
  api_features :: "(uuid \<times> features_entry) list"
  api_inflight :: counts
  api_sse :: sse_counts
  api_observed :: sliding_window
  api_db :: 'w

definition org_rate_limit_rps :: "'w accounts \<Rightarrow> int \<Rightarrow> uuid \<Rightarrow> 'w api \<Rightarrow> int option \<times> 'w api" where
  "org_rate_limit_rps A now org s =
     (case features_get (api_features s) org now of
        Some rps \<Rightarrow> (Some rps, s)
      | None \<Rightarrow>
          (case plan_rate_limit_rps A (api_db s) org of
             None \<Rightarrow> (None, s)
           | Some rps \<Rightarrow> (Some rps, s\<lparr>api_features := features_insert (api_features s) org rps now\<rparr>)))"

definition check_org_rate_limit :: "'w accounts \<Rightarrow> int \<Rightarrow> uuid \<Rightarrow> rate_limit_mode \<Rightarrow> 'w api \<Rightarrow>
    (rate_limit_exceeded + unit) \<times> 'w api" where
  "check_org_rate_limit A now org mode s =
     (case mode of
        Observe \<Rightarrow>
          (case billing_owner_id_for A (api_db s) org of
             None \<Rightarrow> (Inr (), s)
           | Some root \<Rightarrow>
               (case org_rate_limit_rps A now root s of
                  (None, s') \<Rightarrow> (Inr (), s')
                | (Some rps, s') \<Rightarrow>
                    (Inr (), s'\<lparr>api_observed := snd (sliding_check root rps now (api_observed s'))\<rparr>)))
      | Enforce \<Rightarrow>
          (case billing_owner_id_for A (api_db s) org of
             None \<Rightarrow> (Inl (exceeded ''Unable to resolve account request budget''), s)
           | Some root \<Rightarrow>
               (case org_rate_limit_rps A now root s of
                  (None, s') \<Rightarrow> (Inl (exceeded ''Unable to load account rate limit''), s')
                | (Some rps, s') \<Rightarrow>
                    (case try_acquire_account_request A (api_db s') root rps of
                       (None, db) \<Rightarrow>
                         (Inl (exceeded ''Account request accounting is temporarily unavailable''), s'\<lparr>api_db := db\<rparr>)
                     | (Some True, db) \<Rightarrow> (Inr (), s'\<lparr>api_db := db\<rparr>)
                     | (Some False, db) \<Rightarrow> (Inl (exceeded ''Account rate limit exceeded''), s'\<lparr>api_db := db\<rparr>)))))"

text \<open>\<open>Inr None\<close> admits without a guard, \<open>Inr (Some root)\<close> with a guard for the account.\<close>

definition check_public_org_inflight :: "('d, 'b) val_env \<Rightarrow> 'w accounts \<Rightarrow> int \<Rightarrow> ('d, 'b) val \<Rightarrow> uuid \<Rightarrow> 'w api \<Rightarrow>
    (rate_limit_exceeded + uuid option) \<times> 'w api" where
  "check_public_org_inflight E A now conf org s =
     (case billing_owner_id_for A (api_db s) org of
        None \<Rightarrow> (Inl (exceeded ''Unable to resolve account connection budget''), s)
      | Some root \<Rightarrow>
          (case org_rate_limit_rps A now root s of
             (None, s') \<Rightarrow> (Inl (exceeded ''Unable to load account connection budget''), s')
           | (Some rps, s') \<Rightarrow>
               (let configured = get_int_or_default E conf ''api.public-org-inflight-limit'' DEFAULT_PUBLIC_ORG_INFLIGHT_LIMIT
                in if rps < 0 \<or> configured \<le> 0 then (Inr None, s')
                   else case try_acquire root (nat configured) (api_inflight s') of
                          (Inr guarded, c) \<Rightarrow> (Inr (Some guarded), s'\<lparr>api_inflight := c\<rparr>)
                        | (Inl _, c) \<Rightarrow>
                            (Inl (exceeded ''Too many requests are currently running for this organization''),
                             s'\<lparr>api_inflight := c\<rparr>))))"

definition resolve_env :: "'w accounts \<Rightarrow> uuid \<Rightarrow> 'w api \<Rightarrow> uuid option \<times> 'w api" where
  "resolve_env A env s =
     (case im_get (api_env_to_org s) env of
        Some org \<Rightarrow> (Some org, s)
      | None \<Rightarrow>
          (case env_org A (api_db s) env of
             Some org \<Rightarrow> (Some org, s\<lparr>api_env_to_org := im_insert env org (api_env_to_org s)\<rparr>)
           | None \<Rightarrow> (None, s)))"

definition acquire_sse_connection :: "('d, 'b) val_env \<Rightarrow> 'w accounts \<Rightarrow> ('d, 'b) val \<Rightarrow> uuid \<Rightarrow> uuid \<Rightarrow> 'w api \<Rightarrow>
    (rate_limit_exceeded + uuid \<times> uuid) \<times> 'w api" where
  "acquire_sse_connection E A conf env credential s =
     (let mode = sse_from_conf E conf
      in case resolve_env A env s of
           (found, s1) \<Rightarrow>
             (if found = None \<and> mode = Enforce
              then (Inl (exceeded ''Unable to account for this SSE connection''), s1)
              else let org = (case found of Some org \<Rightarrow> org | None \<Rightarrow> 0);
                       owner = billing_owner_id_for A (api_db s1) org
                   in if owner = None \<and> mode = Enforce
                      then (Inl (exceeded ''Unable to resolve account SSE budget''), s1)
                      else case sse_acquire credential (case owner of Some root \<Rightarrow> root | None \<Rightarrow> 0)
                                  (sse_limits_from_conf E conf) mode (api_sse s1) of
                             (r, c) \<Rightarrow> (r, s1\<lparr>api_sse := c\<rparr>)))"

text \<open>The middleware: \<open>None\<close> lets the request through. A request without credentials is not limited here.\<close>

definition rate_limit_middleware :: "'w accounts \<Rightarrow> int \<Rightarrow> uuid option \<Rightarrow> 'w api \<Rightarrow> rate_limit_exceeded option \<times> 'w api" where
  "rate_limit_middleware A now auth_env s =
     (case auth_env of
        None \<Rightarrow> (None, s)
      | Some env \<Rightarrow>
          (case resolve_env A env s of
             (None, s1) \<Rightarrow> (Some (exceeded ''Unable to resolve account request budget''), s1)
           | (Some org, s1) \<Rightarrow>
               (case check_org_rate_limit A now org Enforce s1 of
                  (Inl e, s2) \<Rightarrow> (Some e, s2)
                | (Inr _, s2) \<Rightarrow> (None, s2))))"

section \<open>The sliding window is exact\<close>

text \<open>The reference: a log, never trimmed, of the requests admitted under a limit, of which those of the last second
  count. As in the code, a request of an organization without a limit (a negative one) is admitted and not recorded.\<close>

record call =
  call_org :: uuid
  call_max :: int
  call_at :: int

definition log_check :: "(uuid \<times> int) list \<Rightarrow> call \<Rightarrow> bool" where
  "log_check log c \<longleftrightarrow>
     call_max c < 0 \<or>
     (0 < call_max c \<and>
      length (filter (\<lambda>(org, t). org = call_org c \<and> call_at c - WINDOW_DURATION \<le> t) log) < nat (call_max c))"

fun log_run :: "(uuid \<times> int) list \<Rightarrow> call list \<Rightarrow> bool list" where
  "log_run log [] = []"
| "log_run log (c # cs) =
     log_check log c #
     log_run (if log_check log c \<and> 0 < call_max c then log @ [(call_org c, call_at c)] else log) cs"

fun sliding_run :: "sliding_window \<Rightarrow> call list \<Rightarrow> bool list" where
  "sliding_run l [] = []"
| "sliding_run l (c # cs) =
     (case sliding_check (call_org c) (call_max c) (call_at c) l of (r, l') \<Rightarrow> (r = None) # sliding_run l' cs)"

definition recent :: "int \<Rightarrow> int list \<Rightarrow> int list" where
  "recent now w = filter (\<lambda>t. now - WINDOW_DURATION \<le> t) w"

definition times_of :: "(uuid \<times> int) list \<Rightarrow> uuid \<Rightarrow> int list" where
  "times_of log org = map snd (filter (\<lambda>e. fst e = org) log)"

text \<open>The windows hold the log, up to entries that no longer count.\<close>

definition tracks :: "int \<Rightarrow> sliding_window \<Rightarrow> (uuid \<times> int) list \<Rightarrow> bool" where
  "tracks now l log \<longleftrightarrow>
     distinct (map fst (sw_windows l)) \<and>
     (\<forall>org. sorted (window_of l org) \<and> (\<forall>t \<in> set (window_of l org). t \<le> now) \<and>
       recent now (window_of l org) = recent now (times_of log org))"

lemma recent_later: "now \<le> now' \<Longrightarrow> recent now' (recent now w) = recent now' w"
  by (auto simp: recent_def intro!: filter_cong)

lemma recent_later_eq:
  assumes "now \<le> now'" "recent now w = recent now w'"
  shows "recent now' w = recent now' w'"
  using recent_later [OF assms(1), of w] recent_later [OF assms(1), of w'] assms(2) by simp

lemma drop_recent: "sorted w \<Longrightarrow> dropWhile (\<lambda>t. t < now - WINDOW_DURATION) w = recent now w"
  by (induction w) (force simp: recent_def not_less intro: filter_True [symmetric])+

lemma le_last: "sorted w \<Longrightarrow> t \<in> set w \<Longrightarrow> t \<le> last w" for t :: int
  by (induction w) auto

lemma recent_stale: "sorted w \<Longrightarrow> last w < now - STALE_THRESHOLD \<Longrightarrow> recent now w = []"
  using le_last [of w]
  by (fastforce simp: recent_def filter_empty_conv STALE_THRESHOLD_def WINDOW_DURATION_def SECOND_def)

lemma im_get_filter:
  "distinct (map fst m) \<Longrightarrow>
     im_get (filter P m) k = (case im_get m k of Some v \<Rightarrow> (if P (k, v) then Some v else None) | None \<Rightarrow> None)"
proof (induction m)
  case (Cons e m)
  obtain a b where e: "e = (a, b)" by (cases e)
  have "im_get m a = None" using Cons.prems e by (simp add: map_of_eq_None_iff)
  then show ?case using Cons e by (auto split: option.splits)
qed simp

lemma tracks_later: "tracks now l log \<Longrightarrow> now \<le> now' \<Longrightarrow> tracks now' l log"
  unfolding tracks_def using recent_later_eq order_trans by meson

lemma tracks_sweep:
  assumes "tracks now l log"
  shows "tracks now (sweep now l) log"
proof (cases "SWEEP_INTERVAL \<le> now - sw_last_sweep l")
  case True
  let ?P = "\<lambda>(_, w). w \<noteq> [] \<and> now - STALE_THRESHOLD \<le> last w"
  have d: "distinct (map fst (sw_windows l))" using assms by (simp add: tracks_def)
  have w: "window_of (sweep now l) org = (if ?P (org, window_of l org) then window_of l org else [])" for org
    using True im_get_filter [OF d, of ?P org] by (auto simp: sweep_def window_of_def split: option.splits)
  have s: "sorted (window_of l org)" "\<forall>t \<in> set (window_of l org). t \<le> now"
    "recent now (window_of l org) = recent now (times_of log org)" for org using assms by (auto simp: tracks_def)
  have "distinct (map fst (sw_windows (sweep now l)))"
    using distinct_map_filter [OF d] True by (simp add: sweep_def)
  moreover have "sorted (window_of (sweep now l) org) \<and> (\<forall>t \<in> set (window_of (sweep now l) org). t \<le> now) \<and>
      recent now (window_of (sweep now l) org) = recent now (times_of log org)" for org
    using s [of org] recent_stale [of "window_of l org" now] by (auto simp: w not_le) (auto simp: recent_def)
  ultimately show ?thesis by (simp add: tracks_def)
qed (simp add: sweep_def assms)

lemma window_insert: "window_of (l\<lparr>sw_windows := im_insert org w (sw_windows l)\<rparr>) o' = (if o' = org then w else window_of l o')"
  by (simp add: window_of_def im_get_insert)

lemma log_count:
  "length (filter (\<lambda>(org, t). org = a \<and> now - WINDOW_DURATION \<le> t) log) = length (recent now (times_of log a))"
  by (induction log) (auto simp: recent_def times_of_def)

lemma times_of_snoc: "times_of (log @ [(org, t)]) o' = (if o' = org then times_of log o' @ [t] else times_of log o')"
  by (simp add: times_of_def)

lemma recent_snoc: "recent t (w @ [t]) = recent t w @ [t]"
  by (simp add: recent_def WINDOW_DURATION_def SECOND_def)

lemma recent_props:
  "recent t (recent t w) = recent t w" "sorted w \<Longrightarrow> sorted (recent t w)" "set (recent t w) \<subseteq> set w"
  by (auto simp: recent_def sorted_wrt_filter)

lemma tracks_insert:
  assumes "tracks t l log" and w: "w = recent t (window_of l org)"
  shows "tracks t (l\<lparr>sw_windows := im_insert org w (sw_windows l)\<rparr>) log"
    and "tracks t (l\<lparr>sw_windows := im_insert org (w @ [t]) (sw_windows l)\<rparr>) (log @ [(org, t)])"
proof -
  have l: "sorted (window_of l o')" "\<And>x. x \<in> set (window_of l o') \<Longrightarrow> x \<le> t"
    "recent t (window_of l o') = recent t (times_of log o')" for o' using assms(1) by (auto simp: tracks_def)
  have d: "distinct (map fst (im_insert org v (sw_windows l)))" for v
    using assms(1) im_wf_insert [of "sw_windows l"] by (simp add: tracks_def im_wf_def)
  have "sorted w" unfolding w by (rule recent_props(2) [OF l(1)])
  moreover have "x \<le> t" if "x \<in> set w" for x using that recent_props(3) l(2) unfolding w by blast
  moreover have "recent t w = recent t (times_of log org)" unfolding w by (simp add: recent_props(1) l(3))
  ultimately show "tracks t (l\<lparr>sw_windows := im_insert org w (sw_windows l)\<rparr>) log"
    "tracks t (l\<lparr>sw_windows := im_insert org (w @ [t]) (sw_windows l)\<rparr>) (log @ [(org, t)])"
    using l d by (simp_all add: tracks_def window_insert times_of_snoc recent_snoc sorted_append)
qed

lemma sliding_step:
  assumes "tracks now l log" "now \<le> call_at c" "sliding_check (call_org c) (call_max c) (call_at c) l = (r, l')"
  shows "(r = None) = log_check log c \<and>
    tracks (call_at c) l' (if log_check log c \<and> 0 < call_max c then log @ [(call_org c, call_at c)] else log)"
proof (cases "0 < call_max c")
  case False
  then show ?thesis using assms tracks_later [OF assms(1,2)]
    by (auto simp: sliding_check_def log_check_def split: if_splits)
next
  case True
  let ?t = "call_at c" and ?l = "sweep (call_at c) l" and ?w = "recent (call_at c) (window_of (sweep (call_at c) l) (call_org c))"
  have tr: "tracks ?t ?l log" by (rule tracks_sweep [OF tracks_later [OF assms(1,2)]])
  then have s: "sorted (window_of ?l org)" "\<forall>t \<in> set (window_of ?l org). t \<le> ?t"
    "recent ?t (window_of ?l org) = recent ?t (times_of log org)" for org
    by (auto simp: tracks_def)
  have chk: "log_check log c \<longleftrightarrow> length ?w < nat (call_max c)"
    using True by (auto simp: log_check_def log_count s(3))
  have rl: "r = None \<longleftrightarrow> length ?w < nat (call_max c)"
    "l' = ?l\<lparr>sw_windows := im_insert (call_org c) (if length ?w < nat (call_max c) then ?w @ [?t] else ?w) (sw_windows ?l)\<rparr>"
    using assms(3) True by (auto simp: sliding_check_def Let_def drop_recent [OF s(1)] split: if_splits)
  have "tracks ?t l' (if length ?w < nat (call_max c) then log @ [(call_org c, ?t)] else log)"
    using tracks_insert [OF tr refl] unfolding rl(2) by simp
  then show ?thesis using chk rl(1) True by simp
qed

lemma sliding_run_eq:
  "tracks now l log \<Longrightarrow> sorted (now # map call_at cs) \<Longrightarrow> sliding_run l cs = log_run log cs"
proof (induction cs arbitrary: now l log)
  case (Cons c cs)
  obtain r l' where r: "sliding_check (call_org c) (call_max c) (call_at c) l = (r, l')" by (metis surj_pair)
  from sliding_step [OF Cons.prems(1) _ this] Cons.prems(2) have
    "(r = None) = log_check log c"
    "tracks (call_at c) l' (if log_check log c \<and> 0 < call_max c then log @ [(call_org c, call_at c)] else log)" by auto
  with Cons.IH [OF this(2)] Cons.prems(2) show ?case using r by auto
qed simp

text \<open>C8. The sliding window decides every request exactly as a log of all requests admitted under a limit
  would: a request is admitted when fewer than the limit of its organization were admitted in the second before it,
  and always without a limit, in which case it is not logged. Dropping
  expired entries and sweeping idle organizations never changes a decision, whatever the limits, the
  organizations and the order of requests.\<close>
theorem sliding_window_exact:
  assumes "sorted (start # map call_at cs)"
  shows "sliding_run (sliding_window_new start) cs = log_run [] cs"
proof (rule sliding_run_eq [OF _ assms])
  show "tracks start (sliding_window_new start) []"
    by (simp add: tracks_def sliding_window_new_def window_of_def times_of_def)
qed

theorem sliding_window_exact_witness:
  "sliding_run (sliding_window_new 0)
     [\<lparr>call_org = 1, call_max = 1, call_at = 5\<rparr>, \<lparr>call_org = 1, call_max = 1, call_at = 7\<rparr>,
      \<lparr>call_org = 1, call_max = 1, call_at = 2000000000\<rparr>] = [True, False, True]"
proof -
  have "sliding_run (sliding_window_new 0)
     [\<lparr>call_org = 1, call_max = 1, call_at = 5\<rparr>, \<lparr>call_org = 1, call_max = 1, call_at = 7\<rparr>,
      \<lparr>call_org = 1, call_max = 1, call_at = 2000000000\<rparr>] =
    log_run []
     [\<lparr>call_org = 1, call_max = 1, call_at = 5\<rparr>, \<lparr>call_org = 1, call_max = 1, call_at = 7\<rparr>,
      \<lparr>call_org = 1, call_max = 1, call_at = 2000000000\<rparr>]"
    by (rule sliding_window_exact) simp
  then show ?thesis by (simp add: log_check_def WINDOW_DURATION_def SECOND_def)
qed

section \<open>Connections and their guards\<close>

text \<open>
  A connection holds a guard, which releases its counts when it is dropped, at any time and in any order. A
  state is the counts with the guards that are alive.
\<close>

inductive sse_step :: "sse_limits \<Rightarrow> rate_limit_mode \<Rightarrow> sse_counts \<times> (uuid \<times> uuid) list \<Rightarrow>
    sse_counts \<times> (uuid \<times> uuid) list \<Rightarrow> bool" for L mode where
  sse_admitted: "sse_acquire credential org L mode c = (Inr g, c') \<Longrightarrow> sse_step L mode (c, gs) (c', g # gs)"
| sse_refused: "sse_acquire credential org L mode c = (Inl e, c') \<Longrightarrow> sse_step L mode (c, gs) (c', gs)"
| sse_dropped: "gs = as @ (credential, org) # bs \<Longrightarrow>
    sse_step L mode (c, gs) (sse_release credential org c, as @ bs)"

definition live :: "('g \<Rightarrow> uuid) \<Rightarrow> 'g list \<Rightarrow> uuid \<Rightarrow> nat" where
  "live key gs i = length (filter (\<lambda>g. key g = i) gs)"

text \<open>Counts that agree with the guards, with no entry for what has none.\<close>

definition counts_live :: "('g \<Rightarrow> uuid) \<Rightarrow> 'g list \<Rightarrow> counts \<Rightarrow> bool" where
  "counts_live key gs c \<longleftrightarrow>
     im_wf c \<and> (\<forall>i. im_get c i = (if live key gs i = 0 then None else Some (live key gs i)))"

definition within :: "nat \<Rightarrow> nat \<Rightarrow> bool" where
  "within limit n \<longleftrightarrow> limit = 0 \<or> n \<le> limit"

definition sse_inv :: "sse_limits \<Rightarrow> rate_limit_mode \<Rightarrow> sse_counts \<times> (uuid \<times> uuid) list \<Rightarrow> bool" where
  "sse_inv L mode = (\<lambda>(c, gs).
     counts_live fst gs (sse_per_credential c) \<and> counts_live snd gs (sse_per_org c) \<and> sse_global c = length gs \<and>
     (mode = Enforce \<longrightarrow>
        (\<forall>i. within (per_credential_limit L) (live fst gs i) \<and> within (per_org_limit L) (live snd gs i)) \<and>
        within (global_limit L) (length gs)))"

lemma count_of_live: "counts_live key gs c \<Longrightarrow> count_of c i = live key gs i"
  by (auto simp: counts_live_def count_of_def)

lemma live_Cons: "live key (g # gs) i = (if key g = i then Suc (live key gs i) else live key gs i)"
  by (simp add: live_def)

lemma live_remove: "live key (as @ g # bs) i = (if key g = i then Suc (live key (as @ bs) i) else live key (as @ bs) i)"
  by (simp add: live_def)

lemma counts_increment:
  assumes "counts_live key gs c"
  shows "counts_live key (g # gs) (increment (key g) c)"
  using assms count_of_live [OF assms] im_wf_insert
  by (auto simp: counts_live_def increment_def im_get_insert live_Cons)

lemma counts_decrement:
  assumes "counts_live key (as @ g # bs) c"
  shows "counts_live key (as @ bs) (decrement_and_remove (key g) c)"
  using assms im_wf_insert im_wf_remove
  by (auto simp: counts_live_def decrement_and_remove_def im_get_insert im_get_remove live_remove)

lemma within_Suc: "\<not> (0 < limit \<and> limit \<le> n) \<Longrightarrow> within limit (Suc n)"
  by (auto simp: within_def)

lemma within_mono: "within limit n \<Longrightarrow> m \<le> n \<Longrightarrow> within limit m"
  by (auto simp: within_def)

lemma within_live: "within limit (live key (as @ g # bs) i) \<Longrightarrow> within limit (live key (as @ bs) i)"
  by (erule within_mono) (simp add: live_def)

lemma sse_acquire_inv:
  assumes "sse_inv L mode (c, gs)" "sse_acquire credential org L mode c = (Inr g, c')"
  shows "sse_inv L mode (c', g # gs)"
proof -
  have c: "counts_live fst gs (sse_per_credential c)" "counts_live snd gs (sse_per_org c)" "sse_global c = length gs"
    using assms(1) by (auto simp: sse_inv_def)
  have g: "g = (credential, org)" "c' = \<lparr>sse_per_credential = increment credential (sse_per_credential c),
      sse_per_org = increment org (sse_per_org c), sse_global = sse_global c + 1\<rparr>"
    using assms(2) by (auto simp: sse_acquire_def split: option.splits prod.splits rate_limit_mode.splits)
  have "within (per_credential_limit L) (Suc (live fst gs credential)) \<and> within (per_org_limit L) (Suc (live snd gs org)) \<and>
      within (global_limit L) (Suc (length gs))" if m: "mode = Enforce"
  proof -
    have "sse_exceeded L credential org c = None" using assms(2) m by (auto simp: sse_acquire_def split: option.splits)
    then show ?thesis using within_Suc c by (auto simp: sse_exceeded_def count_of_live split: if_splits)
  qed
  then show ?thesis
    using assms(1) counts_increment [OF c(1), of "(credential, org)"] counts_increment [OF c(2), of "(credential, org)"]
    by (auto simp: sse_inv_def g live_Cons)
qed

lemma sse_release_inv:
  assumes "sse_inv L mode (c, as @ (credential, org) # bs)"
  shows "sse_inv L mode (sse_release credential org c, as @ bs)"
  using assms counts_decrement [of fst as "(credential, org)" bs] counts_decrement [of snd as "(credential, org)" bs]
  by (auto simp: sse_inv_def sse_release_def intro: within_live [where g = "(credential, org)"]
      within_mono [of _ "Suc (length as + length bs)"])

interpretation sse: invariant_system "\<lambda>s. s = (sse_counts_new, [])" "sse_step L mode" "sse_inv L mode" for L mode
proof
  show "sse_inv L mode s" if "s = (sse_counts_new, [])" for s
    using that by (simp add: sse_inv_def sse_counts_new_def counts_live_def live_def within_def im_wf_def)
  show "sse_inv L mode t" if "sse_step L mode s t" "sse_inv L mode s" for s t
    using that
  proof cases
    case (sse_refused credential org c e c' gs)
    then have "c' = c" by (auto simp: sse_acquire_def split: option.splits prod.splits rate_limit_mode.splits)
    then show ?thesis using sse_refused that(2) by simp
  qed (auto intro: sse_acquire_inv sse_release_inv)
qed

text \<open>C9. Whatever connections open, are refused and close, in whatever order, the counters are the numbers of
  open connections of each credential, of each account and in all, with no entry left for one that has none;
  and when limits are enforced no counter exceeds its limit.\<close>
theorem sse_connections_bounded:
  assumes "(sse_step L mode)\<^sup>*\<^sup>* (sse_counts_new, []) (c, gs)"
  shows "(\<forall>i. im_get (sse_per_credential c) i = (if live fst gs i = 0 then None else Some (live fst gs i))) \<and>
    (\<forall>i. im_get (sse_per_org c) i = (if live snd gs i = 0 then None else Some (live snd gs i))) \<and>
    sse_global c = length gs \<and>
    (mode = Enforce \<longrightarrow>
       (\<forall>i. within (per_credential_limit L) (live fst gs i) \<and> within (per_org_limit L) (live snd gs i)) \<and>
       within (global_limit L) (length gs))"
  using sse.inv_reachable [OF refl assms] by (simp add: sse_inv_def counts_live_def)

definition one_each :: sse_limits where
  "one_each = \<lparr>per_credential_limit = 1, per_org_limit = 2, global_limit = 0\<rparr>"

theorem sse_connections_bounded_witness:
  "im_get (sse_per_credential (snd (sse_acquire 7 9 one_each Enforce sse_counts_new))) 7 = Some 1"
proof -
  let ?c = "snd (sse_acquire 7 9 one_each Enforce sse_counts_new)"
  have "sse_acquire 7 9 one_each Enforce sse_counts_new = (Inr (7, 9), ?c)"
    by (simp add: sse_acquire_def sse_exceeded_def one_each_def sse_counts_new_def count_of_def)
  then have "(sse_step one_each Enforce)\<^sup>*\<^sup>* (sse_counts_new, []) (?c, [(7, 9)])"
    by (intro r_into_rtranclp sse_admitted)
  from sse_connections_bounded [OF this] show ?thesis by (simp add: live_def)
qed

text \<open>Observing never refuses a request and never touches the shared account counter or a connection
  count, whatever lookups fail; enforcing lets a request through only after the shared counter of its billing
  account admitted it, so that every failed lookup refuses.\<close>
theorem admission_modes:
  "fst (check_org_rate_limit A now org Observe s) = Inr () \<and>
   api_db (snd (check_org_rate_limit A now org Observe s)) = api_db s \<and>
   api_inflight (snd (check_org_rate_limit A now org Observe s)) = api_inflight s \<and>
   api_sse (snd (check_org_rate_limit A now org Observe s)) = api_sse s \<and>
   (fst (check_org_rate_limit A now org Enforce s) = Inr () \<longleftrightarrow>
      (\<exists>root rps. billing_owner_id_for A (api_db s) org = Some root \<and>
         fst (org_rate_limit_rps A now root s) = Some rps \<and>
         fst (try_acquire_account_request A (api_db s) root rps) = Some True))"
proof -
  have db: "api_db s' = api_db s \<and> api_inflight s' = api_inflight s \<and> api_sse s' = api_sse s"
    if "org_rate_limit_rps A now root s = (r, s')" for root r s'
    using that by (auto simp: org_rate_limit_rps_def split: option.splits)
  show ?thesis
    using db by (auto simp: check_org_rate_limit_def split: option.splits prod.splits bool.splits)
qed

end
