(* ===== verification/Hot_Budget.thy ===== *)
theory Hot_Budget
  imports Hot_Prelude
begin

text \<open>
  Admission of container tasks to the memory and disk of a worker:
  \<^verbatim>\<open>crates/hot_task_worker/src/resource_budget.rs\<close>. The two counters are atomics that tasks read and update without
  a lock, so a state has the place in \<open>acquire\<close> or \<open>release\<close> where each task is, and every load, exchange,
  subtraction and notification is a step of its own. Arithmetic is that of \<^verbatim>\<open>u64\<close>: additions and \<^verbatim>\<open>fetch_sub\<close> wrap.
\<close>

section \<open>Model\<close>

definition u64_add :: "nat \<Rightarrow> nat \<Rightarrow> nat" where "u64_add a b = (a + b) mod 2 ^ 64"
definition u64_sub :: "nat \<Rightarrow> nat \<Rightarrow> nat" where "u64_sub a b = (a + (2 ^ 64 - b)) mod 2 ^ 64"
definition u64_saturating_add :: "nat \<Rightarrow> nat \<Rightarrow> nat" where "u64_saturating_add a b = min (a + b) (2 ^ 64 - 1)"

definition disk_admission_mb :: "nat \<Rightarrow> nat" where
  "disk_admission_mb data_mb = u64_saturating_add (u64_saturating_add data_mb 2048) (data_mb div 4)"

datatype budget_error =
    InsufficientCapacity nat nat nat nat
  | Timeout nat nat nat nat

text \<open>
  Where a task is: at the start of \<open>acquire\<close>, at the head of its loop, after the loads, after the exchange of
  the memory counter, before its rollback, decided to wait but not yet registered with the notifier,
  registered, holding a guard, in the drop of the guard, done.
\<close>

datatype place =
    Starting
  | Looping
  | Loaded_memory nat
  | Loaded nat nat
  | Claimed nat
  | Rolling_back
  | Deciding nat nat
  | Waiting
  | Holding
  | Released_memory
  | Released
  | Done
  | Refused budget_error

record task =
  tk_memory :: nat
  tk_disk :: nat
  tk_place :: place

record budget =
  bg_total_memory :: nat
  bg_total_disk :: nat
  bg_memory :: nat
  bg_disk :: nat
  bg_tasks :: "task list"

definition fits :: "budget \<Rightarrow> task \<Rightarrow> nat \<Rightarrow> nat \<Rightarrow> bool" where
  "fits b k cur_mem cur_disk \<longleftrightarrow>
     u64_add cur_mem (tk_memory k) \<le> bg_total_memory b \<and> u64_add cur_disk (tk_disk k) \<le> bg_total_disk b"

definition at :: "budget \<Rightarrow> nat \<Rightarrow> task \<Rightarrow> bool" where
  "at b i k \<longleftrightarrow> i < length (bg_tasks b) \<and> bg_tasks b ! i = k"

definition go :: "nat \<Rightarrow> place \<Rightarrow> budget \<Rightarrow> budget" where
  "go i p b = b\<lparr>bg_tasks := (bg_tasks b)[i := (bg_tasks b ! i)\<lparr>tk_place := p\<rparr>]\<rparr>"

definition wake :: "task \<Rightarrow> task" where
  "wake k = (if tk_place k = Waiting then k\<lparr>tk_place := Looping\<rparr> else k)"

definition notify_waiters :: "budget \<Rightarrow> budget" where
  "notify_waiters b = b\<lparr>bg_tasks := map wake (bg_tasks b)\<rparr>"

inductive acquire_step :: "budget \<Rightarrow> budget \<Rightarrow> bool" where
  too_big: "at b i k \<Longrightarrow> tk_place k = Starting \<Longrightarrow>
    bg_total_memory b < tk_memory k \<or> bg_total_disk b < tk_disk k \<Longrightarrow>
    acquire_step b (go i (Refused (InsufficientCapacity (tk_memory k) (tk_disk k) (bg_total_memory b) (bg_total_disk b))) b)"
| enter: "at b i k \<Longrightarrow> tk_place k = Starting \<Longrightarrow> tk_memory k \<le> bg_total_memory b \<Longrightarrow> tk_disk k \<le> bg_total_disk b \<Longrightarrow>
    acquire_step b (go i Looping b)"
| load_memory: "at b i k \<Longrightarrow> tk_place k = Looping \<Longrightarrow> acquire_step b (go i (Loaded_memory (bg_memory b)) b)"
| load_disk: "at b i k \<Longrightarrow> tk_place k = Loaded_memory cur_mem \<Longrightarrow>
    acquire_step b (go i (Loaded cur_mem (bg_disk b)) b)"
| exchange_memory: "at b i k \<Longrightarrow> tk_place k = Loaded cur_mem cur_disk \<Longrightarrow> fits b k cur_mem cur_disk \<Longrightarrow>
    bg_memory b = cur_mem \<Longrightarrow>
    acquire_step b (go i (Claimed cur_disk) (b\<lparr>bg_memory := u64_add cur_mem (tk_memory k)\<rparr>))"
| exchange_memory_fails: "at b i k \<Longrightarrow> tk_place k = Loaded cur_mem cur_disk \<Longrightarrow> fits b k cur_mem cur_disk \<Longrightarrow>
    acquire_step b (go i Looping b)"
| exchange_disk: "at b i k \<Longrightarrow> tk_place k = Claimed cur_disk \<Longrightarrow> bg_disk b = cur_disk \<Longrightarrow>
    acquire_step b (go i Holding (b\<lparr>bg_disk := u64_add cur_disk (tk_disk k)\<rparr>))"
| exchange_disk_fails: "at b i k \<Longrightarrow> tk_place k = Claimed cur_disk \<Longrightarrow> acquire_step b (go i Rolling_back b)"
| roll_back: "at b i k \<Longrightarrow> tk_place k = Rolling_back \<Longrightarrow>
    acquire_step b (go i Looping (b\<lparr>bg_memory := u64_sub (bg_memory b) (tk_memory k)\<rparr>))"
| not_enough: "at b i k \<Longrightarrow> tk_place k = Loaded cur_mem cur_disk \<Longrightarrow> \<not> fits b k cur_mem cur_disk \<Longrightarrow>
    acquire_step b (go i (Deciding cur_mem cur_disk) b)"
| times_out: "at b i k \<Longrightarrow> tk_place k = Deciding cur_mem cur_disk \<Longrightarrow>
    acquire_step b (go i (Refused (Timeout (tk_memory k) (tk_disk k) (bg_total_memory b - cur_mem) (bg_total_disk b - cur_disk))) b)"
| registers: "at b i k \<Longrightarrow> tk_place k = Deciding cur_mem cur_disk \<Longrightarrow> acquire_step b (go i Waiting b)"
| wait_elapses: "at b i k \<Longrightarrow> tk_place k = Waiting \<Longrightarrow> acquire_step b (go i Looping b)"

inductive release_step :: "budget \<Rightarrow> budget \<Rightarrow> bool" where
  release_memory: "at b i k \<Longrightarrow> tk_place k = Holding \<Longrightarrow>
    release_step b (go i Released_memory (b\<lparr>bg_memory := u64_sub (bg_memory b) (tk_memory k)\<rparr>))"
| release_disk: "at b i k \<Longrightarrow> tk_place k = Released_memory \<Longrightarrow>
    release_step b (go i Released (b\<lparr>bg_disk := u64_sub (bg_disk b) (tk_disk k)\<rparr>))"
| release_notifies: "at b i k \<Longrightarrow> tk_place k = Released \<Longrightarrow> release_step b (go i Done (notify_waiters b))"

definition budget_step :: "budget \<Rightarrow> budget \<Rightarrow> bool" where
  "budget_step b c \<longleftrightarrow> acquire_step b c \<or> release_step b c"

text \<open>A new budget with the tasks that will use it.\<close>

definition budget_new :: "nat \<Rightarrow> nat \<Rightarrow> (nat \<times> nat) list \<Rightarrow> budget" where
  "budget_new total_memory total_disk requests =
     \<lparr>bg_total_memory = total_memory, bg_total_disk = total_disk, bg_memory = 0, bg_disk = 0,
      bg_tasks = map (\<lambda>(m, d). \<lparr>tk_memory = m, tk_disk = d, tk_place = Starting\<rparr>) requests\<rparr>"

definition available_memory_mb :: "budget \<Rightarrow> nat" where
  "available_memory_mb b = bg_total_memory b - bg_memory b"

definition available_disk_mb :: "budget \<Rightarrow> nat" where
  "available_disk_mb b = bg_total_disk b - bg_disk b"

section \<open>The counters are what the tasks hold\<close>

definition memory_held :: "task \<Rightarrow> nat" where
  "memory_held k = (case tk_place k of Claimed _ \<Rightarrow> tk_memory k | Rolling_back \<Rightarrow> tk_memory k | Holding \<Rightarrow> tk_memory k | _ \<Rightarrow> 0)"

definition disk_held :: "task \<Rightarrow> nat" where
  "disk_held k = (case tk_place k of Holding \<Rightarrow> tk_disk k | Released_memory \<Rightarrow> tk_disk k | _ \<Rightarrow> 0)"

definition total_held :: "(task \<Rightarrow> nat) \<Rightarrow> budget \<Rightarrow> nat" where
  "total_held f b = sum_list (map f (bg_tasks b))"

definition task_ok :: "budget \<Rightarrow> task \<Rightarrow> bool" where
  "task_ok b k \<longleftrightarrow>
     (tk_place k \<in> {Starting} \<union> range Refused \<or> tk_memory k \<le> bg_total_memory b \<and> tk_disk k \<le> bg_total_disk b) \<and>
     (\<forall>m. tk_place k = Loaded_memory m \<longrightarrow> m \<le> bg_total_memory b) \<and>
     (\<forall>m d. tk_place k = Loaded m d \<longrightarrow> m \<le> bg_total_memory b \<and> d \<le> bg_total_disk b) \<and>
     (\<forall>d. tk_place k = Claimed d \<longrightarrow> d + tk_disk k \<le> bg_total_disk b)"

definition budget_inv :: "nat \<Rightarrow> nat \<Rightarrow> budget \<Rightarrow> bool" where
  "budget_inv tm td b \<longleftrightarrow>
     bg_total_memory b = tm \<and> bg_total_disk b = td \<and>
     bg_memory b = total_held memory_held b \<and> bg_disk b = total_held disk_held b \<and>
     bg_memory b \<le> tm \<and> bg_disk b \<le> td \<and> list_all (task_ok b) (bg_tasks b)"

lemma sum_list_update:
  "i < length xs \<Longrightarrow> sum_list (map f (xs[i := x])) + f (xs ! i) = sum_list (map f xs) + (f x :: nat)"
  by (induction xs arbitrary: i) (auto split: nat.split)

lemma total_held_go:
  assumes "at b i k"
  shows "total_held f (go i p b) + f k = total_held f b + f (k\<lparr>tk_place := p\<rparr>)"
  using sum_list_update [of i "bg_tasks b" f "k\<lparr>tk_place := p\<rparr>"] assms by (simp add: total_held_def go_def at_def)

lemma held_le:
  assumes "at b i k"
  shows "f k \<le> total_held f b"
  using assms member_le_sum_list [of "f k" "map f (bg_tasks b)"] by (auto simp: at_def total_held_def)

lemma task_ok_totals: "task_ok (b\<lparr>bg_memory := m, bg_disk := d, bg_tasks := ts\<rparr>) = task_ok b"
  by (rule ext) (simp add: task_ok_def)

lemma budget_inv_go:
  assumes "budget_inv tm td b" "at b i k"
    and m: "m + memory_held k = bg_memory b + memory_held (k\<lparr>tk_place := p\<rparr>)" "m \<le> tm"
    and d: "d + disk_held k = bg_disk b + disk_held (k\<lparr>tk_place := p\<rparr>)" "d \<le> td"
    and "task_ok b (k\<lparr>tk_place := p\<rparr>)"
  shows "budget_inv tm td (go i p (b\<lparr>bg_memory := m, bg_disk := d\<rparr>))"
proof -
  let ?b = "b\<lparr>bg_memory := m, bg_disk := d\<rparr>"
  have a: "at ?b i k" using assms(2) by (simp add: at_def)
  have h: "total_held f ?b = total_held f b" for f by (simp add: total_held_def)
  have "m = total_held memory_held (go i p ?b)" "d = total_held disk_held (go i p ?b)"
    using total_held_go [OF a, of memory_held p] total_held_go [OF a, of disk_held p] m(1) d(1) assms(1)
    by (simp_all add: h budget_inv_def)
  moreover have "list_all (task_ok (go i p ?b)) (bg_tasks (go i p ?b))"
  proof -
    have t: "task_ok (go i p ?b) = task_ok b" by (rule ext) (simp add: task_ok_def go_def)
    have "set ((bg_tasks b)[i := k\<lparr>tk_place := p\<rparr>]) \<subseteq> insert (k\<lparr>tk_place := p\<rparr>) (set (bg_tasks b))"
      by (rule set_update_subset_insert)
    then show ?thesis using assms(1,2,7) unfolding t by (auto simp: go_def at_def budget_inv_def list_all_iff)
  qed
  ultimately show ?thesis using assms(1) m(2) d(2) by (simp add: budget_inv_def go_def)
qed

lemma budget_inv_memory:
  assumes "budget_inv tm td b" "at b i k" "m + memory_held k = bg_memory b + memory_held (k\<lparr>tk_place := p\<rparr>)" "m \<le> tm"
    "disk_held (k\<lparr>tk_place := p\<rparr>) = disk_held k" "task_ok b (k\<lparr>tk_place := p\<rparr>)"
  shows "budget_inv tm td (go i p (b\<lparr>bg_memory := m\<rparr>))"
  using budget_inv_go [OF assms(1-4), of "bg_disk b"] assms by (simp add: budget_inv_def)

lemma budget_inv_disk:
  assumes "budget_inv tm td b" "at b i k" "d + disk_held k = bg_disk b + disk_held (k\<lparr>tk_place := p\<rparr>)" "d \<le> td"
    "memory_held (k\<lparr>tk_place := p\<rparr>) = memory_held k" "task_ok b (k\<lparr>tk_place := p\<rparr>)"
  shows "budget_inv tm td (go i p (b\<lparr>bg_disk := d\<rparr>))"
  using budget_inv_go [OF assms(1,2) _ _ assms(3,4), of "bg_memory b"] assms by (simp add: budget_inv_def)

lemma budget_inv_place:
  assumes "budget_inv tm td b" "at b i k" "disk_held (k\<lparr>tk_place := p\<rparr>) = disk_held k"
    "memory_held (k\<lparr>tk_place := p\<rparr>) = memory_held k" "task_ok b (k\<lparr>tk_place := p\<rparr>)"
  shows "budget_inv tm td (go i p b)"
  using budget_inv_memory [OF assms(1,2), of "bg_memory b" p] assms by (simp add: budget_inv_def)

lemma u64_exact:
  assumes "tm < 2 ^ 63" "a \<le> tm" "b \<le> tm"
  shows "u64_add a b = a + b" "b \<le> a \<Longrightarrow> u64_sub a b = a - b"
proof -
  have "a + b < 2 ^ 64" using assms by simp
  then show "u64_add a b = a + b" by (simp add: u64_add_def)
  show "u64_sub a b = a - b" if "b \<le> a"
  proof -
    have "a + (2 ^ 64 - b) = (a - b) + 2 ^ 64" using that assms by simp
    moreover have "a - b < 2 ^ 64" using assms by simp
    ultimately show ?thesis by (simp add: u64_sub_def)
  qed
qed

lemma held_bounds:
  assumes "budget_inv tm td b" "at b i k"
  shows "memory_held k \<le> bg_memory b" "disk_held k \<le> bg_disk b" "bg_memory b \<le> tm" "bg_disk b \<le> td" "task_ok b k"
    "bg_total_memory b = tm" "bg_total_disk b = td"
  using assms held_le [OF assms(2)] by (auto simp: budget_inv_def list_all_iff at_def)

lemma inv_move:
  assumes "budget_inv tm td b" "at b i k"
    and "task_ok b k \<Longrightarrow> bg_memory b \<le> bg_total_memory b \<Longrightarrow> bg_disk b \<le> bg_total_disk b \<Longrightarrow>
      disk_held (k\<lparr>tk_place := p\<rparr>) = disk_held k \<and> memory_held (k\<lparr>tk_place := p\<rparr>) = memory_held k \<and>
      task_ok b (k\<lparr>tk_place := p\<rparr>)"
  shows "budget_inv tm td (go i p b)"
  using budget_inv_place [OF assms(1,2)] held_bounds [OF assms(1,2)] assms(3) by simp

lemma acquire_inv:
  assumes "tm < 2 ^ 63" "td < 2 ^ 63" "acquire_step b c" "budget_inv tm td b"
  shows "budget_inv tm td c"
  using assms(3,4)
proof cases
  case (exchange_memory i k cm cd)
  note h = held_bounds [OF assms(4) exchange_memory(2)]
  have "tk_memory k \<le> tm" "cm \<le> tm" "cd \<le> td" "tk_disk k \<le> td" using h exchange_memory by (auto simp: task_ok_def)
  then have "cm + tk_memory k \<le> tm" "cd + tk_disk k \<le> td" "u64_add cm (tk_memory k) = cm + tk_memory k"
    using exchange_memory(4) h u64_exact(1) [OF assms(1)] u64_exact(1) [OF assms(2)] by (auto simp: fits_def)
  then show ?thesis unfolding exchange_memory(1)
    using exchange_memory h by (intro budget_inv_memory [OF assms(4) exchange_memory(2)])
      (auto simp: memory_held_def disk_held_def task_ok_def)
next
  case (exchange_disk i k cd)
  note h = held_bounds [OF assms(4) exchange_disk(2)]
  have "cd + tk_disk k \<le> td" "tk_disk k \<le> td" "cd \<le> td" using h exchange_disk by (auto simp: task_ok_def)
  then have "u64_add cd (tk_disk k) = cd + tk_disk k" using u64_exact(1) [OF assms(2)] by blast
  then show ?thesis unfolding exchange_disk(1)
    using exchange_disk h by (intro budget_inv_disk [OF assms(4) exchange_disk(2)])
      (auto simp: memory_held_def disk_held_def task_ok_def)
next
  case (roll_back i k)
  note h = held_bounds [OF assms(4) roll_back(2)]
  have "u64_sub (bg_memory b) (tk_memory k) = bg_memory b - tk_memory k" "tk_memory k \<le> bg_memory b"
    using h roll_back by (auto simp: memory_held_def task_ok_def intro!: u64_exact(2) [OF assms(1)])
  then show ?thesis unfolding roll_back(1)
    using roll_back h by (intro budget_inv_memory [OF assms(4) roll_back(2)])
      (auto simp: memory_held_def disk_held_def task_ok_def)
qed (simp_all only:, (erule inv_move [OF assms(4)], force simp: memory_held_def disk_held_def task_ok_def)+)

lemma wake_simps [simp]: "memory_held (wake k) = memory_held k" "disk_held (wake k) = disk_held k"
  by (simp_all add: wake_def memory_held_def disk_held_def)

lemma notify_inv:
  assumes "budget_inv tm td b"
  shows "budget_inv tm td (notify_waiters b)"
proof -
  have "total_held f (notify_waiters b) = total_held f b" if "\<And>k. f (wake k) = f k" for f
    using that by (simp add: total_held_def notify_waiters_def comp_def)
  moreover have "task_ok (notify_waiters b) (wake k)" if "task_ok b k" for k
    using that by (auto simp: task_ok_def wake_def notify_waiters_def)
  ultimately show ?thesis using assms by (auto simp: budget_inv_def list_all_iff notify_waiters_def)
qed

lemma release_inv:
  assumes "tm < 2 ^ 63" "td < 2 ^ 63" "release_step b c" "budget_inv tm td b"
  shows "budget_inv tm td c"
  using assms(3,4)
proof cases
  case (release_memory i k)
  note h = held_bounds [OF assms(4) release_memory(2)]
  have "u64_sub (bg_memory b) (tk_memory k) = bg_memory b - tk_memory k" "tk_memory k \<le> bg_memory b"
    using h release_memory by (auto simp: memory_held_def task_ok_def intro!: u64_exact(2) [OF assms(1)])
  then show ?thesis unfolding release_memory(1)
    using release_memory h by (intro budget_inv_memory [OF assms(4) release_memory(2)])
      (auto simp: memory_held_def disk_held_def task_ok_def)
next
  case (release_disk i k)
  note h = held_bounds [OF assms(4) release_disk(2)]
  have "u64_sub (bg_disk b) (tk_disk k) = bg_disk b - tk_disk k" "tk_disk k \<le> bg_disk b"
    using h release_disk by (auto simp: disk_held_def task_ok_def intro!: u64_exact(2) [OF assms(2)])
  then show ?thesis unfolding release_disk(1)
    using release_disk h by (intro budget_inv_disk [OF assms(4) release_disk(2)])
      (auto simp: memory_held_def disk_held_def task_ok_def)
next
  case (release_notifies i k)
  have "at (notify_waiters b) i k" using release_notifies by (simp add: at_def notify_waiters_def wake_def)
  then show ?thesis unfolding release_notifies(1)
    by (rule inv_move [OF notify_inv [OF assms(4)]])
      (use release_notifies in \<open>auto simp: memory_held_def disk_held_def task_ok_def\<close>)
qed

interpretation rb: invariant_system "\<lambda>b. \<exists>requests. b = budget_new tm td requests \<and> tm < 2 ^ 63 \<and> td < 2 ^ 63" budget_step
  "\<lambda>b. tm < 2 ^ 63 \<and> td < 2 ^ 63 \<and> budget_inv tm td b" for tm td
proof
  show "tm < 2 ^ 63 \<and> td < 2 ^ 63 \<and> budget_inv tm td b"
    if "\<exists>requests. b = budget_new tm td requests \<and> tm < 2 ^ 63 \<and> td < 2 ^ 63" for b
  proof -
    from that obtain requests where b: "b = budget_new tm td requests" "tm < 2 ^ 63" "td < 2 ^ 63" by blast
    have "total_held f b = 0" if "\<And>k. tk_place k = Starting \<Longrightarrow> f k = 0" for f
      using that by (auto simp: b total_held_def budget_new_def sum_list_eq_0_iff split_beta)
    then show ?thesis using b
      by (auto simp: budget_inv_def memory_held_def disk_held_def budget_new_def list_all_iff task_ok_def)
  qed
  show "tm < 2 ^ 63 \<and> td < 2 ^ 63 \<and> budget_inv tm td c"
    if "budget_step b c" "tm < 2 ^ 63 \<and> td < 2 ^ 63 \<and> budget_inv tm td b" for b c
    using that acquire_inv release_inv by (auto simp: budget_step_def)
qed

text \<open>C7. In every interleaving of any number of tasks that acquire and release, however often their exchanges
  fail, the two counters and the memory and the disk of the tasks that hold a guard never exceed the totals of the
  worker, and the counters are exactly what is held: an exchange that fails half way gives back what it took.\<close>
theorem budget_never_oversubscribed:
  assumes "tm < 2 ^ 63" "td < 2 ^ 63" "budget_step\<^sup>*\<^sup>* (budget_new tm td requests) b"
  shows "bg_memory b = total_held memory_held b \<and> bg_disk b = total_held disk_held b \<and>
    bg_memory b \<le> tm \<and> bg_disk b \<le> td \<and>
    (\<Sum>k \<leftarrow> filter (\<lambda>k. tk_place k = Holding) (bg_tasks b). tk_memory k) \<le> tm \<and>
    (\<Sum>k \<leftarrow> filter (\<lambda>k. tk_place k = Holding) (bg_tasks b). tk_disk k) \<le> td"
proof -
  have "budget_inv tm td b" using rb.inv_reachable [OF _ assms(3), of tm td] assms(1,2) by blast
  then have i: "bg_memory b = total_held memory_held b" "bg_disk b = total_held disk_held b" "bg_memory b \<le> tm" "bg_disk b \<le> td"
    by (auto simp: budget_inv_def)
  have "(\<Sum>k \<leftarrow> filter (\<lambda>k. tk_place k = Holding) ts. f k) \<le> sum_list (map g ts)"
    if "\<And>k. tk_place k = Holding \<Longrightarrow> f k \<le> g k" for ts and f g :: "task \<Rightarrow> nat"
    using that by (induction ts) (auto intro: add_mono trans_le_add2)
  from this [of tk_memory memory_held "bg_tasks b"] this [of tk_disk disk_held "bg_tasks b"] i show ?thesis
    by (auto simp: memory_held_def disk_held_def total_held_def)
qed

section \<open>A missed notification\<close>

text \<open>One task after another on a budget of one unit, as a list of tasks.\<close>

definition race :: "place \<Rightarrow> place \<Rightarrow> nat \<Rightarrow> nat \<Rightarrow> budget" where
  "race p q m d =
     \<lparr>bg_total_memory = 1, bg_total_disk = 1, bg_memory = m, bg_disk = d,
      bg_tasks = [\<lparr>tk_memory = 1, tk_disk = 1, tk_place = p\<rparr>, \<lparr>tk_memory = 1, tk_disk = 1, tk_place = q\<rparr>]\<rparr>"

lemma race_at: "at (race p q m d) 0 \<lparr>tk_memory = 1, tk_disk = 1, tk_place = p\<rparr>"
  "at (race p q m d) 1 \<lparr>tk_memory = 1, tk_disk = 1, tk_place = q\<rparr>"
  by (simp_all add: at_def race_def)

lemma race_go: "go 0 p' (race p q m d) = race p' q m d" "go (Suc 0) q' (race p q m d) = race p q' m d"
  "(race p q m d)\<lparr>bg_memory := m'\<rparr> = race p q m' d" "(race p q m d)\<lparr>bg_disk := d'\<rparr> = race p q m d'"
  "bg_memory (race p q m d) = m" "bg_disk (race p q m d) = d" "bg_total_memory (race p q m d) = 1" "bg_total_disk (race p q m d) = 1"
  by (simp_all add: go_def race_def)

lemma race_steps:
  "budget_step (race Starting q m d) (race Looping q m d)" "budget_step (race Looping q m d) (race (Loaded_memory m) q m d)"
  "budget_step (race (Loaded_memory l) q m d) (race (Loaded l d) q m d)"
  "budget_step (race (Loaded 0 0) q 0 0) (race (Claimed 0) q 1 0)" "budget_step (race (Claimed 0) q 1 0) (race Holding q 1 1)"
  "budget_step (race p Starting m d) (race p Looping m d)" "budget_step (race p Looping m d) (race p (Loaded_memory m) m d)"
  "budget_step (race p (Loaded_memory l) m d) (race p (Loaded l d) m d)"
  "budget_step (race p (Loaded 1 1) m d) (race p (Deciding 1 1) m d)"
  "budget_step (race Holding q 1 1) (race Released_memory q 0 1)" "budget_step (race Released_memory q 0 1) (race Released q 0 0)"
  "budget_step (race Released (Deciding 1 1) m d) (race Done (Deciding 1 1) m d)"
  "budget_step (race p (Deciding 1 1) m d) (race p Waiting m d)"
proof -
  note s = disjI1 [THEN budget_step_def [THEN iffD2]] disjI2 [THEN budget_step_def [THEN iffD2]]
  have n: "notify_waiters (race Released (Deciding 1 1) m d) = race Released (Deciding 1 1) m d"
    by (simp add: notify_waiters_def race_def wake_def)
  show "budget_step (race Starting q m d) (race Looping q m d)" using s(1) [OF enter [OF race_at(1) [of Starting q m d]]] by (simp add: race_go)
  show "budget_step (race Looping q m d) (race (Loaded_memory m) q m d)" using s(1) [OF load_memory [OF race_at(1) [of Looping q m d]]] by (simp add: race_go)
  show "budget_step (race (Loaded_memory l) q m d) (race (Loaded l d) q m d)" using s(1) [OF load_disk [OF race_at(1) [of "Loaded_memory l" q m d]]] by (simp add: race_go)
  show "budget_step (race (Loaded 0 0) q 0 0) (race (Claimed 0) q 1 0)"
    using s(1) [OF exchange_memory [OF race_at(1) [of "Loaded 0 0" q 0 0]]] by (simp add: race_go fits_def u64_add_def)
  show "budget_step (race (Claimed 0) q 1 0) (race Holding q 1 1)"
    using s(1) [OF exchange_disk [OF race_at(1) [of "Claimed 0" q 1 0]]] by (simp add: race_go u64_add_def)
  show "budget_step (race p Starting m d) (race p Looping m d)" using s(1) [OF enter [OF race_at(2) [of p Starting m d]]] by (simp add: race_go)
  show "budget_step (race p Looping m d) (race p (Loaded_memory m) m d)" using s(1) [OF load_memory [OF race_at(2) [of p Looping m d]]] by (simp add: race_go)
  show "budget_step (race p (Loaded_memory l) m d) (race p (Loaded l d) m d)" using s(1) [OF load_disk [OF race_at(2) [of p "Loaded_memory l" m d]]] by (simp add: race_go)
  show "budget_step (race p (Loaded 1 1) m d) (race p (Deciding 1 1) m d)"
    using s(1) [OF not_enough [OF race_at(2) [of p "Loaded 1 1" m d]]] by (simp add: race_go fits_def u64_add_def)
  show "budget_step (race Holding q 1 1) (race Released_memory q 0 1)"
    using s(2) [OF release_memory [OF race_at(1) [of Holding q 1 1]]] by (simp add: race_go u64_sub_def)
  show "budget_step (race Released_memory q 0 1) (race Released q 0 0)"
    using s(2) [OF release_disk [OF race_at(1) [of Released_memory q 0 1]]] by (simp add: race_go u64_sub_def)
  show "budget_step (race Released (Deciding 1 1) m d) (race Done (Deciding 1 1) m d)"
    using s(2) [OF release_notifies [OF race_at(1) [of Released "Deciding 1 1" m d]]] n by (simp add: race_go)
  show "budget_step (race p (Deciding 1 1) m d) (race p Waiting m d)" using s(1) [OF registers [OF race_at(2) [of p "Deciding 1 1" m d]]] by (simp add: race_go)
qed

lemma race_start: "budget_new 1 1 [(1, 1), (1, 1)] = race Starting Starting 0 0"
  by (simp add: budget_new_def race_def)

lemma race_holds: "budget_step\<^sup>*\<^sup>* (race Starting Starting 0 0) (race Holding Starting 1 1)"
  by (meson race_steps(1-5) converse_rtranclp_into_rtranclp rtranclp.rtrancl_refl)

lemma race_misses: "budget_step\<^sup>*\<^sup>* (race Holding Starting 1 1) (race Done Waiting 0 0)"
  by (meson race_steps(6-13) converse_rtranclp_into_rtranclp rtranclp.rtrancl_refl)

theorem budget_never_oversubscribed_witness: "bg_memory (race Holding Starting 1 1) = total_held memory_held (race Holding Starting 1 1)"
  using budget_never_oversubscribed [of 1 1 "[(1, 1), (1, 1)]"] race_holds unfolding race_start by simp

text \<open>C38. A task can miss its notification: it finds too little free, and before it registers with the notifier the
  last task that holds anything releases all of it and notifies nobody. Then the whole budget is free, the task
  waits, and nothing can happen any more but that its wait elapses.\<close>
theorem release_notification_missed:
  "\<exists>b. budget_step\<^sup>*\<^sup>* (budget_new 1 1 [(1, 1), (1, 1)]) b \<and> available_memory_mb b = 1 \<and> available_disk_mb b = 1 \<and>
     map tk_place (bg_tasks b) = [Done, Waiting] \<and> {c. budget_step b c} = {go 1 Looping b}"
proof -
  let ?b = "race Done Waiting 0 0"
  have "budget_step ?b (go 1 Looping ?b)"
    unfolding budget_step_def by (rule disjI1, rule wait_elapses [OF race_at(2)]) simp
  moreover have "c = go 1 Looping ?b" if "budget_step ?b c" for c
    using that unfolding budget_step_def
    by (auto elim!: acquire_step.cases release_step.cases simp: at_def race_def less_Suc_eq nth_Cons')
  ultimately have "{c. budget_step ?b c} = {go 1 Looping ?b}" by blast
  moreover have "budget_step\<^sup>*\<^sup>* (budget_new 1 1 [(1, 1), (1, 1)]) ?b"
    using race_holds race_misses unfolding race_start by (rule rtranclp_trans)
  ultimately show ?thesis
    by (intro exI [of _ ?b]) (simp add: available_memory_mb_def available_disk_mb_def race_def)
qed

end
