(* ===== verification/Hot_Ip.thy ===== *)
theory Hot_Ip
  imports Hot_Conf "HOL-Library.Word"
begin

unbundle bit_operations_syntax

text \<open>
  Internet addresses as \<^verbatim>\<open>std::net\<close> has them: \<^verbatim>\<open>Ipv4Addr\<close> is a 32-bit and \<^verbatim>\<open>Ipv6Addr\<close> a 128-bit word, most
  significant octet first, with the classifications, the text form and the parser that the outbound policy and
  the client address resolver call. Ranges of the \<^verbatim>\<open>ipnet\<close> crate are a parameter: the record \<open>nets\<close> is what the
  code uses of them, and \<open>nets_ok\<close> what it relies on.
\<close>

section \<open>Addresses\<close>

datatype ip = V4 "32 word" | V6 "128 word"

definition octet :: "nat \<Rightarrow> 32 word \<Rightarrow> 8 word" where
  "octet i a = ucast (drop_bit (24 - 8 * i) a)"

definition segment :: "nat \<Rightarrow> 128 word \<Rightarrow> 16 word" where
  "segment i a = ucast (drop_bit (112 - 16 * i) a)"

definition of_octets :: "nat list \<Rightarrow> 32 word" where
  "of_octets os = of_nat (foldl (\<lambda>n x. n * 2 ^ 8 + x) 0 os)"

definition of_segments :: "nat list \<Rightarrow> 128 word" where
  "of_segments ss = of_nat (foldl (\<lambda>n x. n * 2 ^ 16 + x) 0 ss)"

definition to_ipv4_mapped :: "128 word \<Rightarrow> 32 word option" where
  "to_ipv4_mapped a = (if drop_bit 32 a = 0xffff then Some (ucast a) else None)"

definition v4_is_unspecified :: "32 word \<Rightarrow> bool" where "v4_is_unspecified a \<longleftrightarrow> a = 0"
definition v4_is_loopback :: "32 word \<Rightarrow> bool" where "v4_is_loopback a \<longleftrightarrow> octet 0 a = 127"
definition v4_is_link_local :: "32 word \<Rightarrow> bool" where "v4_is_link_local a \<longleftrightarrow> octet 0 a = 169 \<and> octet 1 a = 254"
definition v4_is_broadcast :: "32 word \<Rightarrow> bool" where "v4_is_broadcast a \<longleftrightarrow> a = 0xffffffff"
definition v4_is_multicast :: "32 word \<Rightarrow> bool" where "v4_is_multicast a \<longleftrightarrow> 224 \<le> octet 0 a \<and> octet 0 a \<le> 239"

definition v4_is_private :: "32 word \<Rightarrow> bool" where
  "v4_is_private a \<longleftrightarrow>
     octet 0 a = 10 \<or> octet 0 a = 172 \<and> 16 \<le> octet 1 a \<and> octet 1 a \<le> 31 \<or> octet 0 a = 192 \<and> octet 1 a = 168"

definition v6_is_unspecified :: "128 word \<Rightarrow> bool" where "v6_is_unspecified a \<longleftrightarrow> a = 0"
definition v6_is_loopback :: "128 word \<Rightarrow> bool" where "v6_is_loopback a \<longleftrightarrow> a = 1"
definition v6_is_multicast :: "128 word \<Rightarrow> bool" where "v6_is_multicast a \<longleftrightarrow> segment 0 a AND 0xff00 = 0xff00"

section \<open>The text of an address\<close>

definition show_v4 :: "32 word \<Rightarrow> string" where
  "show_v4 a = join ''.'' (map (\<lambda>i. show_nat (unat (octet i a))) [0, 1, 2, 3])"

definition hex_digit :: "nat \<Rightarrow> char" where
  "hex_digit n = char_of (if n < 10 then 48 + n else 87 + n)"

fun show_hex :: "nat \<Rightarrow> string" where
  "show_hex n = (if n < 16 then [hex_digit n] else show_hex (n div 16) @ [hex_digit (n mod 16)])"

declare show_hex.simps [simp del]

text \<open>The first of the longest runs of zeros, as its start and length: the loop of \<^verbatim>\<open>Ipv6Addr\<close>'s \<^verbatim>\<open>Display\<close>, with
  the longest and the current run.\<close>

fun longest_zeros :: "nat \<Rightarrow> nat \<times> nat \<Rightarrow> nat \<times> nat \<Rightarrow> nat list \<Rightarrow> nat \<times> nat" where
  "longest_zeros i longest current [] = longest"
| "longest_zeros i longest current (s # ss) =
     (if s = 0
      then let current' = (if snd current = 0 then i else fst current, snd current + 1)
           in longest_zeros (i + 1) (if snd longest < snd current' then current' else longest) current' ss
      else longest_zeros (i + 1) longest (0, 0) ss)"

definition show_v6 :: "128 word \<Rightarrow> string" where
  "show_v6 a =
     (case to_ipv4_mapped a of
        Some v4 \<Rightarrow> ''::ffff:'' @ show_v4 v4
      | None \<Rightarrow>
          (let segments = map (\<lambda>i. unat (segment i a)) [0..<8];
               fmt = \<lambda>ss. join '':'' (map show_hex ss);
               (start, len) = longest_zeros 0 (0, 0) (0, 0) segments
           in if 1 < len then fmt (take start segments) @ ''::'' @ fmt (drop (start + len) segments)
              else fmt segments))"

primrec show_ip :: "ip \<Rightarrow> string" where
  "show_ip (V4 a) = show_v4 a"
| "show_ip (V6 a) = show_v6 a"

text \<open>The parser: every reader returns what it read and the rest of the text. A number has at most \<open>digits\<close>
  digits, and with \<open>zeros\<close> false no leading zero.\<close>

definition digit_value :: "nat \<Rightarrow> char \<Rightarrow> nat option" where
  "digit_value radix c =
     (let n = (if is_ascii_digit c then of_char c - 48
               else if is_ascii_lowercase c then of_char c - 87
               else if is_ascii_uppercase c then of_char c - 55 else radix)
      in if n < radix then Some n else None)"

definition read_number :: "nat \<Rightarrow> nat \<Rightarrow> bool \<Rightarrow> nat \<Rightarrow> string \<Rightarrow> (nat \<times> string) option" where
  "read_number radix digits zeros bound s =
     (let ds = takeWhile (\<lambda>c. digit_value radix c \<noteq> None) s;
          n = foldl (\<lambda>n c. n * radix + the (digit_value radix c)) 0 ds
      in if ds = [] \<or> digits < length ds \<or> bound \<le> n \<or> \<not> zeros \<and> 1 < length ds \<and> hd ds = CHR ''0'' then None
         else Some (n, drop (length ds) s))"

definition read_separator :: "char \<Rightarrow> nat \<Rightarrow> (string \<Rightarrow> ('a \<times> string) option) \<Rightarrow> string \<Rightarrow> ('a \<times> string) option" where
  "read_separator sep i reader s =
     (if i = 0 then reader s
      else case s of c # cs \<Rightarrow> if c = sep then reader cs else None | [] \<Rightarrow> None)"

fun read_octets :: "nat \<Rightarrow> nat \<Rightarrow> string \<Rightarrow> (nat list \<times> string) option" where
  "read_octets i 0 s = Some ([], s)"
| "read_octets i (Suc n) s =
     (case read_separator CHR ''.'' i (read_number 10 3 False 256) s of
        Some (x, s') \<Rightarrow> (case read_octets (i + 1) n s' of Some (xs, s'') \<Rightarrow> Some (x # xs, s'') | None \<Rightarrow> None)
      | None \<Rightarrow> None)"

definition read_ipv4 :: "string \<Rightarrow> (nat list \<times> string) option" where
  "read_ipv4 s = read_octets 0 4 s"

text \<open>\<^verbatim>\<open>read_groups\<close>: up to \<open>n\<close> more groups after the first \<open>i\<close>; the last two may be a dotted IPv4 address, which
  ends the groups and is reported.\<close>

fun read_groups :: "nat \<Rightarrow> nat \<Rightarrow> string \<Rightarrow> nat list \<times> bool \<times> string" where
  "read_groups i 0 s = ([], False, s)"
| "read_groups i (Suc n) s =
     (case (if 0 < n then read_separator CHR '':'' i read_ipv4 s else None) of
        Some ([a, b, c, d], s') \<Rightarrow> ([a * 256 + b, c * 256 + d], True, s')
      | _ \<Rightarrow>
          (case read_separator CHR '':'' i (read_number 16 4 True 65536) s of
             Some (g, s') \<Rightarrow> (case read_groups (i + 1) n s' of (gs, r) \<Rightarrow> (g # gs, r))
           | None \<Rightarrow> ([], False, s)))"

definition read_ipv6 :: "string \<Rightarrow> (nat list \<times> string) option" where
  "read_ipv6 s =
     (case read_groups 0 8 s of
        (head, dotted, s1) \<Rightarrow>
          if length head = 8 then Some (head, s1)
          else if dotted \<or> \<not> starts_with s1 ''::'' then None
          else case read_groups 0 (7 - length head) (drop 2 s1) of
                 (tail, _, s2) \<Rightarrow> Some (head @ replicate (8 - length head - length tail) 0 @ tail, s2))"

definition parse_ip :: "string \<Rightarrow> ip option" where
  "parse_ip s =
     (case read_ipv4 s of
        Some (os, []) \<Rightarrow> Some (V4 (of_octets os))
      | Some _ \<Rightarrow> None
      | None \<Rightarrow> (case read_ipv6 s of Some (ss, []) \<Rightarrow> Some (V6 (of_segments ss)) | _ \<Rightarrow> None))"

section \<open>Ranges\<close>

record 'n nets =
  net_contains :: "'n \<Rightarrow> ip \<Rightarrow> bool"
  net_parse :: "string \<Rightarrow> 'n option"
  net_of :: "ip \<Rightarrow> 'n"
  net_trunc :: "'n \<Rightarrow> 'n"
  net_v6 :: "'n \<Rightarrow> (128 word \<times> nat) option"
  net_v4 :: "32 word \<Rightarrow> nat \<Rightarrow> 'n option"

text \<open>What the code relies on: \<open>net_v6\<close> gives the network address and the prefix length of an IPv6 range,
  \<open>net_v4\<close> makes the IPv4 range with a prefix of at most 32 bits, and a range contains the addresses of its own
  family that agree with it on the prefix. Clearing the bits of a range beyond its prefix (\<open>net_trunc\<close>) keeps what it
  contains.\<close>

definition nets_ok :: "'n nets \<Rightarrow> bool" where
  "nets_ok N \<longleftrightarrow>
     (\<forall>n nw p ip. net_v6 N n = Some (nw, p) \<longrightarrow>
        p \<le> 128 \<and> (net_contains N n ip \<longleftrightarrow> (\<exists>a. ip = V6 a \<and> unat a div 2 ^ (128 - p) = unat nw div 2 ^ (128 - p)))) \<and>
     (\<forall>nw p. p \<le> 32 \<longrightarrow>
        (\<exists>n. net_v4 N nw p = Some n \<and>
           (\<forall>ip. net_contains N n ip \<longleftrightarrow> (\<exists>a. ip = V4 a \<and> unat a div 2 ^ (32 - p) = unat nw div 2 ^ (32 - p))))) \<and>
     (\<forall>n ip. net_contains N (net_trunc N n) ip \<longleftrightarrow> net_contains N n ip)"

section \<open>Prefixes\<close>

lemma unat_drop: "unat (drop_bit k a) = unat a div 2 ^ k"
  by (simp add: unat_drop_bit_eq drop_bit_eq_div [of k "unat a"])

lemma masked_eq_iff:
  fixes a b :: "'w::len word"
  shows "a AND NOT (mask k) = b AND NOT (mask k) \<longleftrightarrow> unat a div 2 ^ k = unat b div 2 ^ k"
proof -
  have "a AND NOT (mask k) = b AND NOT (mask k) \<longleftrightarrow> drop_bit k a = drop_bit k b"
  proof
    assume m: "a AND NOT (mask k) = b AND NOT (mask k)"
    show "drop_bit k a = drop_bit k b"
    proof (rule bit_word_eqI)
      fix n
      assume "n < LENGTH('w)"
      from m have "bit (a AND NOT (mask k)) (k + n) = bit (b AND NOT (mask k)) (k + n)" by simp
      then show "bit (drop_bit k a) n = bit (drop_bit k b) n"
        by (auto simp: bit_simps dest: bit_imp_le_length)
    qed
  next
    assume d: "drop_bit k a = drop_bit k b"
    show "a AND NOT (mask k) = b AND NOT (mask k)"
    proof (rule bit_word_eqI)
      fix n
      assume "n < LENGTH('w)"
      from d have "bit (drop_bit k a) (n - k) = bit (drop_bit k b) (n - k)" by simp
      then show "bit (a AND NOT (mask k)) n = bit (b AND NOT (mask k)) n"
        by (auto simp: bit_simps)
    qed
  qed
  also have "\<dots> \<longleftrightarrow> unat a div 2 ^ k = unat b div 2 ^ k" by (simp add: word_unat_eq_iff unat_drop)
  finally show ?thesis .
qed

lemma unat_octet: "unat (octet i a) = unat a div 2 ^ (24 - 8 * i) mod 256"
  by (simp add: octet_def unsigned_ucast_eq take_bit_eq_mod unat_drop)

lemma unat_segment: "unat (segment i a) = unat a div 2 ^ (112 - 16 * i) mod 65536"
  by (simp add: segment_def unsigned_ucast_eq take_bit_eq_mod unat_drop)

lemma octet_eq_iff: "octet i a = w \<longleftrightarrow> unat a div 2 ^ (24 - 8 * i) mod 256 = unat w"
  by (simp add: unat_octet [symmetric] word_unat_eq_iff)

section \<open>Evaluating the parser\<close>

lemma read_octets_numeral:
  "read_octets i (numeral k) s =
     (case read_separator CHR ''.'' i (read_number 10 3 False 256) s of
        Some (x, s') \<Rightarrow> (case read_octets (i + 1) (pred_numeral k) s' of Some (xs, s'') \<Rightarrow> Some (x # xs, s'') | None \<Rightarrow> None)
      | None \<Rightarrow> None)"
  by (simp add: numeral_eq_Suc)

lemma read_groups_numeral:
  "read_groups i (numeral k) s =
     (case (if 0 < pred_numeral k then read_separator CHR '':'' i read_ipv4 s else None) of
        Some ([a, b, c, d], s') \<Rightarrow> ([a * 256 + b, c * 256 + d], True, s')
      | _ \<Rightarrow>
          (case read_separator CHR '':'' i (read_number 16 4 True 65536) s of
             Some (g, s') \<Rightarrow> (case read_groups (i + 1) (pred_numeral k) s' of (gs, r) \<Rightarrow> (g # gs, r))
           | None \<Rightarrow> ([], False, s)))"
  by (simp add: numeral_eq_Suc)

lemma replicate_pred: "replicate (numeral k) x = x # replicate (pred_numeral k) x"
  by (simp add: numeral_eq_Suc)

lemmas parse_eval = parse_ip_def read_ipv4_def read_ipv6_def read_octets_numeral read_groups_numeral replicate_pred
  read_separator_def read_number_def digit_value_def is_ascii_digit_def is_ascii_lowercase_def is_ascii_uppercase_def
  less_eq_char_def starts_with_def

end
