(* ===== verification/Hot_Outbound.thy ===== *)
theory Hot_Outbound
  imports Hot_Ip "HOL-Library.Product_Lexorder"
begin

unbundle bit_operations_syntax

text \<open>
  Where user code may connect: \<^verbatim>\<open>crates/hot/src/outbound.rs\<close>. URLs (the \<^verbatim>\<open>url\<close> crate), address ranges (\<^verbatim>\<open>ipnet\<close>), the
  resolver and the HTTP client builder are parameters. The error texts are the values of \<open>out_error\<close>.
\<close>

section \<open>Addresses\<close>

definition ipv4_in :: "32 word \<Rightarrow> nat list \<Rightarrow> nat \<Rightarrow> bool" where
  "ipv4_in a network bits =
     (let mask = if bits = 0 then 0 else push_bit (32 - bits) (- 1)
      in a AND mask = of_octets network AND mask)"

definition ipv6_in :: "128 word \<Rightarrow> nat list \<Rightarrow> nat \<Rightarrow> bool" where
  "ipv6_in a network bits =
     (let mask = if bits = 0 then 0 else push_bit (128 - bits) (- 1)
      in a AND mask = of_segments network AND mask)"

definition embedded_ipv4 :: "128 word \<Rightarrow> 32 word option" where
  "embedded_ipv4 a =
     (case to_ipv4_mapped a of
        Some v4 \<Rightarrow> Some v4
      | None \<Rightarrow>
          if ipv6_in a [0, 0, 0, 0, 0, 0, 0, 0] 96 \<or> ipv6_in a [0x64, 0xff9b, 0, 0, 0, 0, 0, 0] 96
          then let v = push_bit 16 (ucast (segment 6 a)) OR ucast (segment 7 a) :: 32 word
               in if 1 < v then Some v else None
          else None)"

definition public_v4 :: "32 word \<Rightarrow> bool" where
  "public_v4 a \<longleftrightarrow>
     \<not> v4_is_unspecified a \<and> \<not> v4_is_loopback a \<and> \<not> v4_is_private a \<and> \<not> v4_is_link_local a \<and>
     \<not> v4_is_broadcast a \<and> \<not> v4_is_multicast a \<and>
     \<not> ipv4_in a [0, 0, 0, 0] 8 \<and> \<not> ipv4_in a [100, 64, 0, 0] 10 \<and> \<not> ipv4_in a [192, 0, 0, 0] 24 \<and>
     \<not> ipv4_in a [192, 0, 2, 0] 24 \<and> \<not> ipv4_in a [198, 18, 0, 0] 15 \<and> \<not> ipv4_in a [198, 51, 100, 0] 24 \<and>
     \<not> ipv4_in a [203, 0, 113, 0] 24 \<and> \<not> ipv4_in a [240, 0, 0, 0] 4"

primrec is_public_destination :: "ip \<Rightarrow> bool" where
  "is_public_destination (V4 a) = public_v4 a"
| "is_public_destination (V6 a) =
     (\<not> v6_is_unspecified a \<and> \<not> v6_is_loopback a \<and> \<not> v6_is_multicast a \<and>
      \<not> ipv6_in a [0xfc00, 0, 0, 0, 0, 0, 0, 0] 7 \<and> \<not> ipv6_in a [0xfe80, 0, 0, 0, 0, 0, 0, 0] 10 \<and>
      \<not> ipv6_in a [0x2001, 0x0db8, 0, 0, 0, 0, 0, 0] 32 \<and> \<not> ipv6_in a [0x2002, 0, 0, 0, 0, 0, 0, 0] 16 \<and>
      \<not> ipv6_in a [0x2001, 0, 0, 0, 0, 0, 0, 0] 32 \<and>
      (case embedded_ipv4 a of Some v4 \<Rightarrow> public_v4 v4 | None \<Rightarrow> True))"

primrec canonical :: "ip \<Rightarrow> ip" where
  "canonical (V4 a) = V4 a"
| "canonical (V6 a) = (case embedded_ipv4 a of Some v4 \<Rightarrow> V4 v4 | None \<Rightarrow> V6 a)"

definition is_always_denied :: "ip \<Rightarrow> bool" where
  "is_always_denied ip =
     (case canonical ip of
        V4 a \<Rightarrow>
          v4_is_unspecified a \<or> v4_is_loopback a \<or> v4_is_link_local a \<or> v4_is_broadcast a \<or> v4_is_multicast a \<or>
          ipv4_in a [0, 0, 0, 0] 8 \<or> ipv4_in a [240, 0, 0, 0] 4
      | V6 a \<Rightarrow>
          v6_is_unspecified a \<or> v6_is_loopback a \<or> v6_is_multicast a \<or>
          ipv6_in a [0xfe80, 0, 0, 0, 0, 0, 0, 0] 10 \<or>
          a = of_segments [0xfd00, 0xec2, 0, 0, 0, 0, 0, 0x254] \<or>
          a = of_segments [0xfd20, 0xce, 0, 0, 0, 0, 0, 0x254])"

section \<open>Settings\<close>

datatype out_error =
    Not_a_hostname string
  | Not_a_range string string
  | Proxy_not_a_url
  | Proxy_not_http
  | Isolation_required
  | Blocked ip
  | Resolve_failed string
  | No_addresses string
  | No_host
  | No_port
  | Invalid_proxy
  | Not_http
  | Build_failed

definition str_setting :: "('d, 'b) val_env \<Rightarrow> ('d, 'b) val \<Rightarrow> string" where
  "str_setting E v = (case v of VStr s \<Rightarrow> s | _ \<Rightarrow> trim_quotes (display E v))"

definition conf_list :: "('d, 'b) val_env \<Rightarrow> ('d, 'b) val \<Rightarrow> string \<Rightarrow> string list" where
  "conf_list E conf key =
     (let entries = (case val_get conf key of
                       Some (VVec items) \<Rightarrow> map (\<lambda>item. trim_quotes (display E item)) items
                     | Some v \<Rightarrow> split_on CHR '','' (str_setting E v)
                     | None \<Rightarrow> [])
      in filter (\<lambda>entry. entry \<noteq> []) (map trim entries))"

fun collect :: "('a \<Rightarrow> 'e + 'b) \<Rightarrow> 'a list \<Rightarrow> 'e + 'b list" where
  "collect f [] = Inr []"
| "collect f (x # xs) =
     (case f x of
        Inl e \<Rightarrow> Inl e
      | Inr y \<Rightarrow> (case collect f xs of Inl e \<Rightarrow> Inl e | Inr ys \<Rightarrow> Inr (y # ys)))"

definition canonical_net :: "'n nets \<Rightarrow> 'n \<Rightarrow> 'n" where
  "canonical_net N net =
     (case net_v6 N net of
        None \<Rightarrow> net
      | Some (network, prefix_len) \<Rightarrow>
          (let embeds_ipv4 = to_ipv4_mapped network \<noteq> None \<or>
                 ipv6_in network [0, 0, 0, 0, 0, 0, 0, 0] 96 \<or>
                 ipv6_in network [0x64, 0xff9b, 0, 0, 0, 0, 0, 0] 96
           in if prefix_len < 96 \<or> \<not> embeds_ipv4 then net
              else case net_v4 N (ucast (network AND 0xffffffff)) (prefix_len - 96) of
                     Some v4 \<Rightarrow> net_trunc N v4
                   | None \<Rightarrow> net))"

definition read_net :: "'n nets \<Rightarrow> string \<Rightarrow> 'n option" where
  "read_net N entry =
     (case net_parse N entry of
        Some net \<Rightarrow> Some net
      | None \<Rightarrow> map_option (net_of N) (parse_ip entry))"

definition conf_cidrs :: "('d, 'b) val_env \<Rightarrow> 'n nets \<Rightarrow> ('d, 'b) val \<Rightarrow> string \<Rightarrow> out_error + 'n list" where
  "conf_cidrs E N conf key =
     collect (\<lambda>entry. case read_net N entry of
                        Some net \<Rightarrow> Inr (canonical_net N (net_trunc N net))
                      | None \<Rightarrow> Inl (Not_a_range key entry))
       (conf_list E conf key)"

datatype host = Domain string | Literal ip

record 'u urls =
  url_parse :: "string \<Rightarrow> 'u option"
  url_scheme :: "'u \<Rightarrow> string"
  url_host :: "'u \<Rightarrow> host option"
  url_path :: "'u \<Rightarrow> string"
  port_or_known_default :: "'u \<Rightarrow> nat option"

definition egress_proxy_setting :: "('d, 'b) val_env \<Rightarrow> 'u urls \<Rightarrow> ('d, 'b) val \<Rightarrow> out_error + 'u option" where
  "egress_proxy_setting E U conf =
     (case val_get conf ''network.egress-proxy'' of
        None \<Rightarrow> Inr None
      | Some v \<Rightarrow>
          (let raw = trim (str_setting E v)
           in if raw = [] then Inr None
              else case url_parse U raw of
                     None \<Rightarrow> Inl Proxy_not_a_url
                   | Some url \<Rightarrow>
                       if url_scheme U url \<notin> {''http'', ''https''} \<or> url_host U url = None \<or> url_path U url \<noteq> ''/''
                       then Inl Proxy_not_http else Inr (Some url)))"

section \<open>Rules\<close>

record ('n, 'u) outbound_rules =
  allow_cidrs :: "'n list"
  allow_hosts :: "string list"
  deny_cidrs :: "'n list"
  rules_proxy :: "'u option"

datatype legacy_allow_private = Honor | Ignore

definition allow_host_entry :: "string \<Rightarrow> out_error + string" where
  "allow_host_entry entry =
     (let host = to_ascii_lowercase entry;
          name = (case strip_prefix host ''*.'' of Some n \<Rightarrow> n | None \<Rightarrow> host)
      in if name = [] \<or> CHR ''*'' \<in> set name \<or> CHR ''/'' \<in> set name \<or> CHR '':'' \<in> set name
         then Inl (Not_a_hostname host) else Inr host)"

definition rules_parse :: "('d, 'b) val_env \<Rightarrow> 'n nets \<Rightarrow> 'u urls \<Rightarrow> ('d, 'b) val \<Rightarrow> legacy_allow_private \<Rightarrow>
    out_error + ('n, 'u) outbound_rules option" where
  "rules_parse E N U conf legacy =
     (case conf_cidrs E N conf ''network.allow-cidrs'' of
        Inl e \<Rightarrow> Inl e
      | Inr listed \<Rightarrow>
          (let allow = listed @
                 (if legacy = Honor \<and> get_bool_or_default conf ''network.allow-private'' False
                  then map (\<lambda>net. the (net_parse N net)) [''0.0.0.0/0'', ''::/0''] else [])
           in case collect allow_host_entry (conf_list E conf ''network.allow-hosts'') of
                Inl e \<Rightarrow> Inl e
              | Inr hosts \<Rightarrow>
                  (case conf_cidrs E N conf ''network.deny-cidrs'' of
                     Inl e \<Rightarrow> Inl e
                   | Inr deny \<Rightarrow>
                       (case egress_proxy_setting E U conf of
                          Inl e \<Rightarrow> Inl e
                        | Inr proxy \<Rightarrow>
                            Inr (if allow = [] \<and> hosts = [] \<and> deny = [] \<and> proxy = None then None
                                 else Some \<lparr>allow_cidrs = allow, allow_hosts = hosts, deny_cidrs = deny, rules_proxy = proxy\<rparr>)))))"

definition from_conf :: "('d, 'b) val_env \<Rightarrow> 'n nets \<Rightarrow> 'u urls \<Rightarrow> ('d, 'b) val \<Rightarrow> out_error + ('n, 'u) outbound_rules option" where
  "from_conf E N U conf = rules_parse E N U conf Honor"

text \<open>\<^verbatim>\<open>s.trim_end_matches('.')\<close> and \<^verbatim>\<open>s.strip_suffix(t)\<close>.\<close>

definition trim_dots :: "string \<Rightarrow> string" where
  "trim_dots s = rev (dropWhile (\<lambda>c. c = CHR ''.'') (rev s))"

definition strip_suffix :: "string \<Rightarrow> string \<Rightarrow> string option" where
  "strip_suffix s t = map_option rev (strip_prefix (rev s) (rev t))"

definition allows_host :: "('n, 'u) outbound_rules \<Rightarrow> string \<Rightarrow> bool" where
  "allows_host rules name =
     (let host = to_ascii_lowercase (trim_dots name)
      in list_ex (\<lambda>allowed. case strip_prefix allowed ''*.'' of
                    Some domain \<Rightarrow>
                      (case strip_suffix host domain of
                         Some sub \<Rightarrow> sub \<noteq> [] \<and> last sub = CHR ''.'' \<and> 1 < length sub
                       | None \<Rightarrow> False)
                  | None \<Rightarrow> allowed = host)
           (allow_hosts rules))"

definition allows :: "'n nets \<Rightarrow> ('n, 'u) outbound_rules \<Rightarrow> string option \<Rightarrow> ip \<Rightarrow> bool" where
  "allows N rules host ip =
     (let ip = canonical ip
      in if is_always_denied ip \<or> list_ex (\<lambda>net. net_contains N net ip) (deny_cidrs rules) then False
         else is_public_destination ip \<or> list_ex (\<lambda>net. net_contains N net ip) (allow_cidrs rules) \<or>
              (case host of Some name \<Rightarrow> allows_host rules name | None \<Rightarrow> False))"

section \<open>Policies\<close>

datatype ('n, 'u) policy =
    AllowPrivate
  | AllowPrivateViaProxy 'u
  | PublicOnly
  | Restricted "('n, 'u) outbound_rules"

definition without_isolation :: "('d, 'b) val_env \<Rightarrow> 'u urls \<Rightarrow> ('d, 'b) val \<Rightarrow> ('n, 'u) policy" where
  "without_isolation E U conf =
     (case egress_proxy_setting E U conf of
        Inr None \<Rightarrow> AllowPrivate
      | Inr (Some proxy) \<Rightarrow> AllowPrivateViaProxy proxy
      | Inl _ \<Rightarrow> PublicOnly)"

definition for_isolated :: "('d, 'b) val_env \<Rightarrow> 'n nets \<Rightarrow> 'u urls \<Rightarrow> ('d, 'b) val \<Rightarrow> legacy_allow_private \<Rightarrow> ('n, 'u) policy" where
  "for_isolated E N U conf legacy =
     (case rules_parse E N U conf legacy of
        Inr (Some rules) \<Rightarrow> Restricted rules
      | Inr None \<Rightarrow> PublicOnly
      | Inl _ \<Rightarrow> PublicOnly)"

definition from_vm :: "('d, 'b) val_env \<Rightarrow> 'n nets \<Rightarrow> 'u urls \<Rightarrow> bool \<Rightarrow> ('d, 'b) val \<Rightarrow> ('n, 'u) policy" where
  "from_vm E N U isolation_enabled conf =
     (if isolation_enabled then for_isolated E N U conf Honor else without_isolation E U conf)"

definition for_alert_delivery :: "('d, 'b) val_env \<Rightarrow> 'n nets \<Rightarrow> 'u urls \<Rightarrow> ('d, 'b) val \<Rightarrow> ('n, 'u) policy" where
  "for_alert_delivery E N U conf =
     (if \<not> get_bool_or_default conf ''engine.isolation'' False \<and> get_bool_or_default conf ''network.allow-private'' False
      then without_isolation E U conf else for_isolated E N U conf Ignore)"

definition restricts_destinations :: "('n, 'u) policy \<Rightarrow> bool" where
  "restricts_destinations p = (case p of PublicOnly \<Rightarrow> True | Restricted _ \<Rightarrow> True | _ \<Rightarrow> False)"

definition egress_proxy :: "('n, 'u) policy \<Rightarrow> 'u option" where
  "egress_proxy p =
     (case p of Restricted rules \<Rightarrow> rules_proxy rules | AllowPrivateViaProxy proxy \<Rightarrow> Some proxy | _ \<Rightarrow> None)"

definition check :: "'n nets \<Rightarrow> ('n, 'u) policy \<Rightarrow> string option \<Rightarrow> ip \<Rightarrow> out_error + unit" where
  "check N p host ip =
     (let allowed = (case p of
                       AllowPrivate \<Rightarrow> True
                     | AllowPrivateViaProxy _ \<Rightarrow> True
                     | PublicOnly \<Rightarrow> is_public_destination ip
                     | Restricted rules \<Rightarrow> allows N rules host ip)
      in if allowed then Inr () else Inl (Blocked ip))"

definition validate_ip :: "'n nets \<Rightarrow> ('n, 'u) policy \<Rightarrow> ip \<Rightarrow> out_error + unit" where
  "validate_ip N p ip = check N p None ip"

section \<open>Connections\<close>

text \<open>A socket address, with the flow label and scope of an IPv6 one; \<open>sock_key\<close> is the order of
  \<^verbatim>\<open>SocketAddr\<close>: IPv4 first, then address, port, flow label and scope.\<close>

record sock =
  sock_ip :: ip
  sock_port :: nat
  sock_flow :: nat
  sock_scope :: nat

definition sock_key :: "sock \<Rightarrow> nat \<times> nat \<times> nat \<times> nat \<times> nat" where
  "sock_key a =
     (case sock_ip a of
        V4 w \<Rightarrow> (0, unat w, sock_port a, 0, 0)
      | V6 w \<Rightarrow> (1, unat w, sock_port a, sock_flow a, sock_scope a))"

definition resolve_host :: "'n nets \<Rightarrow> (string \<Rightarrow> nat \<Rightarrow> sock list option) \<Rightarrow> ('n, 'u) policy \<Rightarrow> string \<Rightarrow> nat \<Rightarrow> out_error + sock list" where
  "resolve_host N lookup p host port =
     (case lookup host port of
        None \<Rightarrow> Inl (Resolve_failed host)
      | Some found \<Rightarrow>
          (let addrs = remdups_adj (sort_key sock_key found)
           in if addrs = [] then Inl (No_addresses host)
              else case collect (\<lambda>a. check N p (Some host) (sock_ip a)) addrs of
                     Inl e \<Rightarrow> Inl e
                   | Inr _ \<Rightarrow> Inr addrs))"

definition resolve_url :: "'n nets \<Rightarrow> 'u urls \<Rightarrow> (string \<Rightarrow> nat \<Rightarrow> sock list option) \<Rightarrow> ('n, 'u) policy \<Rightarrow> 'u \<Rightarrow> out_error + sock list" where
  "resolve_url N U lookup p url =
     (case url_host U url of
        None \<Rightarrow> Inl No_host
      | Some host \<Rightarrow>
          (case port_or_known_default U url of
             None \<Rightarrow> Inl No_port
           | Some port \<Rightarrow>
               (case host of
                  Domain name \<Rightarrow> resolve_host N lookup p name port
                | Literal ip \<Rightarrow> resolve_host N lookup p (show_ip ip) port)))"

record ('u, 'r, 'c) http =
  set_proxy :: "'u \<Rightarrow> 'r \<Rightarrow> 'r option"
  set_no_proxy :: "'r \<Rightarrow> 'r"
  resolve_to_addrs :: "string \<Rightarrow> sock list \<Rightarrow> 'r \<Rightarrow> 'r"
  new_client :: "nat \<Rightarrow> nat \<Rightarrow> 'r"
  build :: "'r \<Rightarrow> 'c option"

definition route :: "'n nets \<Rightarrow> 'u urls \<Rightarrow> ('u, 'r, 'c) http \<Rightarrow> (string \<Rightarrow> nat \<Rightarrow> sock list option) \<Rightarrow>
    ('n, 'u) policy \<Rightarrow> 'u \<Rightarrow> 'r \<Rightarrow> out_error + 'r" where
  "route N U H lookup p url builder =
     (case url_host U url of
        None \<Rightarrow> Inl No_host
      | Some host \<Rightarrow>
          (case egress_proxy p of
             Some proxy \<Rightarrow>
               (case (case host of Literal ip \<Rightarrow> check N p None ip | Domain _ \<Rightarrow> Inr ()) of
                  Inl e \<Rightarrow> Inl e
                | Inr _ \<Rightarrow> (case set_proxy H proxy builder of Some b \<Rightarrow> Inr b | None \<Rightarrow> Inl Invalid_proxy))
           | None \<Rightarrow>
               (case resolve_url N U lookup p url of
                  Inl e \<Rightarrow> Inl e
                | Inr addrs \<Rightarrow>
                    (let b = (if restricts_destinations p then set_no_proxy H builder else builder)
                     in Inr (case host of Domain d \<Rightarrow> resolve_to_addrs H d addrs b | Literal _ \<Rightarrow> b)))))"

definition pinned_http_client :: "'n nets \<Rightarrow> 'u urls \<Rightarrow> ('u, 'r, 'c) http \<Rightarrow> (string \<Rightarrow> nat \<Rightarrow> sock list option) \<Rightarrow>
    ('n, 'u) policy \<Rightarrow> 'u \<Rightarrow> nat \<Rightarrow> nat \<Rightarrow> out_error + 'c" where
  "pinned_http_client N U H lookup p url timeout connect_timeout =
     (if url_scheme U url \<notin> {''http'', ''https''} then Inl Not_http
      else case route N U H lookup p url (new_client H timeout connect_timeout) of
             Inl e \<Rightarrow> Inl e
           | Inr b \<Rightarrow> (case build H b of Some c \<Rightarrow> Inr c | None \<Rightarrow> Inl Build_failed))"

section \<open>The startup check\<close>

datatype experience_mode = LocalDev | SelfHost | HotCloud

definition experience_parse :: "string \<Rightarrow> experience_mode" where
  "experience_parse s =
     (if s \<in> {''self-host'', ''self_host'', ''selfhost''} then SelfHost
      else if s \<in> {''hot-cloud'', ''hot_cloud'', ''cloud''} then HotCloud else LocalDev)"

definition experience :: "('d, 'b) val_env \<Rightarrow> ('d, 'b) val \<Rightarrow> experience_mode" where
  "experience E conf = experience_parse (get_str_or_default E conf ''product.experience'' ''local-dev'')"

definition is_self_host :: "('d, 'b) val_env \<Rightarrow> ('d, 'b) val \<Rightarrow> bool" where
  "is_self_host E conf \<longleftrightarrow> experience E conf = SelfHost"

definition check_user_code_conf :: "('d, 'b) val_env \<Rightarrow> 'n nets \<Rightarrow> 'u urls \<Rightarrow> ('d, 'b) val \<Rightarrow> string \<Rightarrow> out_error + unit" where
  "check_user_code_conf E N U conf env =
     (if is_self_host E conf \<and> env = ''production'' \<and> \<not> get_bool_or_default conf ''engine.isolation'' False
      then Inl Isolation_required
      else case from_conf E N U conf of Inl e \<Rightarrow> Inl e | Inr _ \<Rightarrow> Inr ())"

section \<open>What is denied\<close>

lemma ipv4_in_iff:
  "0 < bits \<Longrightarrow> ipv4_in a network bits \<longleftrightarrow>
     unat a div 2 ^ (32 - bits) = unat (of_octets network) div 2 ^ (32 - bits)"
  by (simp add: ipv4_in_def masked_eq_iff Let_def)

lemma ipv6_in_iff:
  "0 < bits \<Longrightarrow> ipv6_in a network bits \<longleftrightarrow>
     unat a div 2 ^ (128 - bits) = unat (of_segments network) div 2 ^ (128 - bits)"
  by (simp add: ipv6_in_def masked_eq_iff Let_def)

lemma byte_top: "y < 256 \<Longrightarrow> y div 16 = 15 \<longleftrightarrow> 240 \<le> y" for y :: nat
  by linarith

lemma two_bytes: "y < 256 \<Longrightarrow> n div 256 = x \<and> n mod 256 = y \<longleftrightarrow> n = x * 256 + y" for n :: nat
  using div_mult_mod_eq [of n 256] by auto

lemma v4_ranges:
  "v4_is_unspecified a \<or> ipv4_in a [0, 0, 0, 0] 8 \<longleftrightarrow> unat a div 2 ^ 24 = 0"
  "v4_is_loopback a \<longleftrightarrow> unat a div 2 ^ 24 = 127"
  "v4_is_link_local a \<longleftrightarrow> unat a div 2 ^ 16 = 169 * 256 + 254"
  "v4_is_multicast a \<or> v4_is_broadcast a \<or> ipv4_in a [240, 0, 0, 0] 4 \<longleftrightarrow> 224 \<le> unat a div 2 ^ 24"
proof -
  have bound: "unat a < 2 ^ 32" using unsigned_less [of a] by simp
  show "v4_is_unspecified a \<or> ipv4_in a [0, 0, 0, 0] 8 \<longleftrightarrow> unat a div 2 ^ 24 = 0"
    by (auto simp: v4_is_unspecified_def ipv4_in_iff of_octets_def)
  show "v4_is_loopback a \<longleftrightarrow> unat a div 2 ^ 24 = 127"
    using bound by (simp add: v4_is_loopback_def octet_eq_iff)
  show "v4_is_link_local a \<longleftrightarrow> unat a div 2 ^ 16 = 169 * 256 + 254"
  proof -
    have "unat a div 2 ^ 24 = unat a div 2 ^ 16 div 256" by (simp add: div_mult2_eq [symmetric])
    then have "v4_is_link_local a \<longleftrightarrow> unat a div 2 ^ 16 div 256 mod 256 = 169 \<and> unat a div 2 ^ 16 mod 256 = 254"
      by (simp add: v4_is_link_local_def octet_eq_iff)
    moreover have "unat a div 2 ^ 16 div 256 mod 256 = unat a div 2 ^ 16 div 256" using bound by simp
    moreover have "n div 256 = 169 \<and> n mod 256 = 254 \<longleftrightarrow> n = 169 * 256 + 254" for n :: nat by (rule two_bytes) simp
    ultimately show ?thesis by (simp only:)
  qed
  have "v4_is_multicast a \<longleftrightarrow> 224 \<le> unat a div 2 ^ 24 \<and> unat a div 2 ^ 24 \<le> 239"
    using bound by (simp add: v4_is_multicast_def word_le_nat_alt unat_octet)
  moreover have "ipv4_in a [240, 0, 0, 0] 4 \<longleftrightarrow> 240 \<le> unat a div 2 ^ 24"
  proof -
    have "unat a div 2 ^ 28 = unat a div 2 ^ 24 div 16" by (simp add: div_mult2_eq [symmetric])
    then have "ipv4_in a [240, 0, 0, 0] 4 \<longleftrightarrow> unat a div 2 ^ 24 div 16 = 15"
      by (simp add: ipv4_in_iff of_octets_def unat_of_nat)
    moreover have "unat a div 2 ^ 24 < 256" using bound by (simp add: less_mult_imp_div_less)
    ultimately show ?thesis by (metis byte_top)
  qed
  moreover have "v4_is_broadcast a \<Longrightarrow> 240 \<le> unat a div 2 ^ 24" by (simp add: v4_is_broadcast_def)
  ultimately show "v4_is_multicast a \<or> v4_is_broadcast a \<or> ipv4_in a [240, 0, 0, 0] 4 \<longleftrightarrow> 224 \<le> unat a div 2 ^ 24"
    by linarith
qed

lemma v6_ranges:
  "v6_is_multicast a \<longleftrightarrow> unat a div 2 ^ 120 = 255"
  "ipv6_in a [0xfe80, 0, 0, 0, 0, 0, 0, 0] 10 \<longleftrightarrow> unat a div 2 ^ 118 = 0x3fa"
proof -
  have bound: "unat a < 2 ^ 128" using unsigned_less [of a] by simp
  have "NOT (mask 8) = (0xff00 :: 16 word)" by (simp add: mask_eq_exp_minus_1)
  then have "v6_is_multicast a \<longleftrightarrow> unat (segment 0 a) div 2 ^ 8 = 255"
    using masked_eq_iff [of "segment 0 a" 8 "0xff00"] by (simp add: v6_is_multicast_def)
  also have "unat (segment 0 a) div 2 ^ 8 = unat a div 2 ^ 120"
    using bound by (simp add: unat_segment div_mult2_eq [symmetric])
  finally show "v6_is_multicast a \<longleftrightarrow> unat a div 2 ^ 120 = 255" .
  show "ipv6_in a [0xfe80, 0, 0, 0, 0, 0, 0, 0] 10 \<longleftrightarrow> unat a div 2 ^ 118 = 0x3fa"
    by (simp add: ipv6_in_iff of_segments_def unat_of_nat)
qed

lemma canonical_idem: "canonical (canonical ip) = canonical ip"
  by (cases ip) (auto split: option.splits)

lemma denied_canonical: "is_always_denied (canonical ip) = is_always_denied ip"
  by (simp add: is_always_denied_def canonical_idem)

lemma metadata_private:
  "ipv6_in (of_segments [0xfd00, 0xec2, 0, 0, 0, 0, 0, 0x254]) [0xfc00, 0, 0, 0, 0, 0, 0, 0] 7"
  "ipv6_in (of_segments [0xfd20, 0xce, 0, 0, 0, 0, 0, 0x254]) [0xfc00, 0, 0, 0, 0, 0, 0, 0] 7"
  by (simp_all add: ipv6_in_iff of_segments_def unat_of_nat)

lemma denied_ranges:
  "is_always_denied ip \<longleftrightarrow>
     (case canonical ip of
        V4 a \<Rightarrow> unat a div 2 ^ 24 = 0 \<or> unat a div 2 ^ 24 = 127 \<or> 224 \<le> unat a div 2 ^ 24 \<or> unat a div 2 ^ 16 = 169 * 256 + 254
      | V6 a \<Rightarrow> a = 0 \<or> a = 1 \<or> unat a div 2 ^ 120 = 255 \<or> unat a div 2 ^ 118 = 0x3fa \<or>
          a = of_segments [0xfd00, 0xec2, 0, 0, 0, 0, 0, 0x254] \<or> a = of_segments [0xfd20, 0xce, 0, 0, 0, 0, 0, 0x254])"
proof (cases "canonical ip")
  case (V4 a)
  show ?thesis unfolding is_always_denied_def V4 ip.case using v4_ranges [of a] by blast
next
  case (V6 a)
  show ?thesis unfolding is_always_denied_def V6 ip.case v6_ranges v6_is_unspecified_def v6_is_loopback_def by blast
qed

lemma public_not_denied: "is_public_destination ip \<Longrightarrow> \<not> is_always_denied ip"
  using metadata_private
  by (cases ip) (auto simp: is_always_denied_def public_v4_def split: option.splits)

lemma checked_not_denied:
  assumes "restricts_destinations p" "check N p host ip = Inr ()"
  shows "\<not> is_always_denied ip"
  using assms public_not_denied [of ip]
  by (auto simp: restricts_destinations_def check_def allows_def denied_canonical Let_def split: policy.splits if_splits)

lemma isolated_restricts:
  "restricts_destinations (for_isolated E N U conf legacy)" "restricts_destinations (from_vm E N U True conf)"
  by (auto simp: restricts_destinations_def for_isolated_def from_vm_def split: sum.splits option.splits)

lemma alerts_restrict:
  "get_bool_or_default conf ''engine.isolation'' False \<Longrightarrow> restricts_destinations (for_alert_delivery E N U conf)"
  by (simp add: for_alert_delivery_def isolated_restricts)

section \<open>Connections go where was checked\<close>

lemma collectD: "collect f xs = Inr ys \<Longrightarrow> list_all2 (\<lambda>x y. f x = Inr y) xs ys"
  by (induction xs arbitrary: ys) (auto split: sum.splits)

lemma collect_unit: "collect f xs = Inr (us :: unit list) \<Longrightarrow> list_all (\<lambda>x. f x = Inr ()) xs"
  by (drule collectD) (induction rule: list_all2_induct, auto)

primrec host_name :: "host \<Rightarrow> string" where
  "host_name (Domain d) = d"
| "host_name (Literal ip) = show_ip ip"

lemma resolve_host_ok:
  assumes "resolve_host N lookup p name port = Inr addrs"
  shows "\<exists>found. lookup name port = Some found \<and> set addrs = set found \<and> addrs \<noteq> [] \<and>
    list_all (\<lambda>a. check N p (Some name) (sock_ip a) = Inr ()) addrs"
  using assms collect_unit [of "\<lambda>a. check N p (Some name) (sock_ip a)" addrs]
  by (auto simp: resolve_host_def Let_def split: option.splits if_splits sum.splits)

lemma resolve_url_ok:
  assumes "resolve_url N U lookup p url = Inr addrs" "url_host U url = Some host"
  shows "\<exists>port found. port_or_known_default U url = Some port \<and> lookup (host_name host) port = Some found \<and>
    set addrs = set found \<and> addrs \<noteq> [] \<and> list_all (\<lambda>a. check N p (Some (host_name host)) (sock_ip a) = Inr ()) addrs"
  using assms resolve_host_ok by (fastforce simp: resolve_url_def split: option.splits host.splits)

text \<open>C12. Where a restricting policy sends a client. With an egress proxy the client uses that proxy, and an
  address written in the URL passed the policy and is not denied; a domain is left to the proxy, unchecked.
  Without one the client bypasses every proxy of the environment; the host is looked up once, every address found
  passed the policy and is not denied, and a domain is pinned to exactly these addresses. (An address written in the
  URL is connected to as written; what is looked up is its text.)\<close>
theorem route_pins_checked:
  assumes "route N U H lookup p url b = Inr b'" "restricts_destinations p"
  shows "\<exists>host. url_host U url = Some host \<and>
    (case egress_proxy p of
       Some proxy \<Rightarrow> set_proxy H proxy b = Some b' \<and>
         (case host of Literal ip \<Rightarrow> check N p None ip = Inr () \<and> \<not> is_always_denied ip | Domain _ \<Rightarrow> True)
     | None \<Rightarrow> \<exists>port found addrs. port_or_known_default U url = Some port \<and>
         lookup (host_name host) port = Some found \<and> set addrs = set found \<and> addrs \<noteq> [] \<and>
         list_all (\<lambda>a. check N p (Some (host_name host)) (sock_ip a) = Inr () \<and> \<not> is_always_denied (sock_ip a)) addrs \<and>
         b' = (case host of Domain d \<Rightarrow> resolve_to_addrs H d addrs (set_no_proxy H b) | Literal _ \<Rightarrow> set_no_proxy H b))"
proof (cases "egress_proxy p")
  case (Some proxy)
  with assms(1) obtain host where h: "url_host U url = Some host" "set_proxy H proxy b = Some b'"
    and c: "(case host of Literal ip \<Rightarrow> check N p None ip | Domain _ \<Rightarrow> Inr ()) = Inr ()"
    by (auto simp: route_def split: option.splits sum.splits)
  from c have "case host of Literal ip \<Rightarrow> check N p None ip = Inr () \<and> \<not> is_always_denied ip | Domain _ \<Rightarrow> True"
    using checked_not_denied [OF assms(2)] by (cases host) auto
  with h Some show ?thesis by simp
next
  case None
  from assms None obtain host addrs where h: "url_host U url = Some host" "resolve_url N U lookup p url = Inr addrs"
    and b: "b' = (case host of Domain d \<Rightarrow> resolve_to_addrs H d addrs (set_no_proxy H b) | Literal _ \<Rightarrow> set_no_proxy H b)"
    by (auto simp: route_def Let_def split: option.splits sum.splits)
  from resolve_url_ok [OF h(2) h(1)] obtain port found where
    r: "port_or_known_default U url = Some port" "lookup (host_name host) port = Some found" "set addrs = set found" "addrs \<noteq> []"
    and c: "list_all (\<lambda>a. check N p (Some (host_name host)) (sock_ip a) = Inr ()) addrs" by blast
  from c have "list_all (\<lambda>a. check N p (Some (host_name host)) (sock_ip a) = Inr () \<and> \<not> is_always_denied (sock_ip a)) addrs"
    using checked_not_denied [OF assms(2)] by (auto simp: list_all_iff)
  with h(1) r b None show ?thesis by auto
qed

section \<open>Denied ranges\<close>

lemma ucast_low: "push_bit 16 (ucast (segment 6 a)) OR ucast (segment 7 a) = (ucast a :: 32 word)"
  by (rule bit_word_eqI) (auto simp: segment_def bit_simps)

lemma unat_low: "unat (ucast a :: 32 word) = unat a mod 2 ^ 32" for a :: "128 word"
  by (simp add: unsigned_ucast_eq take_bit_eq_mod)

lemma mapped_iff: "to_ipv4_mapped a = (if unat a div 2 ^ 32 = 0xffff then Some (ucast a) else None)"
  using unat_drop [of 32 a] by (simp add: to_ipv4_mapped_def word_unat_eq_iff)

lemma embedding_ranges:
  "ipv6_in a [0, 0, 0, 0, 0, 0, 0, 0] 96 \<longleftrightarrow> unat a div 2 ^ 32 = 0"
  "ipv6_in a [0x64, 0xff9b, 0, 0, 0, 0, 0, 0] 96 \<longleftrightarrow> unat a div 2 ^ 32 = 0x64ff9b * 2 ^ 64"
  by (simp_all add: ipv6_in_iff of_segments_def unat_of_nat)

lemma embedded_iff:
  "embedded_ipv4 a =
     (if unat a div 2 ^ 32 = 0xffff \<or> (unat a div 2 ^ 32 = 0 \<or> unat a div 2 ^ 32 = 0x64ff9b * 2 ^ 64) \<and> 1 < unat a mod 2 ^ 32
      then Some (ucast a) else None)"
  using unat_low [of a]
  by (auto simp: embedded_ipv4_def mapped_iff embedding_ranges ucast_low Let_def word_less_nat_alt)

lemma low_prefix:
  assumes "x div 2 ^ k = y div 2 ^ k" "k \<le> 32"
  shows "x mod 2 ^ 32 div 2 ^ k = y mod 2 ^ 32 div (2 ^ k :: nat)"
proof -
  have "n mod 2 ^ 32 div 2 ^ k = n div 2 ^ k mod 2 ^ (32 - k)" for n :: nat
    using mod_mult2_eq [of n "2 ^ k" "2 ^ (32 - k)"] assms(2) by (simp add: power_add [symmetric])
  with assms(1) show ?thesis by simp
qed

lemma high_prefix:
  assumes "x div 2 ^ k = y div 2 ^ k" "k \<le> 32"
  shows "x div 2 ^ 32 = y div (2 ^ 32 :: nat)"
proof -
  have "n div 2 ^ 32 = n div 2 ^ k div 2 ^ (32 - k)" for n :: nat
    using assms(2) by (simp add: div_mult2_eq [symmetric] power_add [symmetric])
  with assms(1) show ?thesis by simp
qed

lemma nets_v6:
  assumes "nets_ok N" "net_v6 N net = Some (nw, len)" "net_contains N net (V6 a)"
  shows "len \<le> 128" "unat a div 2 ^ (128 - len) = unat nw div 2 ^ (128 - len)"
  using assms unfolding nets_ok_def by blast+

text \<open>The ranges that were written in IPv6 form still hold for the addresses in them, as the code compares them.\<close>

lemma canonical_net_contains:
  assumes N: "nets_ok N" and net: "net_v6 N net = Some (nw, len)" and a: "net_contains N net (V6 a)"
    and wide: "96 \<le> len \<or> embedded_ipv4 a = None" and apart: "embedded_ipv4 a = None \<Longrightarrow> unat a div 2 ^ 32 \<noteq> 0 \<and> unat a div 2 ^ 32 \<noteq> 0x64ff9b * 2 ^ 64"
  shows "net_contains N (canonical_net N net) (canonical (V6 a))"
proof (cases "96 \<le> len")
  case True
  note eq = nets_v6(2) [OF N net a]
  have k: "128 - len \<le> 32" using True by simp
  have high: "unat a div 2 ^ 32 = unat nw div 2 ^ 32" by (rule high_prefix [OF eq k])
  define embeds where "embeds \<longleftrightarrow> unat nw div 2 ^ 32 \<in> {0xffff, 0, 0x64ff9b * 2 ^ 64}"
  have cn: "canonical_net N net = (if embeds then case net_v4 N (ucast nw) (len - 96) of Some v4 \<Rightarrow> net_trunc N v4 | None \<Rightarrow> net else net)"
  proof -
    have m: "0xffffffff = (mask 32 :: 128 word)" by (simp add: mask_eq_exp_minus_1)
    have "ucast (nw AND 0xffffffff) = (ucast nw :: 32 word)"
      unfolding m by (rule bit_word_eqI) (auto simp: bit_ucast_iff bit_and_iff bit_mask_iff)
    then show ?thesis using True by (simp add: canonical_net_def net mapped_iff embedding_ranges embeds_def)
  qed
  show ?thesis
  proof (cases "embedded_ipv4 a")
    case None
    with apart high have "\<not> embeds" by (auto simp: embeds_def embedded_iff)
    with None a show ?thesis by (simp add: cn)
  next
    case (Some v)
    then have v: "v = ucast a" and embeds using high by (auto simp: embedded_iff embeds_def split: if_splits)
    have "len - 96 \<le> 32" using nets_v6(1) [OF N net a] by simp
    with N obtain n where n: "net_v4 N (ucast nw) (len - 96) = Some n"
      and c: "\<And>ip. net_contains N n ip \<longleftrightarrow>
        (\<exists>b. ip = V4 b \<and> unat b div 2 ^ (32 - (len - 96)) = unat (ucast nw :: 32 word) div 2 ^ (32 - (len - 96)))"
      unfolding nets_ok_def by blast
    have "32 - (len - 96) = 128 - len" using True by simp
    moreover have "unat v div 2 ^ (128 - len) = unat (ucast nw :: 32 word) div 2 ^ (128 - len)"
      unfolding v unat_low by (rule low_prefix [OF eq k])
    ultimately have "net_contains N (net_trunc N n) (V4 v)" using N by (simp add: c nets_ok_def)
    with \<open>embeds\<close> n Some show ?thesis by (simp add: cn)
  qed
next
  case False
  with wide a show ?thesis by (simp add: canonical_net_def net)
qed

lemma canonical_V6: "embedded_ipv4 a = None \<Longrightarrow> unat a div 2 ^ 32 = 0 \<Longrightarrow> a = 0 \<or> a = 1"
  by (simp add: embedded_iff word_unat_eq_iff split: if_splits) linarith

lemma nat64_low:
  assumes "embedded_ipv4 a = None" "unat a div 2 ^ 32 = 0x64ff9b * 2 ^ 64"
  shows "a = of_segments [0x64, 0xff9b, 0, 0, 0, 0, 0, 0] \<or> a = of_segments [0x64, 0xff9b, 0, 0, 0, 0, 0, 1]"
proof -
  have "unat a mod 2 ^ 32 \<le> 1" using assms by (simp add: embedded_iff split: if_splits)
  then have "unat a mod 2 ^ 32 = 0 \<or> unat a mod 2 ^ 32 = 1" by linarith
  moreover have "unat a = 0x64ff9b * 2 ^ 64 * 2 ^ 32 + unat a mod 2 ^ 32" by (metis div_mult_mod_eq assms(2))
  ultimately have "unat a = 0x64ff9b * 2 ^ 64 * 2 ^ 32 + 0 \<or> unat a = 0x64ff9b * 2 ^ 64 * 2 ^ 32 + 1" by metis
  then show ?thesis by (simp add: word_unat_eq_iff of_segments_def unat_of_nat)
qed

text \<open>The IPv4 addresses the code always denies: 0/8, 127/8, 169.254/16 and from 224/4 on.\<close>

definition denied_v4 :: "nat \<Rightarrow> bool" where
  "denied_v4 n \<longleftrightarrow> n div 2 ^ 24 = 0 \<or> n div 2 ^ 24 = 127 \<or> 224 \<le> n div 2 ^ 24 \<or> n div 2 ^ 16 = 169 * 256 + 254"

lemma embedding_high:
  assumes "unat a div 2 ^ 32 \<in> {0xffff, 0, 0x64ff9b * 2 ^ 64}" "embedded_ipv4 a \<noteq> None"
  shows "a \<noteq> 0 \<and> a \<noteq> 1 \<and> unat a div 2 ^ 120 \<noteq> 255 \<and> unat a div 2 ^ 118 \<noteq> 0x3fa \<and>
    a \<noteq> of_segments [0xfd00, 0xec2, 0, 0, 0, 0, 0, 0x254] \<and> a \<noteq> of_segments [0xfd20, 0xce, 0, 0, 0, 0, 0, 0x254]"
proof (intro conjI notI)
  have d: "unat a div 2 ^ 120 = unat a div 2 ^ 32 div 2 ^ 88" "unat a div 2 ^ 118 = unat a div 2 ^ 32 div 2 ^ 86"
    by (simp_all add: div_mult2_eq [symmetric])
  show False if "unat a div 2 ^ 120 = 255" using assms(1) that unfolding d by auto
  show False if "unat a div 2 ^ 118 = 0x3fa" using assms(1) that unfolding d by auto
  show False if "a = 0" using assms(2) that by (simp add: embedded_iff)
  show False if "a = 1" using assms(2) that by (simp add: embedded_iff)
  show False if "a = of_segments [0xfd00, 0xec2, 0, 0, 0, 0, 0, 0x254]"
    using assms(1) that by (simp add: of_segments_def unat_of_nat)
  show False if "a = of_segments [0xfd20, 0xce, 0, 0, 0, 0, 0, 0x254]"
    using assms(1) that by (simp add: of_segments_def unat_of_nat)
qed

text \<open>C11. An address that passes the check of isolated code, or of the delivery of alerts of an isolated
  installation, is never the machine itself, a link-local service or a metadata endpoint, whatever the operator
  configured and under whatever name: no IPv4 address in 0/8, 127/8, 169.254/16 or from 224/4 on, no unspecified,
  loopback, multicast, link-local or metadata IPv6 address, and no IPv6 address that carries such an IPv4 address in
  one of the three prefixes \<^verbatim>\<open>::ffff:0:0/96\<close>, \<^verbatim>\<open>::/96\<close> and \<^verbatim>\<open>64:ff9b::/96\<close>, but for the two addresses \<^verbatim>\<open>64:ff9b::\<close> and
  \<^verbatim>\<open>64:ff9b::1\<close>.\<close>
theorem isolated_never_denied:
  assumes "p = from_vm E N U True conf \<or> p = for_alert_delivery E N U conf \<and> get_bool_or_default conf ''engine.isolation'' False"
    and "check N p name ip = Inr ()"
  shows "case ip of
      V4 a \<Rightarrow> \<not> denied_v4 (unat a)
    | V6 a \<Rightarrow> a \<noteq> 0 \<and> a \<noteq> 1 \<and> unat a div 2 ^ 120 \<noteq> 255 \<and> unat a div 2 ^ 118 \<noteq> 0x3fa \<and>
        a \<noteq> of_segments [0xfd00, 0xec2, 0, 0, 0, 0, 0, 0x254] \<and> a \<noteq> of_segments [0xfd20, 0xce, 0, 0, 0, 0, 0, 0x254] \<and>
        (unat a div 2 ^ 32 \<in> {0xffff, 0, 0x64ff9b * 2 ^ 64} \<longrightarrow> denied_v4 (unat a mod 2 ^ 32) \<longrightarrow>
          a = of_segments [0x64, 0xff9b, 0, 0, 0, 0, 0, 0] \<or> a = of_segments [0x64, 0xff9b, 0, 0, 0, 0, 0, 1])"
proof -
  have "restricts_destinations p" using assms(1) isolated_restricts alerts_restrict by blast
  then have n: "\<not> is_always_denied ip" using assms(2) by (rule checked_not_denied)
  show ?thesis
  proof (cases ip)
    case (V4 a)
    with n show ?thesis by (simp add: denied_ranges denied_v4_def)
  next
    case (V6 a)
    show ?thesis
    proof (cases "embedded_ipv4 a")
      case None
      then have low: "a = 0 \<or> a = 1 \<or> a = of_segments [0x64, 0xff9b, 0, 0, 0, 0, 0, 0] \<or> a = of_segments [0x64, 0xff9b, 0, 0, 0, 0, 0, 1]"
        if "unat a div 2 ^ 32 \<in> {0xffff, 0, 0x64ff9b * 2 ^ 64}"
        using that canonical_V6 [of a] nat64_low [of a] by (auto simp: embedded_iff split: if_splits)
      from n None V6 have "a \<noteq> 0 \<and> a \<noteq> 1 \<and> unat a div 2 ^ 120 \<noteq> 255 \<and> unat a div 2 ^ 118 \<noteq> 0x3fa \<and>
        a \<noteq> of_segments [0xfd00, 0xec2, 0, 0, 0, 0, 0, 0x254] \<and> a \<noteq> of_segments [0xfd20, 0xce, 0, 0, 0, 0, 0, 0x254]"
        unfolding denied_ranges by (simp only: canonical.simps ip.case option.case de_Morgan_disj simp_thms)
      with low V6 show ?thesis by (simp only: ip.case) blast
    next
      case (Some v)
      then have v: "v = ucast a" and e: "unat a div 2 ^ 32 \<in> {0xffff, 0, 0x64ff9b * 2 ^ 64}"
        by (auto simp: embedded_iff split: if_splits)
      have "\<not> denied_v4 (unat a mod 2 ^ 32)"
        using n Some V6 by (simp add: denied_ranges denied_v4_def v unat_low)
      with embedding_high [OF e] Some V6 show ?thesis by simp
    qed
  qed
qed

lemma denied_entries:
  assumes "conf_cidrs E N conf key = Inr nets" "entry \<in> set (conf_list E conf key)" "read_net N entry = Some net"
  shows "canonical_net N (net_trunc N net) \<in> set nets"
proof -
  from assms(2) obtain i where i: "i < length (conf_list E conf key)" "entry = conf_list E conf key ! i"
    by (metis in_set_conv_nth)
  from collectD [OF assms(1) [unfolded conf_cidrs_def]] have "length (conf_list E conf key) = length nets"
    and "nets ! i = canonical_net N (net_trunc N net)"
    using i assms(3) by (auto simp: list_all2_conv_all_nth)
  with i(1) show ?thesis by (metis nth_mem)
qed

lemma parsed_deny:
  assumes "rules_parse E N U conf legacy = Inr (Some rules)"
  shows "conf_cidrs E N conf ''network.deny-cidrs'' = Inr (deny_cidrs rules)"
  using assms by (auto simp: rules_parse_def Let_def split: sum.splits if_splits)

text \<open>A range in \<^verbatim>\<open>network.deny-cidrs\<close> that is written in IPv6 form keeps isolated code from every address in
  it, also where the code compares such addresses as IPv4, and whatever else is allowed; except for a range wider
  than 96 bits and an address that carries an IPv4 one, and for the two lowest addresses of \<^verbatim>\<open>64:ff9b::/96\<close>.\<close>
theorem deny_entry_blocks:
  assumes "nets_ok N" and rules: "rules_parse E N U conf legacy = Inr (Some rules)"
    and entry: "entry \<in> set (conf_list E conf ''network.deny-cidrs'')" "read_net N entry = Some net"
    and "net_v6 N (net_trunc N net) = Some (nw, len)" "net_contains N (net_trunc N net) (V6 a)"
    and "96 \<le> len \<or> embedded_ipv4 a = None"
    and low: "a \<noteq> of_segments [0x64, 0xff9b, 0, 0, 0, 0, 0, 0]" "a \<noteq> of_segments [0x64, 0xff9b, 0, 0, 0, 0, 0, 1]"
  shows "check N (for_isolated E N U conf legacy) name (V6 a) = Inl (Blocked (V6 a))"
proof -
  have "is_always_denied (V6 a) \<or> net_contains N (canonical_net N (net_trunc N net)) (canonical (V6 a))"
  proof (cases "embedded_ipv4 a = None \<and> (unat a div 2 ^ 32 = 0 \<or> unat a div 2 ^ 32 = 0x64ff9b * 2 ^ 64)")
    case True
    with nat64_low [of a] low canonical_V6 [of a] have "a = 0 \<or> a = 1" by metis
    with True show ?thesis by (auto simp: is_always_denied_def v6_is_unspecified_def v6_is_loopback_def)
  next
    case False
    then have "embedded_ipv4 a = None \<Longrightarrow> unat a div 2 ^ 32 \<noteq> 0 \<and> unat a div 2 ^ 32 \<noteq> 0x64ff9b * 2 ^ 64" by metis
    from canonical_net_contains [OF assms(1,5,6,7) this] show ?thesis ..
  qed
  moreover have "canonical_net N (net_trunc N net) \<in> set (deny_cidrs rules)"
    by (rule denied_entries [OF parsed_deny [OF rules] entry])
  ultimately have "\<not> allows N rules name (V6 a)"
    by (auto simp: allows_def Let_def denied_canonical list_ex_iff simp del: canonical.simps)
  then show ?thesis using rules by (simp add: check_def for_isolated_def)
qed

section \<open>An instance\<close>

definition plain_nets :: "(ip \<times> nat) nets" where
  "plain_nets =
     \<lparr>net_contains = (\<lambda>(nw, len) ip.
        case (nw, ip) of
          (V4 n, V4 a) \<Rightarrow> unat a div 2 ^ (32 - len) = unat n div 2 ^ (32 - len)
        | (V6 n, V6 a) \<Rightarrow> unat a div 2 ^ (128 - len) = unat n div 2 ^ (128 - len)
        | _ \<Rightarrow> False),
      net_parse = (\<lambda>s. case split_once CHR ''/'' s of
        Some (a, len) \<Rightarrow> (case (parse_ip a, parse_unsigned 8 len) of (Some ip, Some n) \<Rightarrow> Some (ip, n) | _ \<Rightarrow> None)
      | None \<Rightarrow> None),
      net_of = (\<lambda>ip. (ip, case ip of V4 _ \<Rightarrow> 32 | V6 _ \<Rightarrow> 128)),
      net_trunc = (\<lambda>net. net),
      net_v6 = (\<lambda>(nw, len). case nw of V6 n \<Rightarrow> Some (n, min len 128) | V4 _ \<Rightarrow> None),
      net_v4 = (\<lambda>n len. if len \<le> 32 then Some (V4 n, len) else None)\<rparr>"

lemma plain_nets_ok: "nets_ok plain_nets"
proof -
  have "128 - min len 128 = 128 - len" for len :: nat by simp
  then show ?thesis by (auto simp: nets_ok_def plain_nets_def split: prod.splits ip.splits)
qed

definition one_url :: "unit urls" where
  "one_url =
     \<lparr>url_parse = (\<lambda>_. None), url_scheme = (\<lambda>_. ''https''), url_host = (\<lambda>_. Some (Domain ''example.com'')),
      url_path = (\<lambda>_. ''/''), port_or_known_default = (\<lambda>_. Some 443)\<rparr>"

definition logged :: "(unit, (string \<times> sock list) list, unit) http" where
  "logged =
     \<lparr>set_proxy = (\<lambda>_ b. Some b), set_no_proxy = (\<lambda>b. b), resolve_to_addrs = (\<lambda>d addrs b. (d, addrs) # b),
      new_client = (\<lambda>_ _. []), build = (\<lambda>_. Some ())\<rparr>"

definition public_sock :: sock where
  "public_sock = \<lparr>sock_ip = V4 0x08080808, sock_port = 443, sock_flow = 0, sock_scope = 0\<rparr>"

lemma public_8888: "is_public_destination (V4 0x08080808)"
  by (simp add: public_v4_def v4_is_unspecified_def v4_is_loopback_def v4_is_private_def v4_is_link_local_def
      v4_is_broadcast_def v4_is_multicast_def ipv4_in_iff of_octets_def octet_eq_iff unat_octet word_le_nat_alt unat_of_nat)

theorem isolated_never_denied_witness: "\<not> denied_v4 (unat (0x08080808 :: 32 word))"
proof -
  have "from_vm tenths_env plain_nets one_url True VNull = PublicOnly"
    by (simp add: from_vm_def for_isolated_def rules_parse_def conf_cidrs_def conf_list_def get_bool_or_default_def
        egress_proxy_setting_def val_get_def)
  then have "check plain_nets (from_vm tenths_env plain_nets one_url True VNull) None (V4 0x08080808) = Inr ()"
    using public_8888 by (simp add: check_def)
  from isolated_never_denied [OF disjI1 [OF refl] this] show ?thesis by simp
qed

theorem route_pins_checked_witness: "\<not> is_always_denied (sock_ip public_sock)"
proof -
  let ?lookup = "\<lambda>_ _. Some [public_sock]"
  have "route plain_nets one_url logged ?lookup PublicOnly () [] = Inr [(''example.com'', [public_sock])]"
    using public_8888
    by (simp add: route_def one_url_def logged_def egress_proxy_def resolve_url_def resolve_host_def check_def public_sock_def restricts_destinations_def)
  from route_pins_checked [OF this] show ?thesis
    by (auto simp: restricts_destinations_def egress_proxy_def one_url_def list_all_iff)
qed

text \<open>A deny entry in IPv6 form: \<^verbatim>\<open>64:ff9b::a14:5\<close> is 10.20.0.5 behind a translator.\<close>

definition deny_conf :: "(int, unit) val" where
  "deny_conf = VMap [(VStr ''network'', VMap [(VStr ''deny-cidrs'', VStr ''64:ff9b::a14:5'')])]"

lemma deny_parsed: "parse_ip ''64:ff9b::a14:5'' = Some (V6 (of_segments [0x64, 0xff9b, 0, 0, 0, 0, 0xa14, 5]))"
  by (simp add: parse_eval)

lemma deny_settings:
  "val_get deny_conf ''network.deny-cidrs'' = Some (VStr ''64:ff9b::a14:5'')" "val_get deny_conf ''network.allow-cidrs'' = None"
  "val_get deny_conf ''network.allow-hosts'' = None" "val_get deny_conf ''network.allow-private'' = None"
  "val_get deny_conf ''network.egress-proxy'' = None"
  by code_simp+

lemma deny_listed: "conf_list tenths_env deny_conf ''network.deny-cidrs'' = [''64:ff9b::a14:5'']"
  by (simp add: conf_list_def deny_settings str_setting_def trim_visible visible_def)

lemma deny_net: "read_net plain_nets ''64:ff9b::a14:5'' = Some (V6 (of_segments [0x64, 0xff9b, 0, 0, 0, 0, 0xa14, 5]), 128)"
  by (simp add: read_net_def deny_parsed plain_nets_def)

theorem deny_entry_blocks_witness:
  "check plain_nets (for_isolated tenths_env plain_nets one_url deny_conf Honor) (Some ''example.com'')
     (V6 (of_segments [0x64, 0xff9b, 0, 0, 0, 0, 0xa14, 5])) =
   Inl (Blocked (V6 (of_segments [0x64, 0xff9b, 0, 0, 0, 0, 0xa14, 5])))"
proof -
  have "\<exists>rules. rules_parse tenths_env plain_nets one_url deny_conf Honor = Inr (Some rules)"
    by (simp add: rules_parse_def conf_cidrs_def deny_listed deny_net get_bool_or_default_def deny_settings
        conf_list_def [of _ _ "''network.allow-cidrs''"] conf_list_def [of _ _ "''network.allow-hosts''"] egress_proxy_setting_def)
  then obtain rules where "rules_parse tenths_env plain_nets one_url deny_conf Honor = Inr (Some rules)" ..
  note d = deny_entry_blocks [OF plain_nets_ok this _ deny_net, where nw = "of_segments [0x64, 0xff9b, 0, 0, 0, 0, 0xa14, 5]" and len = 128]
  show ?thesis by (rule d) (simp_all add: deny_listed plain_nets_def of_segments_def)
qed

text \<open>The two lowest addresses of \<^verbatim>\<open>64:ff9b::/96\<close> escape the rules that deny it: they carry 0.0.0.0 and 0.0.0.1, which are
  not public, yet rules whose only denied range is \<^verbatim>\<open>64:ff9b::/96\<close> let both through, whatever they allow. The range is
  compared as the IPv4 range 0.0.0.0/0, the two addresses as IPv6 ones.\<close>
theorem nat64_zero_escapes:
  assumes "nets_ok N" "net_v6 N net = Some (of_segments [0x64, 0xff9b, 0, 0, 0, 0, 0, 0], 96)"
    and "a = of_segments [0x64, 0xff9b, 0, 0, 0, 0, 0, 0] \<or> a = of_segments [0x64, 0xff9b, 0, 0, 0, 0, 0, 1]"
    and "deny_cidrs rules = [canonical_net N net]"
  shows "net_contains N net (V6 a) \<and> \<not> is_public_destination (V4 (ucast a)) \<and> check N (Restricted rules) name (V6 a) = Inr ()"
proof -
  let ?n = "of_segments [0x64, 0xff9b, 0, 0, 0, 0, 0, 0]"
  have n: "unat ?n = 0x64ff9b * 2 ^ 96" by (simp add: of_segments_def unat_of_nat)
  have u: "unat a = 0x64ff9b * 2 ^ 96 \<or> unat a = 0x64ff9b * 2 ^ 96 + 1"
    using assms(3) by (auto simp: of_segments_def unat_of_nat)
  have high: "unat a div 2 ^ 32 = 0x64ff9b * 2 ^ 64" "unat a mod 2 ^ 32 \<le> 1" using u by auto
  have e: "embedded_ipv4 a = None" using high by (auto simp: embedded_iff)
  have inside: "net_contains N net (V6 a)"
    using assms(1,2) high n unfolding nets_ok_def by simp
  obtain v4 where v4: "net_v4 N (ucast (?n AND 0xffffffff)) 0 = Some v4" "\<And>ip. net_contains N v4 ip \<Longrightarrow> \<exists>b. ip = V4 b"
    using assms(1) unfolding nets_ok_def by (metis le0)
  have "canonical_net N net = net_trunc N v4"
    using v4(1) by (simp add: canonical_net_def assms(2) embedding_ranges n)
  then have out: "\<not> net_contains N (canonical_net N net) (V6 a)"
    using assms(1) v4(2) [of "V6 a"] unfolding nets_ok_def by auto
  have ne: "a \<noteq> 0" "a \<noteq> 1" using u by (auto simp: word_unat_eq_iff)
  have d: "unat a div 2 ^ 120 = unat a div 2 ^ 32 div 2 ^ 88" "unat a div 2 ^ 118 = unat a div 2 ^ 32 div 2 ^ 86"
    "unat a div 2 ^ 121 = unat a div 2 ^ 32 div 2 ^ 89" "unat a div 2 ^ 96 = unat a div 2 ^ 32 div 2 ^ 64"
    "unat a div 2 ^ 112 = unat a div 2 ^ 32 div 2 ^ 80"
    by (simp_all add: div_mult2_eq [symmetric])
  have "\<not> is_always_denied (V6 a)"
    using ne by (simp add: denied_ranges e d high) (use assms(3) in \<open>auto simp: of_segments_def\<close>)
  moreover have "is_public_destination (V6 a)"
    using ne u by (elim disjE) (simp_all add: e v6_is_unspecified_def v6_is_loopback_def v6_ranges ipv6_in_iff of_segments_def unat_of_nat)
  moreover have "\<not> is_public_destination (V4 (ucast a))"
    using high(2) by (simp add: public_v4_def ipv4_in_iff unat_low of_octets_def)
  ultimately show ?thesis using inside out assms(4)
    by (simp add: check_def allows_def e)
qed

theorem nat64_zero_escapes_witness:
  "check plain_nets (Restricted \<lparr>allow_cidrs = [], allow_hosts = [],
       deny_cidrs = [canonical_net plain_nets (V6 (of_segments [0x64, 0xff9b, 0, 0, 0, 0, 0, 0]), 96)], rules_proxy = None\<rparr>)
     None (V6 (of_segments [0x64, 0xff9b, 0, 0, 0, 0, 0, 1])) = Inr ()"
proof -
  have "net_v6 plain_nets (V6 (of_segments [0x64, 0xff9b, 0, 0, 0, 0, 0, 0]), 96) = Some (of_segments [0x64, 0xff9b, 0, 0, 0, 0, 0, 0], 96)"
    by (simp add: plain_nets_def)
  note n = nat64_zero_escapes [OF plain_nets_ok this disjI2 [OF refl]]
  show ?thesis by (rule conjunct2 [OF conjunct2 [OF n]]) simp
qed

end
