(* ===== verification/Hot_ClientIp.thy ===== *)
theory Hot_ClientIp
  imports Hot_Outbound
begin

text \<open>
  The client address of a request: \<^verbatim>\<open>crates/hot_api/src/client_ip.rs\<close>. Headers are a parameter: \<open>header_str\<close> is the
  lookup of a name followed by \<^verbatim>\<open>to_str\<close>, with \<open>None\<close> for a missing or unreadable value.
\<close>

record ('k, 'h) headers =
  header_name :: "string \<Rightarrow> 'k option"
  header_static :: "string \<Rightarrow> 'k"
  header_str :: "'h \<Rightarrow> 'k \<Rightarrow> string option"

datatype client_error =
    Invalid_header string
  | Proxy_entries_not_strings
  | Proxies_not_a_list
  | Invalid_proxy_entry string
  | No_trusted_proxies

record ('n, 'k) client_ip_policy =
  trusted_proxy :: bool
  trusted_proxies :: "'n list"
  forwarded_header :: 'k

definition proxy_texts :: "('d, 'b) val option \<Rightarrow> client_error + string list" where
  "proxy_texts v =
     (case v of
        Some (VVec vs) \<Rightarrow> collect (\<lambda>x. case x of VStr s \<Rightarrow> Inr s | _ \<Rightarrow> Inl Proxy_entries_not_strings) vs
      | Some (VStr s) \<Rightarrow> Inr (split_on CHR '','' s)
      | Some VNull \<Rightarrow> Inr []
      | None \<Rightarrow> Inr []
      | _ \<Rightarrow> Inl Proxies_not_a_list)"

definition parse_trusted_proxies :: "'n nets \<Rightarrow> ('d, 'b) val option \<Rightarrow> client_error + 'n list" where
  "parse_trusted_proxies N v =
     (case proxy_texts v of
        Inl e \<Rightarrow> Inl e
      | Inr texts \<Rightarrow>
          collect (\<lambda>s. case read_net N s of Some net \<Rightarrow> Inr net | None \<Rightarrow> Inl (Invalid_proxy_entry s))
            (filter (\<lambda>s. s \<noteq> []) (map trim texts)))"

definition client_policy_from_conf :: "('d, 'b) val_env \<Rightarrow> 'n nets \<Rightarrow> ('k, 'h) headers \<Rightarrow> ('d, 'b) val \<Rightarrow>
    client_error + ('n, 'k) client_ip_policy" where
  "client_policy_from_conf E N H conf =
     (let trusted = get_bool_or_default conf ''network.client-ip.trusted-proxy'' False;
          text = get_str_or_default E conf ''network.client-ip.header'' ''x-forwarded-for'';
          header = (if trusted then header_name H text else Some (header_static H ''x-forwarded-for''))
      in case header of
           None \<Rightarrow> Inl (Invalid_header text)
         | Some k \<Rightarrow>
             (case (if trusted then parse_trusted_proxies N (val_get conf ''network.client-ip.trusted-proxies'') else Inr []) of
                Inl e \<Rightarrow> Inl e
              | Inr nets \<Rightarrow>
                  if trusted \<and> nets = [] then Inl No_trusted_proxies
                  else Inr \<lparr>trusted_proxy = trusted, trusted_proxies = nets, forwarded_header = k\<rparr>))"

definition is_trusted :: "'n nets \<Rightarrow> ('n, 'k) client_ip_policy \<Rightarrow> ip \<Rightarrow> bool" where
  "is_trusted N P ip = list_ex (\<lambda>net. net_contains N net ip) (trusted_proxies P)"

definition legacy_value :: "('k, 'h) headers \<Rightarrow> 'h \<Rightarrow> string \<Rightarrow> string option" where
  "legacy_value H hs name =
     (case header_str H hs (header_static H name) of
        None \<Rightarrow> None
      | Some v \<Rightarrow> (let first = trim (hd (split_on CHR '','' v)) in if first = [] then None else Some first))"

definition legacy_forwarded_value :: "('k, 'h) headers \<Rightarrow> 'h \<Rightarrow> string option" where
  "legacy_forwarded_value H hs =
     (case legacy_value H hs ''x-forwarded-for'' of
        Some v \<Rightarrow> Some v
      | None \<Rightarrow> legacy_value H hs ''x-real-ip'')"

text \<open>The loop over the entries of the header: \<open>None\<close> when one is not an address.\<close>

fun read_chain :: "string list \<Rightarrow> ip list option" where
  "read_chain [] = Some []"
| "read_chain (s # ss) =
     (case parse_ip (trim s) of
        None \<Rightarrow> None
      | Some ip \<Rightarrow> map_option ((#) ip) (read_chain ss))"

definition resolve :: "'n nets \<Rightarrow> ('k, 'h) headers \<Rightarrow> ('n, 'k) client_ip_policy \<Rightarrow> 'h \<Rightarrow> sock \<Rightarrow> string option" where
  "resolve N H P hs peer =
     (if \<not> trusted_proxy P then legacy_forwarded_value H hs
      else let peer_ip = sock_ip peer
           in if \<not> is_trusted N P peer_ip then Some (show_ip peer_ip)
              else case header_str H hs (forwarded_header P) of
                     None \<Rightarrow> Some (show_ip peer_ip)
                   | Some v \<Rightarrow>
                       (case read_chain (split_on CHR '','' v) of
                          None \<Rightarrow> Some (show_ip peer_ip)
                        | Some entries \<Rightarrow>
                            if entries = [] then Some (show_ip peer_ip)
                            else let chain = entries @ [peer_ip]
                                 in Some (show_ip (case find (\<lambda>ip. \<not> is_trusted N P ip) (rev chain) of
                                                     Some ip \<Rightarrow> ip
                                                   | None \<Rightarrow> hd chain))))"

text \<open>The middleware stores the address with the request.\<close>

record ('h, 'x) request =
  req_headers :: 'h
  req_client_ip :: "string option"
  req_rest :: 'x

definition client_ip_middleware :: "'n nets \<Rightarrow> ('k, 'h) headers \<Rightarrow> ('n, 'k) client_ip_policy \<Rightarrow> sock \<Rightarrow> ('h, 'x) request \<Rightarrow> ('h, 'x) request" where
  "client_ip_middleware N H P peer r =
     (case resolve N H P (req_headers r) peer of Some ip \<Rightarrow> r\<lparr>req_client_ip := Some ip\<rparr> | None \<Rightarrow> r)"

section \<open>Forged entries\<close>

lemma read_chain_append:
  "read_chain (xs @ ys) =
     (case read_chain xs of None \<Rightarrow> None | Some as \<Rightarrow> (case read_chain ys of None \<Rightarrow> None | Some bs \<Rightarrow> Some (as @ bs)))"
  by (induction xs) (auto split: option.splits)

lemma find_append: "find Q (xs @ ys) = (case find Q xs of Some x \<Rightarrow> Some x | None \<Rightarrow> find Q ys)"
  by (induction xs) auto

lemma split_on_join_two: "split_on c (a @ c # b) = split_on c a @ split_on c b"
proof (induction a)
  case (Cons x a)
  then show ?case using split_on_not_Nil [of c a] by (cases "split_on c a") auto
qed simp

text \<open>C31. What a client writes in front of the header does not choose its address: when a trusted proxy
  appended entries \<open>seen\<close> of which one is not a trusted proxy, any text the client sent before them either
  leaves the result as it is for \<open>seen\<close> alone, the last entry that is not trusted, or, when it is not a list of
  addresses, makes the result the address of the peer.\<close>
theorem forged_entries_ignored:
  assumes "trusted_proxy P" "is_trusted N P (sock_ip peer)"
    and "header_str H hs (forwarded_header P) = Some (forged @ CHR '','' # seen)"
    and "read_chain (split_on CHR '','' seen) = Some entries"
    and "find (\<lambda>ip. \<not> is_trusted N P ip) (rev entries) = Some client"
  shows "resolve N H P hs peer =
    Some (show_ip (if read_chain (split_on CHR '','' forged) = None then sock_ip peer else client))"
proof (cases "read_chain (split_on CHR '','' forged)")
  case None
  with assms(1-3) show ?thesis by (simp add: resolve_def split_on_join_two read_chain_append)
next
  case (Some as)
  have ne: "entries \<noteq> []" using assms(5) by auto
  have "find (\<lambda>ip. \<not> is_trusted N P ip) (rev (as @ entries @ [sock_ip peer])) = Some client"
    using assms(2,5) by (auto simp: find_append split: option.splits)
  with Some ne assms(1-4) show ?thesis by (simp add: resolve_def split_on_join_two read_chain_append)
qed

section \<open>An instance\<close>

text \<open>Requests whose only header is the forwarded one, behind proxies of 10.0.0.0/8.\<close>

definition one_header :: "(unit, string) headers" where
  "one_header = \<lparr>header_name = (\<lambda>_. Some ()), header_static = (\<lambda>_. ()), header_str = (\<lambda>h _. Some h)\<rparr>"

definition ten_proxies :: "(ip \<times> nat, unit) client_ip_policy" where
  "ten_proxies = \<lparr>trusted_proxy = True, trusted_proxies = [(V4 0x0a000000, 8)], forwarded_header = ()\<rparr>"

definition proxy_peer :: sock where
  "proxy_peer = \<lparr>sock_ip = V4 0x0a000001, sock_port = 443, sock_flow = 0, sock_scope = 0\<rparr>"

lemma one_entry: "read_chain [''8.8.8.8''] = Some [V4 0x08080808]"
  by (simp add: trim_visible visible_def) (simp add: parse_eval of_octets_def)

lemma ten_trusted: "is_trusted plain_nets ten_proxies (V4 a) \<longleftrightarrow> unat a div 2 ^ 24 = 10"
  by (simp add: is_trusted_def ten_proxies_def plain_nets_def)

theorem forged_entries_ignored_witness:
  "resolve plain_nets one_header ten_proxies ''8.8.8.8,8.8.8.8'' proxy_peer = Some (show_ip (V4 0x08080808)) \<and>
   resolve plain_nets one_header ten_proxies ''?,8.8.8.8'' proxy_peer = Some (show_ip (V4 0x0a000001))"
proof -
  have p: "trusted_proxy ten_proxies" "is_trusted plain_nets ten_proxies (sock_ip proxy_peer)"
    by (simp_all add: ten_trusted proxy_peer_def) (simp add: ten_proxies_def)
  have s: "split_on CHR '','' ''8.8.8.8'' = [''8.8.8.8'']" "split_on CHR '','' ''?'' = [''?'']" by simp_all
  have c: "find (\<lambda>ip. \<not> is_trusted plain_nets ten_proxies ip) (rev [V4 0x08080808]) = Some (V4 0x08080808)"
    by (simp add: ten_trusted)
  have bad: "read_chain [''?''] = None" by (simp add: trim_visible visible_def) (simp add: parse_eval)
  note r = forged_entries_ignored [OF p _ _ c, where H = one_header and seen = "''8.8.8.8''"]
  have "resolve plain_nets one_header ten_proxies (''8.8.8.8'' @ CHR '','' # ''8.8.8.8'') proxy_peer = Some (show_ip (V4 0x08080808))"
    by (subst r [of _ "''8.8.8.8''"]) (simp_all only: s one_entry one_header_def headers.simps option.distinct if_False)
  moreover have "resolve plain_nets one_header ten_proxies (''?'' @ CHR '','' # ''8.8.8.8'') proxy_peer = Some (show_ip (V4 0x0a000001))"
    by (subst r [of _ "''?''"]) (simp_all only: s one_entry bad one_header_def headers.simps if_True proxy_peer_def sock.simps simp_thms)
  ultimately show ?thesis by simp
qed

end
