(* ===== verification/Hot_Range.thy ===== *)
theory Hot_Range
  imports Hot_Val
begin

text \<open>
  Integer ranges: \<^verbatim>\<open>range\<close> and \<^verbatim>\<open>build_int_range\<close> of \<^verbatim>\<open>crates/hot/src/lang/hot/coll.rs\<close>, the count and the cap of
  \<^verbatim>\<open>crates/hot/src/lang/runtime/limits.rs\<close>, and the calls by which the interpreter reaches them. An \<^verbatim>\<open>i64\<close> is an \<open>int\<close>
  with its wrap-around written out: the release profile of the workspace leaves overflow checks off. The modes
  for decimal numbers compute with floating point and are the parameter \<open>other\<close>.
\<close>

section \<open>Machine integers\<close>

definition is_i64 :: "int \<Rightarrow> bool" where
  "is_i64 i \<longleftrightarrow> - (2 ^ 63) \<le> i \<and> i < 2 ^ 63"

definition i64_wrap :: "int \<Rightarrow> int" where
  "i64_wrap i = (i + 2 ^ 63) mod 2 ^ 64 - 2 ^ 63"

definition checked_add :: "int \<Rightarrow> int \<Rightarrow> int option" where
  "checked_add a b = (if is_i64 (a + b) then Some (a + b) else None)"

lemma i64_wrap_id: "is_i64 i \<Longrightarrow> i64_wrap i = i"
  by (simp add: is_i64_def i64_wrap_def)

section \<open>Limits\<close>

definition range_element_count :: "int \<Rightarrow> int \<Rightarrow> int \<Rightarrow> nat option" where
  "range_element_count from to step =
     (if step = 0 then None
      else let span = to - from
           in if 0 < step \<and> span \<le> 0 \<or> step < 0 \<and> 0 \<le> span then Some 0
              else let count = (nat \<bar>span\<bar> + nat \<bar>step\<bar> - 1) div nat \<bar>step\<bar>
                   in if count < 2 ^ 64 then Some count else None)"

definition check_collection_size :: "nat \<Rightarrow> string \<Rightarrow> nat \<Rightarrow> ('d, 'b) val + unit" where
  "check_collection_size cap op requested =
     (if cap < requested
      then Inl (VStr (op @ '': refusing to allocate collection of '' @ show_nat requested @ '' elements (limit '' @
             show_nat cap @ ''). Raise HOT_MAX_COLLECTION_SIZE if this is intentional.''))
      else Inr ())"

section \<open>Building a range\<close>

text \<open>The loops push the current number and stop with \<open>Some\<close> list, or never (\<open>None\<close>). The ones of
  \<^verbatim>\<open>build_int_range\<close> leave the loop when the next number is not an \<^verbatim>\<open>i64\<close>; the ones of \<^verbatim>\<open>range\<close> wrap around.\<close>

partial_function (option) checked_up :: "int \<Rightarrow> int \<Rightarrow> int \<Rightarrow> int list option" where
  "checked_up current to step =
     (if current < to
      then case checked_add current step of
             Some nxt \<Rightarrow> Option.bind (checked_up nxt to step) (\<lambda>r. Some (current # r))
           | None \<Rightarrow> Some [current]
      else Some [])"

partial_function (option) checked_down :: "int \<Rightarrow> int \<Rightarrow> int \<Rightarrow> int list option" where
  "checked_down current to step =
     (if to < current
      then case checked_add current step of
             Some nxt \<Rightarrow> Option.bind (checked_down nxt to step) (\<lambda>r. Some (current # r))
           | None \<Rightarrow> Some [current]
      else Some [])"

partial_function (option) wrapping_up :: "int \<Rightarrow> int \<Rightarrow> int \<Rightarrow> int list option" where
  "wrapping_up current to step =
     (if current < to then Option.bind (wrapping_up (i64_wrap (current + step)) to step) (\<lambda>r. Some (current # r)) else Some [])"

partial_function (option) wrapping_down :: "int \<Rightarrow> int \<Rightarrow> int \<Rightarrow> int list option" where
  "wrapping_down current to step =
     (if to < current then Option.bind (wrapping_down (i64_wrap (current + step)) to step) (\<lambda>r. Some (current # r)) else Some [])"

text \<open>The outer option is the one of the code (no representable count), the inner one the loop's. Allocation does not fail
  in the model: \<^verbatim>\<open>Vec::with_capacity\<close> panics on a count whose bytes exceed \<^verbatim>\<open>isize::MAX\<close>, which the callers exclude by the cap
  on elements unless it is raised beyond that.\<close>

definition build_int_range :: "int \<Rightarrow> int \<Rightarrow> int \<Rightarrow> int list option option" where
  "build_int_range from to step =
     (case range_element_count from to step of
        None \<Rightarrow> None
      | Some _ \<Rightarrow> Some (if 0 < step then checked_up from to step else checked_down from to step))"

definition ints :: "int list \<Rightarrow> ('d, 'b) val" where
  "ints is = VVec (map VInt is)"

type_synonym ('d, 'b) hot_result = "('d, 'b) val + ('d, 'b) val"

text \<open>\<^verbatim>\<open>range\<close>: \<open>None\<close> is a call that does not return, \<open>Inl\<close> a Hot error.\<close>

definition range_ints :: "nat \<Rightarrow> int \<Rightarrow> int \<Rightarrow> int \<Rightarrow> ('d, 'b) hot_result option" where
  "range_ints cap from to step =
     (if step = 0 then Some (Inl (VStr ''range step cannot be zero''))
      else case check_collection_size cap ''range'' (case range_element_count from to step of Some n \<Rightarrow> n | None \<Rightarrow> 0) of
             Inl e \<Rightarrow> Some (Inl e)
           | Inr _ \<Rightarrow>
               Option.bind (if 0 < step then wrapping_up from to step else wrapping_down from to step)
                 (\<lambda>is. Some (Inr (ints is))))"

definition range_fn :: "(('d, 'b) val list \<Rightarrow> ('d, 'b) hot_result option) \<Rightarrow> nat \<Rightarrow> ('d, 'b) val list \<Rightarrow> ('d, 'b) hot_result option" where
  "range_fn other cap args =
     (case args of
        [VInt to] \<Rightarrow>
          (case check_collection_size cap ''range'' (case range_element_count 0 to 1 of Some n \<Rightarrow> n | None \<Rightarrow> 0) of
             Inl e \<Rightarrow> Some (Inl e)
           | Inr _ \<Rightarrow> Some (Inr (ints [0..to - 1])))
      | [VInt from, VInt to] \<Rightarrow> range_ints cap from to 1
      | [VInt from, VInt to, VInt step] \<Rightarrow> range_ints cap from to step
      | _ \<Rightarrow> other args)"

text \<open>The interpreter's call of \<^verbatim>\<open>range\<close>: the cap is checked, then the checked loops run; what they do not cover goes
  to \<open>range_fn\<close>.\<close>

definition fast_range :: "(('d, 'b) val list \<Rightarrow> ('d, 'b) hot_result option) \<Rightarrow> nat \<Rightarrow> ('d, 'b) val list \<Rightarrow>
    int \<Rightarrow> int \<Rightarrow> int \<Rightarrow> ('d, 'b) hot_result option" where
  "fast_range other cap args from to step =
     (case (case range_element_count from to step of Some n \<Rightarrow> check_collection_size cap ''range'' n | None \<Rightarrow> Inr ()) of
        Inl e \<Rightarrow> Some (Inl e)
      | Inr _ \<Rightarrow>
          (case build_int_range from to step of
             Some r \<Rightarrow> Option.bind r (\<lambda>is. Some (Inr (ints is)))
           | None \<Rightarrow> range_fn other cap args))"

definition call_range :: "(('d, 'b) val list \<Rightarrow> ('d, 'b) hot_result option) \<Rightarrow> nat \<Rightarrow> ('d, 'b) val list \<Rightarrow> ('d, 'b) hot_result option" where
  "call_range other cap args =
     (case args of
        [VInt to] \<Rightarrow> fast_range other cap args 0 to 1
      | [VInt from, VInt to] \<Rightarrow> fast_range other cap args from to 1
      | [VInt from, VInt to, VInt step] \<Rightarrow> fast_range other cap args from to step
      | _ \<Rightarrow> range_fn other cap args)"

section \<open>What a range holds\<close>

text \<open>The reference: \<open>n\<close> numbers from \<open>from\<close> in steps of \<open>step\<close>.\<close>

definition stepped :: "int \<Rightarrow> int \<Rightarrow> nat \<Rightarrow> int list" where
  "stepped from step n = map (\<lambda>k. from + int k * step) [0..<n]"

lemma stepped_0 [simp]: "stepped from step 0 = []"
  by (simp add: stepped_def)

lemma stepped_Suc: "stepped from step (Suc n) = from # stepped (from + step) step n"
  by (simp add: stepped_def map_upt_Suc algebra_simps del: upt_Suc)

text \<open>\<open>n\<close> is the number of steps after which \<open>to\<close> is reached.\<close>

definition up_count :: "int \<Rightarrow> int \<Rightarrow> int \<Rightarrow> nat \<Rightarrow> bool" where
  "up_count from to step n \<longleftrightarrow> to \<le> from + int n * step \<and> (n = 0 \<or> from + int n * step - step < to)"

definition down_count :: "int \<Rightarrow> int \<Rightarrow> int \<Rightarrow> nat \<Rightarrow> bool" where
  "down_count from to step n \<longleftrightarrow> from + int n * step \<le> to \<and> (n = 0 \<or> to < from + int n * step - step)"

lemma up_count_step:
  assumes "up_count from to step (Suc n)" "0 < step"
  shows "from < to \<and> up_count (from + step) to step n"
proof -
  have "to \<le> from + step + int n * step" "from + int n * step < to" using assms(1) by (simp_all add: up_count_def algebra_simps)
  moreover have "0 \<le> int n * step" using assms(2) by simp
  ultimately show ?thesis by (auto simp: up_count_def simp del: mult_nonneg_nonneg)
qed

lemma down_count_step:
  assumes "down_count from to step (Suc n)" "step < 0"
  shows "to < from \<and> down_count (from + step) to step n"
proof -
  have "from + step + int n * step \<le> to" "to < from + int n * step" using assms(1) by (simp_all add: down_count_def algebra_simps)
  moreover have "int n * step \<le> 0" using assms(2) by (simp add: mult_nonneg_nonpos)
  ultimately show ?thesis by (auto simp: down_count_def)
qed

lemma last_step:
  "0 < step \<Longrightarrow> up_count from to step n \<Longrightarrow> to \<le> from \<Longrightarrow> n = 0"
  "step < 0 \<Longrightarrow> down_count from to step n \<Longrightarrow> from \<le> to \<Longrightarrow> n = 0"
  using up_count_step [of "from" to step "n - 1"] down_count_step [of "from" to step "n - 1"] by (cases n; force)+

lemma checked_up_stepped:
  "up_count from to step n \<Longrightarrow> 0 < step \<Longrightarrow> is_i64 from \<Longrightarrow> is_i64 to \<Longrightarrow> checked_up from to step = Some (stepped from step n)"
proof (induction n arbitrary: "from")
  case 0
  then show ?case by (simp add: up_count_def checked_up.simps)
next
  case (Suc n)
  from up_count_step [OF Suc.prems(1,2)] have le: "from < to" and up: "up_count (from + step) to step n" by blast+
  show ?case
  proof (cases "is_i64 (from + step)")
    case True
    with Suc.IH [OF up] Suc.prems le show ?thesis
      by (simp add: checked_up.simps [of "from"] checked_add_def stepped_Suc)
  next
    case False
    with Suc.prems(2-4) have "to \<le> from + step" by (auto simp: is_i64_def)
    then have "n = 0" by (rule last_step(1) [OF Suc.prems(2) up])
    with False le show ?thesis by (simp add: checked_up.simps [of "from"] checked_add_def stepped_Suc)
  qed
qed

lemma checked_down_stepped:
  "down_count from to step n \<Longrightarrow> step < 0 \<Longrightarrow> is_i64 from \<Longrightarrow> is_i64 to \<Longrightarrow> checked_down from to step = Some (stepped from step n)"
proof (induction n arbitrary: "from")
  case 0
  then show ?case by (simp add: down_count_def checked_down.simps)
next
  case (Suc n)
  from down_count_step [OF Suc.prems(1,2)] have le: "to < from" and down: "down_count (from + step) to step n" by blast+
  show ?case
  proof (cases "is_i64 (from + step)")
    case True
    with Suc.IH [OF down] Suc.prems le show ?thesis
      by (simp add: checked_down.simps [of "from"] checked_add_def stepped_Suc)
  next
    case False
    with Suc.prems(2-4) have "from + step \<le> to" by (auto simp: is_i64_def)
    then have "n = 0" by (rule last_step(2) [OF Suc.prems(2) down])
    with False le show ?thesis by (simp add: checked_down.simps [of "from"] checked_add_def stepped_Suc)
  qed
qed

lemma wrapping_up_stepped:
  "up_count from to step n \<Longrightarrow> 0 < step \<Longrightarrow> is_i64 from \<Longrightarrow> is_i64 (to - 1 + step) \<Longrightarrow> wrapping_up from to step = Some (stepped from step n)"
proof (induction n arbitrary: "from")
  case 0
  then show ?case by (simp add: up_count_def wrapping_up.simps)
next
  case (Suc n)
  from up_count_step [OF Suc.prems(1,2)] have le: "from < to" and up: "up_count (from + step) to step n" by blast+
  have "is_i64 (from + step)" using le Suc.prems(2-4) by (auto simp: is_i64_def)
  with Suc.IH [OF up] Suc.prems le show ?case by (simp add: wrapping_up.simps [of "from"] i64_wrap_id stepped_Suc)
qed

lemma wrapping_down_stepped:
  "down_count from to step n \<Longrightarrow> step < 0 \<Longrightarrow> is_i64 from \<Longrightarrow> is_i64 (to + 1 + step) \<Longrightarrow> wrapping_down from to step = Some (stepped from step n)"
proof (induction n arbitrary: "from")
  case 0
  then show ?case by (simp add: down_count_def wrapping_down.simps)
next
  case (Suc n)
  from down_count_step [OF Suc.prems(1,2)] have le: "to < from" and down: "down_count (from + step) to step n" by blast+
  have "is_i64 (from + step)" using le Suc.prems(2-4) by (auto simp: is_i64_def)
  with Suc.IH [OF down] Suc.prems le show ?case by (simp add: wrapping_down.simps [of "from"] i64_wrap_id stepped_Suc)
qed

section \<open>The count\<close>

lemma ceiling_div:
  fixes a s :: nat
  assumes "0 < a" "0 < s"
  shows "a \<le> (a + s - 1) div s * s" "(a + s - 1) div s * s < a + s" "(a + s - 1) div s \<le> a" "0 < (a + s - 1) div s"
proof -
  let ?n = "(a + s - 1) div s"
  have e: "?n * s + (a + s - 1) mod s = a + s - 1" by simp
  have r: "(a + s - 1) mod s < s" using assms(2) by simp
  show lo: "a \<le> ?n * s" using e r assms by linarith
  show "?n * s < a + s" using e assms by linarith
  show "0 < ?n" using lo assms(1) by (cases ?n) auto
  have "a + s - 1 \<le> a * s" using assms by (cases a; cases s) auto
  then show "?n \<le> a" using assms(2) by (metis div_le_mono nonzero_mult_div_cancel_right not_gr0)
qed

lemma range_count:
  assumes "is_i64 from" "is_i64 to" "step \<noteq> 0"
  obtains n where "range_element_count from to step = Some n"
    "0 < step \<Longrightarrow> up_count from to step n" "step < 0 \<Longrightarrow> down_count from to step n"
proof (cases "0 < step \<and> to - from \<le> 0 \<or> step < 0 \<and> 0 \<le> to - from")
  case True
  then show ?thesis
    using that [of 0] assms(3) by (auto simp: range_element_count_def up_count_def down_count_def)
next
  case False
  let ?a = "nat \<bar>to - from\<bar>" and ?s = "nat \<bar>step\<bar>"
  let ?n = "(?a + ?s - 1) div ?s"
  have "0 < ?a" "0 < ?s" using False assms(3) by auto
  note c = ceiling_div [OF this]
  have "?a < 2 ^ 64" using assms(1,2) by (auto simp: is_i64_def nat_less_iff abs_less_iff)
  with c(3) have "?n < 2 ^ 64" by linarith
  then have count: "range_element_count from to step = Some ?n"
    using False assms(3) by (auto simp: range_element_count_def Let_def)
  have i: "int ?a \<le> int ?n * int ?s" "int ?n * int ?s < int ?a + int ?s"
    using c(1,2) by (simp_all only: of_nat_le_iff of_nat_less_iff of_nat_mult [symmetric] of_nat_add [symmetric])
  show ?thesis
  proof (rule that [OF count])
    assume "0 < step"
    with i False show "up_count from to step ?n" by (auto simp: up_count_def)
  next
    assume "step < 0"
    with i False show "down_count from to step ?n" by (auto simp: down_count_def)
  qed
qed

text \<open>C20. The checked loops build exactly the numbers \<open>from\<close>, \<open>from + step\<close>, \<open>\<dots>\<close> before \<open>to\<close>, as many as
  \<open>range_element_count\<close> says, for all machine integers, also where the number after the last does not exist.\<close>
theorem build_int_range_exact:
  assumes "is_i64 from" "is_i64 to" "step \<noteq> 0"
  shows "\<exists>n. range_element_count from to step = Some n \<and> build_int_range from to step = Some (Some (stepped from step n)) \<and>
    (if 0 < step then up_count from to step n else down_count from to step n)"
proof -
  from range_count [OF assms] obtain n where n: "range_element_count from to step = Some n"
    "0 < step \<Longrightarrow> up_count from to step n" "step < 0 \<Longrightarrow> down_count from to step n" by blast
  then have "build_int_range from to step = Some (Some (stepped from step n))"
    using checked_up_stepped checked_down_stepped assms by (cases "0 < step") (simp_all add: build_int_range_def)
  with n assms(3) show ?thesis by auto
qed

theorem build_int_range_exact_witness:
  "\<exists>n. build_int_range (2 ^ 63 - 2) (2 ^ 63 - 1) 2 = Some (Some (stepped (2 ^ 63 - 2) 2 n))"
  using build_int_range_exact [of "2 ^ 63 - 2" "2 ^ 63 - 1" 2] by (auto simp: is_i64_def)

lemma one_argument: "stepped 0 1 n = [0..int n - 1]"
  by (induction n) (simp_all add: stepped_def upto_rec2)

lemma ints_agree:
  assumes "is_i64 from" "is_i64 to" "step \<noteq> 0" "is_i64 (if 0 < step then to - 1 + step else to + 1 + step)"
  shows "range_ints cap from to step = fast_range other cap args from to step"
proof -
  from range_count [OF assms(1-3)] obtain n where n: "range_element_count from to step = Some n"
    "0 < step \<Longrightarrow> up_count from to step n" "step < 0 \<Longrightarrow> down_count from to step n" by blast
  show ?thesis
  proof (cases "0 < step")
    case True
    with n assms wrapping_up_stepped [of "from" to step n] checked_up_stepped [of "from" to step n] show ?thesis
      by (auto simp: range_ints_def fast_range_def build_int_range_def split: sum.splits)
  next
    case False
    with n assms wrapping_down_stepped [of "from" to step n] checked_down_stepped [of "from" to step n] show ?thesis
      by (auto simp: range_ints_def fast_range_def build_int_range_def split: sum.splits)
  qed
qed

lemma one_agrees:
  assumes "is_i64 to"
  shows "range_fn other cap [VInt to] = fast_range other cap args 0 to 1"
proof -
  have "is_i64 0" by (simp add: is_i64_def)
  from range_count [OF this assms, of 1] obtain n where n: "range_element_count 0 to 1 = Some n" "up_count 0 to 1 n" by force
  have "stepped 0 1 n = [0..to - 1]" using n(2) by (cases "int n = to") (auto simp: one_argument up_count_def)
  with n checked_up_stepped [OF n(2) _ \<open>is_i64 0\<close> assms] show ?thesis
    by (auto simp: range_fn_def fast_range_def build_int_range_def split: sum.splits)
qed

text \<open>C32. On integers the interpreter's call and the library function return the same, an error or the numbers
  before \<open>to\<close>, with one, two or three arguments, for every step but zero for which the first number a step
  beyond the last possible one, \<open>to - 1 + step\<close> upwards and \<open>to + 1 + step\<close> downwards, is a machine integer.\<close>
theorem range_paths_agree:
  assumes "is_i64 from" "is_i64 to" "step \<noteq> 0" "is_i64 (if 0 < step then to - 1 + step else to + 1 + step)"
  shows "range_fn other cap [VInt from, VInt to, VInt step] = call_range other cap [VInt from, VInt to, VInt step] \<and>
    range_fn other cap [VInt from, VInt to] = call_range other cap [VInt from, VInt to] \<and>
    range_fn other cap [VInt to] = call_range other cap [VInt to]"
proof (intro conjI)
  have call: "call_range other cap [VInt from, VInt to, VInt step] = fast_range other cap [VInt from, VInt to, VInt step] from to step"
    "call_range other cap [VInt from, VInt to] = fast_range other cap [VInt from, VInt to] from to 1"
    "call_range other cap [VInt to] = fast_range other cap [VInt to] 0 to 1"
    by (simp_all add: call_range_def)
  show "range_fn other cap [VInt to] = call_range other cap [VInt to]" unfolding call by (rule one_agrees [OF assms(2)])
  show "range_fn other cap [VInt from, VInt to] = call_range other cap [VInt from, VInt to]"
    unfolding call using ints_agree [OF assms(1,2), of 1] assms(2) by (simp add: range_fn_def)
  show "range_fn other cap [VInt from, VInt to, VInt step] = call_range other cap [VInt from, VInt to, VInt step]"
    unfolding call using ints_agree [OF assms] by (simp add: range_fn_def)
qed

theorem range_paths_agree_witness:
  "range_fn (\<lambda>_. None) 10 [VInt 1, VInt 6, VInt 2] = (call_range (\<lambda>_. None) 10 [VInt 1, VInt 6, VInt 2] :: (int, unit) hot_result option)"
  by (rule conjunct1 [OF range_paths_agree]) (simp_all add: is_i64_def)

section \<open>Overflow\<close>

lemma i64_wrap_even: "is_i64 (i64_wrap i)" "even (i64_wrap i) = even i"
proof -
  have "0 \<le> (i + 2 ^ 63) mod 2 ^ 64" "(i + 2 ^ 63) mod 2 ^ 64 < 2 ^ 64" by (rule pos_mod_sign, simp, rule pos_mod_bound, simp)
  then show "is_i64 (i64_wrap i)" by (simp add: is_i64_def i64_wrap_def)
  have "even ((i + 2 ^ 63) mod 2 ^ 64) = even (i + 2 ^ 63)" by (rule dvd_mod_iff) simp
  then show "even (i64_wrap i) = even i" by (simp add: i64_wrap_def)
qed

lemma even_never_ends:
  assumes "wrapping_up current to step = Some r"
  shows "to = 2 ^ 63 - 1 \<longrightarrow> step = 2 \<longrightarrow> even current \<longrightarrow> \<not> is_i64 current"
proof (rule wrapping_up.raw_induct
    [where P = "\<lambda>current to step _. to = 2 ^ 63 - 1 \<longrightarrow> step = 2 \<longrightarrow> even current \<longrightarrow> \<not> is_i64 current", OF _ assms])
  fix loop current to step r
  assume ih: "\<And>current to step r. loop current to step = Some r \<Longrightarrow>
      to = 2 ^ 63 - 1 \<longrightarrow> step = 2 \<longrightarrow> even current \<longrightarrow> \<not> is_i64 current"
    and body: "(if current < to then Option.bind (loop (i64_wrap (current + step)) to step) (\<lambda>r. Some (current # r)) else Some []) = Some r"
  show "to = 2 ^ 63 - 1 \<longrightarrow> step = 2 \<longrightarrow> even current \<longrightarrow> \<not> is_i64 current"
  proof (intro impI notI)
    assume a: "to = 2 ^ 63 - 1" "step = 2" "even current" "is_i64 current"
    have "current \<noteq> 2 ^ 63 - 1" using a(3) by auto
    with a(1,4) have "current < to" by (simp add: is_i64_def)
    with body obtain r' where "loop (i64_wrap (current + step)) to step = Some r'" by (auto simp: bind_eq_Some_conv)
    note again = ih [OF this, rule_format, OF a(1,2)]
    have "even (i64_wrap (current + step))" using a(2,3) by (simp only: i64_wrap_even even_add even_numeral simp_thms)
    with again i64_wrap_even(1) show False by blast
  qed
qed

text \<open>C40. The library function does not return where the number after the last one overflows: a range that has one
  number, and passes the cap, wraps around to the least integer and is filled for ever. The interpreter's own
  call returns the one number.\<close>
theorem range_never_ends:
  "range_element_count (2 ^ 63 - 2) (2 ^ 63 - 1) 2 = Some 1 \<and>
   range_fn other (Suc cap) [VInt (2 ^ 63 - 2), VInt (2 ^ 63 - 1), VInt 2] = None \<and>
   call_range other (Suc cap) [VInt (2 ^ 63 - 2), VInt (2 ^ 63 - 1), VInt 2] = Some (Inr (ints [2 ^ 63 - 2]))"
proof -
  have count: "range_element_count (2 ^ 63 - 2) (2 ^ 63 - 1) 2 = Some 1" by (simp add: range_element_count_def)
  have "wrapping_up (2 ^ 63 - 2) (2 ^ 63 - 1) 2 \<noteq> Some r" for r
    using even_never_ends [of "2 ^ 63 - 2" "2 ^ 63 - 1" 2 r] by (auto simp: is_i64_def)
  then have "wrapping_up (2 ^ 63 - 2) (2 ^ 63 - 1) 2 = None" by (cases "wrapping_up (2 ^ 63 - 2) (2 ^ 63 - 1) 2") auto
  moreover have "checked_up (2 ^ 63 - 2) (2 ^ 63 - 1) 2 = Some [2 ^ 63 - 2]"
    by (simp add: checked_up.simps [of "9223372036854775806"] checked_add_def is_i64_def)
  ultimately show ?thesis using count
    by (simp add: range_fn_def call_range_def range_ints_def fast_range_def build_int_range_def check_collection_size_def)
qed

end
