(* ===== verification/Hot_Bit.thy ===== *)
theory Hot_Bit
  imports Hot_Range
begin

unbundle bit_operations_syntax

text \<open>
  Bitwise operations on integers and bytes: \<^verbatim>\<open>crates/hot/src/lang/hot/bit.rs\<close>, with the argument checks of
  \<^verbatim>\<open>crates/hot/src/lang/hot/lib_util.rs\<close>. Bit operations on an \<open>int\<close> read it in two's complement, as those on an
  \<^verbatim>\<open>i64\<close> do; a left shift drops what leaves the 64 bits.
\<close>

section \<open>Arguments\<close>

definition plural :: "nat \<Rightarrow> string" where
  "plural n = (if n = 1 then [] else ''s'')"

definition validate_args :: "string \<Rightarrow> ('d, 'b) val list \<Rightarrow> nat \<Rightarrow> ('d, 'b) hot_result" where
  "validate_args name args expected =
     (if length args \<noteq> expected
      then Inl (VStr (name @ '' expects '' @ show_nat expected @ '' argument'' @ plural expected @ '', got '' @ show_nat (length args)))
      else Inr (VBool True))"

definition validate_args_at_least :: "string \<Rightarrow> ('d, 'b) val list \<Rightarrow> nat \<Rightarrow> ('d, 'b) hot_result" where
  "validate_args_at_least name args expected =
     (if length args < expected
      then Inl (VStr (name @ '' expects at least '' @ show_nat expected @ '' argument'' @ plural expected @ '', got '' @
             show_nat (length args)))
      else Inr (VBool True))"

fun fold_rest :: "(('d, 'b) val \<Rightarrow> ('d, 'b) val \<Rightarrow> ('d, 'b) hot_result) \<Rightarrow> ('d, 'b) hot_result \<Rightarrow> ('d, 'b) val list \<Rightarrow>
    ('d, 'b) hot_result" where
  "fold_rest pair result [] = result"
| "fold_rest pair result (arg # rest) =
     (case result of
        Inr acc \<Rightarrow> if is_err acc then result else fold_rest pair (pair acc arg) rest
      | Inl _ \<Rightarrow> result)"

definition fold_args :: "('d, 'b) val list \<Rightarrow> (('d, 'b) val \<Rightarrow> ('d, 'b) val \<Rightarrow> ('d, 'b) hot_result) \<Rightarrow> ('d, 'b) hot_result" where
  "fold_args args pair = fold_rest pair (pair (args ! 0) (args ! 1)) (drop 2 args)"

section \<open>And, or, exclusive or, not\<close>

definition byte_pair :: "string \<Rightarrow> (int \<Rightarrow> int \<Rightarrow> int) \<Rightarrow> (8 word \<Rightarrow> 8 word \<Rightarrow> 8 word) \<Rightarrow> ('d, 'b) val \<Rightarrow> ('d, 'b) val \<Rightarrow> ('d, 'b) hot_result" where
  "byte_pair name on_int on_byte x y =
     (case (x, y) of
        (VInt a, VInt b) \<Rightarrow> Inr (VInt (on_int a b))
      | (VByte a, VByte b) \<Rightarrow> Inr (VByte (on_byte a b))
      | (VByte a, VInt b) \<Rightarrow>
          if 0 \<le> b \<and> b \<le> 255 then Inr (VByte (on_byte a (of_int b)))
          else Inl (VStr (name @ '': Int '' @ show_int b @ '' is out of byte range (0-255)''))
      | (VInt a, VByte b) \<Rightarrow> Inr (VInt (on_int a (uint b)))
      | _ \<Rightarrow> Inl (VStr (name @ '': Arguments must be Int or Byte'')))"

definition and_pair :: "('d, 'b) val \<Rightarrow> ('d, 'b) val \<Rightarrow> ('d, 'b) hot_result" where
  "and_pair = byte_pair ''::hot::bit/and'' (AND) (AND)"

definition or_pair :: "('d, 'b) val \<Rightarrow> ('d, 'b) val \<Rightarrow> ('d, 'b) hot_result" where
  "or_pair = byte_pair ''::hot::bit/or'' (OR) (OR)"

definition xor_pair :: "('d, 'b) val \<Rightarrow> ('d, 'b) val \<Rightarrow> ('d, 'b) hot_result" where
  "xor_pair = byte_pair ''::hot::bit/xor'' (XOR) (XOR)"

definition folded :: "string \<Rightarrow> (('d, 'b) val \<Rightarrow> ('d, 'b) val \<Rightarrow> ('d, 'b) hot_result) \<Rightarrow> ('d, 'b) val list \<Rightarrow> ('d, 'b) hot_result" where
  "folded name pair args =
     (case args of
        [x, y] \<Rightarrow> pair x y
      | _ \<Rightarrow> (case validate_args_at_least name args 2 of Inl e \<Rightarrow> Inl e | Inr _ \<Rightarrow> fold_args args pair))"

definition bit_and :: "('d, 'b) val list \<Rightarrow> ('d, 'b) hot_result" where
  "bit_and = folded ''::hot::bit/and'' and_pair"

definition bit_or :: "('d, 'b) val list \<Rightarrow> ('d, 'b) hot_result" where
  "bit_or = folded ''::hot::bit/or'' or_pair"

definition bit_xor :: "('d, 'b) val list \<Rightarrow> ('d, 'b) hot_result" where
  "bit_xor = folded ''::hot::bit/xor'' xor_pair"

definition bit_not :: "('d, 'b) val list \<Rightarrow> ('d, 'b) hot_result" where
  "bit_not args =
     (case validate_args ''::hot::bit/not'' args 1 of
        Inl e \<Rightarrow> Inl e
      | Inr _ \<Rightarrow>
          (case args ! 0 of
             VInt a \<Rightarrow> Inr (VInt (NOT a))
           | VByte a \<Rightarrow> Inr (VByte (NOT a))
           | _ \<Rightarrow> Inl (VStr ''::hot::bit/not: Argument must be Int or Byte'')))"

section \<open>Shifts\<close>

text \<open>\<^verbatim>\<open>n as u32\<close> keeps the low 32 bits.\<close>

definition shift_amount :: "string \<Rightarrow> ('d, 'b) val \<Rightarrow> ('d, 'b) val + nat" where
  "shift_amount name v =
     (case v of
        VInt n \<Rightarrow> if n < 0 then Inl (VStr (name @ '': Shift amount must be non-negative'')) else Inr (nat (n mod 2 ^ 32))
      | _ \<Rightarrow> Inl (VStr (name @ '': Shift amount must be an Int'')))"

definition shift_left :: "('d, 'b) val list \<Rightarrow> ('d, 'b) hot_result" where
  "shift_left args =
     (case validate_args ''::hot::bit/shift-left'' args 2 of
        Inl e \<Rightarrow> Inl e
      | Inr _ \<Rightarrow>
          (case shift_amount ''::hot::bit/shift-left'' (args ! 1) of
             Inl e \<Rightarrow> Inl e
           | Inr n \<Rightarrow>
               (case args ! 0 of
                  VInt a \<Rightarrow> Inr (VInt (if 64 \<le> n then 0 else i64_wrap (push_bit n a)))
                | VByte a \<Rightarrow> Inr (VByte (if 8 \<le> n then 0 else push_bit n a))
                | _ \<Rightarrow> Inl (VStr ''::hot::bit/shift-left: First argument must be Int or Byte''))))"

definition shift_right :: "('d, 'b) val list \<Rightarrow> ('d, 'b) hot_result" where
  "shift_right args =
     (case validate_args ''::hot::bit/shift-right'' args 2 of
        Inl e \<Rightarrow> Inl e
      | Inr _ \<Rightarrow>
          (case shift_amount ''::hot::bit/shift-right'' (args ! 1) of
             Inl e \<Rightarrow> Inl e
           | Inr n \<Rightarrow>
               (case args ! 0 of
                  VInt a \<Rightarrow> Inr (VInt (if 64 \<le> n then (if a < 0 then - 1 else 0) else drop_bit n a))
                | VByte a \<Rightarrow> Inr (VByte (if 8 \<le> n then 0 else drop_bit n a))
                | _ \<Rightarrow> Inl (VStr ''::hot::bit/shift-right: First argument must be Int or Byte''))))"

section \<open>What the operations return\<close>

lemma i64_wrap_multiple:
  assumes "64 \<le> n"
  shows "i64_wrap (a * 2 ^ n) = 0"
proof -
  obtain k where "n = k + 64" using assms by (metis add.commute le_Suc_ex)
  then have e: "a * 2 ^ n = a * 2 ^ k * 2 ^ 64" by (simp add: power_add)
  show ?thesis unfolding e i64_wrap_def by simp
qed

lemma drop_far:
  assumes "is_i64 a" "64 \<le> n"
  shows "a div 2 ^ n = (if a < 0 then - 1 else 0)"
proof -
  have "(2 :: int) ^ 63 \<le> 2 ^ n" using assms(2) by (intro power_increasing) simp_all
  then show ?thesis using assms(1) int_div_pos_eq [of a "2 ^ n" "- 1" "a + 2 ^ n"]
    by (auto simp: is_i64_def div_pos_pos_trivial)
qed

text \<open>For a shift amount below \<open>2^32\<close> a left shift multiplies by a power of two and keeps the low 64 bits, also
  when all bits leave, and a right shift divides and rounds down, also for negative numbers.\<close>
theorem shifts_are_arithmetic:
  assumes "is_i64 a" "0 \<le> n" "n < 2 ^ 32"
  shows "shift_left [VInt a, VInt n] = Inr (VInt (i64_wrap (a * 2 ^ nat n))) \<and>
    shift_right [VInt a, VInt n] = Inr (VInt (a div 2 ^ nat n))"
proof -
  have "n mod 2 ^ 32 = n" using assms(2,3) by simp
  then show ?thesis
    using assms(2) i64_wrap_multiple [of "nat n" a] drop_far [OF assms(1), of "nat n"]
    by (auto simp: shift_left_def shift_right_def validate_args_def shift_amount_def push_bit_eq_mult drop_bit_eq_div
        simp del: One_nat_def)
qed

theorem shifts_are_arithmetic_witness:
  "shift_right [VInt (- 8), VInt 100] = (Inr (VInt ((- 8) div 2 ^ nat 100)) :: (int, unit) hot_result)"
  by (rule conjunct2 [OF shifts_are_arithmetic]) (simp_all add: is_i64_def)

text \<open>A shift amount of \<open>2^32\<close> or more loses its high bits: shifting by \<open>2^32\<close> changes nothing, where
  every shift by 64 or more below it returns zero.\<close>
theorem shift_amount_truncated:
  "shift_left [VInt a, VInt (2 ^ 32)] = Inr (VInt (i64_wrap a)) \<and> shift_left [VInt a, VInt (2 ^ 32 - 1)] = Inr (VInt 0)"
  by (simp add: shift_left_def validate_args_def shift_amount_def)

end
