(* ===== verification/Hot_Capacity.thy ===== *)
theory Hot_Capacity
  imports Hot_Conf
begin

text \<open>
  How many virtual machines, containers and database connections a process runs:
  \<^verbatim>\<open>crates/hot/src/runtime_budget.rs\<close>. Machine integers are \<open>nat\<close> with their saturation and wrap-around written out.
  What is read from the machine (files of the control group, the number of processors) is the parameter
  \<open>machine\<close>.
\<close>

section \<open>The machine\<close>

record machine =
  read_file :: "string \<Rightarrow> string option"
  available_parallelism :: "nat option"

definition u64_max :: nat where "u64_max = 2 ^ 64 - 1"
definition sat_mul :: "nat \<Rightarrow> nat \<Rightarrow> nat" where "sat_mul a b = min (a * b) u64_max"
definition sat_add :: "nat \<Rightarrow> nat \<Rightarrow> nat" where "sat_add a b = min (a + b) u64_max"
definition div_ceil :: "nat \<Rightarrow> nat \<Rightarrow> nat" where "div_ceil a b = (a + b - 1) div b"

definition blank_at :: "string \<Rightarrow> bool" where
  "blank_at s \<longleftrightarrow> list_ex (\<lambda>w. starts_with s w) white_space"

fun take_word :: "string \<Rightarrow> string \<times> string" where
  "take_word [] = ([], [])"
| "take_word (c # cs) = (if blank_at (c # cs) then ([], c # cs) else case take_word cs of (w, r) \<Rightarrow> (c # w, r))"

text \<open>The first two pieces of \<^verbatim>\<open>split_whitespace\<close>.\<close>

definition next_word :: "string \<Rightarrow> (string \<times> string) option" where
  "next_word s = (let s' = trim_front white_space s in if s' = [] then None else Some (take_word s'))"

definition v2_quota :: "machine \<Rightarrow> nat option option" where
  "v2_quota M =
     (case read_file M ''/sys/fs/cgroup/cpu.max'' of
        None \<Rightarrow> Some None
      | Some text \<Rightarrow>
          (case next_word text of
             None \<Rightarrow> None
           | Some (quota, rest) \<Rightarrow>
               (case next_word rest of
                  None \<Rightarrow> None
                | Some (period, _) \<Rightarrow>
                    if quota = ''max'' then Some None
                    else case (parse_u64 quota, parse_u64 period) of
                           (Some q, Some p) \<Rightarrow> Some (Some (max (div_ceil q (max p 1)) 1))
                         | _ \<Rightarrow> None)))"

definition v1_quota :: "machine \<Rightarrow> nat option" where
  "v1_quota M =
     (case Option.bind (read_file M ''/sys/fs/cgroup/cpu/cpu.cfs_quota_us'') (\<lambda>t. parse_i64 (trim t)) of
        None \<Rightarrow> None
      | Some quota \<Rightarrow>
          if quota \<le> 0 then None
          else case Option.bind (read_file M ''/sys/fs/cgroup/cpu/cpu.cfs_period_us'') (\<lambda>t. parse_u64 (trim t)) of
                 None \<Rightarrow> None
               | Some period \<Rightarrow> Some (max (div_ceil (nat quota) (max period 1)) 1))"

text \<open>\<open>None\<close> from the first half is a return with no quota, \<open>Some None\<close> goes on to the second.\<close>

definition cgroup_cpu_quota :: "machine \<Rightarrow> nat option" where
  "cgroup_cpu_quota M = (case v2_quota M of None \<Rightarrow> None | Some (Some n) \<Rightarrow> Some n | Some None \<Rightarrow> v1_quota M)"

definition effective_cpu_parallelism :: "machine \<Rightarrow> bool \<Rightarrow> nat" where
  "effective_cpu_parallelism M shared =
     (let cpus = max (case cgroup_cpu_quota M of
                        Some n \<Rightarrow> n
                      | None \<Rightarrow> (case available_parallelism M of Some n \<Rightarrow> n | None \<Rightarrow> 1)) 1
      in if shared then max (cpus div 2) 1 else cpus)"

fun first_limit :: "machine \<Rightarrow> string list \<Rightarrow> nat option" where
  "first_limit M [] = None"
| "first_limit M (path # paths) =
     (case read_file M path of
        None \<Rightarrow> first_limit M paths
      | Some raw \<Rightarrow>
          (let trimmed = trim raw
           in if trimmed = ''max'' then None
              else case parse_u64 trimmed of
                     None \<Rightarrow> None
                   | Some bytes \<Rightarrow> if 0 < bytes \<and> bytes < 2 ^ 60 then Some bytes else first_limit M paths))"

definition cgroup_memory_limit_bytes :: "machine \<Rightarrow> nat option" where
  "cgroup_memory_limit_bytes M =
     first_limit M [''/sys/fs/cgroup/memory.max'', ''/sys/fs/cgroup/memory/memory.limit_in_bytes'']"

definition detected_memory_limit_mb :: "machine \<Rightarrow> nat option" where
  "detected_memory_limit_mb M = map_option (\<lambda>bytes. max (bytes div (1024 * 1024)) 1) (cgroup_memory_limit_bytes M)"

section \<open>Settings\<close>

definition DEFAULT_DB_MAX_CONNECTIONS :: nat where "DEFAULT_DB_MAX_CONNECTIONS = 50"
definition TASK_PROCESS_RESERVE_MB :: nat where "TASK_PROCESS_RESERVE_MB = 512"

definition configured_usize :: "('d, 'b) val \<Rightarrow> string \<Rightarrow> nat option" where
  "configured_usize conf path =
     (case val_get conf path of
        Some (VInt i) \<Rightarrow> if 0 < i then Some (nat i) else None
      | Some (VStr s) \<Rightarrow>
          (let s = trim s
           in if eq_ignore_ascii_case s ''auto'' \<or> s = [] \<or> s = ''null'' then None
              else case parse_usize s of Some n \<Rightarrow> if 0 < n then Some n else None | None \<Rightarrow> None)
      | _ \<Rightarrow> None)"

definition code_memory_percent :: "('d, 'b) val_env \<Rightarrow> ('d, 'b) val \<Rightarrow> nat" where
  "code_memory_percent E conf = nat (max 0 (min 100 (get_int_or_default E conf ''task.code-memory-percent'' 50)))"

definition task_memory_ceiling_mb :: "('d, 'b) val_env \<Rightarrow> machine \<Rightarrow> ('d, 'b) val \<Rightarrow> nat" where
  "task_memory_ceiling_mb E M conf =
     (let configured = nat (max (get_int_or_default E conf ''task.worker-memory-mb'' 8192) 1)
      in case detected_memory_limit_mb M of Some detected \<Rightarrow> min detected configured | None \<Rightarrow> configured)"

definition task_usable_memory_mb :: "('d, 'b) val_env \<Rightarrow> ('d, 'b) val \<Rightarrow> nat \<Rightarrow> nat" where
  "task_usable_memory_mb E conf ceiling_mb =
     (let container_reserve_mb = nat (max (get_int_or_default E conf ''task.container-reserved-memory-mb'' 512) 0);
          recovery_slots = nat (max (get_int_or_default E conf ''task.recovery-reserved-slots'' 1) 0);
          recovery_reserve_mb = sat_mul container_reserve_mb (max recovery_slots 1)
      in max (ceiling_mb - TASK_PROCESS_RESERVE_MB - recovery_reserve_mb) 1)"

section \<open>Derived limits\<close>

record derived_concurrency =
  requested :: nat
  resolved :: nat
  cpu_limit :: nat
  memory_limit :: "nat option"
  memory_limit_mb :: "nat option"
  explicit :: bool
  shared_process :: bool

definition at_most :: "nat option \<Rightarrow> nat \<Rightarrow> nat" where
  "at_most limit n = (case limit of Some m \<Rightarrow> min n m | None \<Rightarrow> n)"

definition derive_worker_vm_concurrency :: "('d, 'b) val_env \<Rightarrow> machine \<Rightarrow> ('d, 'b) val \<Rightarrow> nat \<Rightarrow> derived_concurrency" where
  "derive_worker_vm_concurrency E M conf wanted =
     (let req = max wanted 1;
          shared = get_bool_or_default conf ''worker.shared-process'' False;
          limit_mb = detected_memory_limit_mb M;
          vm_memory_mb = nat (max (get_int_or_default E conf ''worker.vm-memory-mb'' 256) 1);
          reserved_memory_mb = nat (max (get_int_or_default E conf ''worker.reserved-memory-mb'' 512) 0);
          limit = map_option (\<lambda>l. max ((l - reserved_memory_mb) div vm_memory_mb) 1) limit_mb
      in case configured_usize conf ''worker.vm-concurrency'' of
           Some n \<Rightarrow>
             \<lparr>requested = req, resolved = max (at_most limit (min n req)) 1, cpu_limit = req, memory_limit = limit,
              memory_limit_mb = limit_mb, explicit = True, shared_process = shared\<rparr>
         | None \<Rightarrow>
             (let cpus = max (effective_cpu_parallelism M shared) 1
              in \<lparr>requested = req, resolved = max (at_most limit (min req cpus)) 1, cpu_limit = cpus, memory_limit = limit,
                  memory_limit_mb = limit_mb, explicit = False, shared_process = shared\<rparr>))"

definition code_share_mb :: "('d, 'b) val_env \<Rightarrow> machine \<Rightarrow> ('d, 'b) val \<Rightarrow> nat" where
  "code_share_mb E M conf =
     sat_mul (task_usable_memory_mb E conf (task_memory_ceiling_mb E M conf)) (code_memory_percent E conf) div 100"

definition code_vm_memory_mb :: "('d, 'b) val_env \<Rightarrow> ('d, 'b) val \<Rightarrow> nat" where
  "code_vm_memory_mb E conf = nat (max (get_int_or_default E conf ''task.code-vm-memory-mb'' 256) 1)"

definition derive_task_code_concurrency :: "('d, 'b) val_env \<Rightarrow> machine \<Rightarrow> ('d, 'b) val \<Rightarrow> nat \<Rightarrow> derived_concurrency" where
  "derive_task_code_concurrency E M conf wanted =
     (let req = max wanted 1;
          shared = get_bool_or_default conf ''worker.shared-process'' False;
          cpus = max (effective_cpu_parallelism M shared) 1;
          limit = Some (max (code_share_mb E M conf div code_vm_memory_mb E conf) 1)
      in \<lparr>requested = req, resolved = max (at_most limit (min req cpus)) 1, cpu_limit = cpus, memory_limit = limit,
          memory_limit_mb = Some (task_memory_ceiling_mb E M conf), explicit = False, shared_process = shared\<rparr>)"

record derived_containers =
  ct_requested :: nat
  ct_resolved :: nat
  ct_memory_limit :: nat
  ct_disk_limit :: nat
  ct_memory_budget_mb :: nat
  ct_disk_budget_mb :: nat
  ct_explicit :: bool
  ct_recovery_slots :: nat
  ct_backend :: string

definition derive_task_container_concurrency :: "('d, 'b) val_env \<Rightarrow> machine \<Rightarrow> ('d, 'b) val \<Rightarrow> nat \<Rightarrow> nat \<Rightarrow> nat \<Rightarrow> nat \<Rightarrow>
    nat \<Rightarrow> nat \<Rightarrow> string \<Rightarrow> derived_containers" where
  "derive_task_container_concurrency E M conf legacy_requested worker_memory_mb worker_disk_mb
      default_memory_mb default_disk_mb default_tmp_mb backend =
     (let configured = configured_usize conf ''task.container-max-concurrent'';
          req = max (case configured of Some n \<Rightarrow> n | None \<Rightarrow> max legacy_requested 1) 1;
          slots = nat (max (get_int_or_default E conf ''task.recovery-reserved-slots'' 1) 0);
          reserved_disk_mb = nat (max (get_int_or_default E conf ''task.container-reserved-disk-mb'' 10240) 0) * max slots 1 mod 2 ^ 64;
          ceiling_mb = (case detected_memory_limit_mb M of
                          Some limit \<Rightarrow> min limit (max worker_memory_mb 1)
                        | None \<Rightarrow> max worker_memory_mb 1);
          usable_mb = task_usable_memory_mb E conf ceiling_mb;
          memory_budget_mb = max (sat_mul usable_mb (100 - code_memory_percent E conf) div 100) 1;
          disk_budget_mb = max (max worker_disk_mb 1 - reserved_disk_mb) 1;
          limit_memory = max (memory_budget_mb div max (sat_add default_memory_mb default_tmp_mb) 1) 1;
          limit_disk = max (disk_budget_mb div max default_disk_mb 1) 1
      in \<lparr>ct_requested = req, ct_resolved = max (min (min req limit_memory) limit_disk) 1, ct_memory_limit = limit_memory,
          ct_disk_limit = limit_disk, ct_memory_budget_mb = memory_budget_mb, ct_disk_budget_mb = disk_budget_mb,
          ct_explicit = (configured \<noteq> None), ct_recovery_slots = slots, ct_backend = backend\<rparr>)"

definition worker_budget :: "('d, 'b) val_env \<Rightarrow> machine \<Rightarrow> ('d, 'b) val \<Rightarrow> nat" where
  "worker_budget E M conf =
     (case configured_usize conf ''worker.threads'' of
        Some n \<Rightarrow> resolved (derive_worker_vm_concurrency E M conf n)
      | None \<Rightarrow> 0)"

definition derive_postgres_pool_connections :: "('d, 'b) val_env \<Rightarrow> machine \<Rightarrow> ('d, 'b) val \<Rightarrow> nat" where
  "derive_postgres_pool_connections E M conf =
     (let task_code_budget =
            (if val_get conf ''task'' \<noteq> None
             then resolved (derive_task_code_concurrency E M conf (nat (max (get_int_or_default E conf ''task.code-max-concurrent'' 500) 1)))
             else 0);
          reserved = nat (max (get_int_or_default E conf ''worker.db-reserved-connections'' 4) 1);
          derived = max (sat_add (max (worker_budget E M conf) task_code_budget) reserved) 10;
          floor = (if get_bool_or_default conf ''scheduler.singleton'' False \<and> val_get conf ''scheduler'' \<noteq> None then 2 else 1);
          ceiling = (case configured_usize conf ''worker.db-max-connections'' of
                       Some c \<Rightarrow> max c floor
                     | None \<Rightarrow> DEFAULT_DB_MAX_CONNECTIONS)
      in min (min derived ceiling) (2 ^ 32 - 1))"

definition derive_sqlite_pool_connections :: "('d, 'b) val_env \<Rightarrow> machine \<Rightarrow> ('d, 'b) val \<Rightarrow> nat" where
  "derive_sqlite_pool_connections E M conf =
     (let write_headroom = nat (max (get_int_or_default E conf ''worker.local-write-concurrency'' 1) 1)
      in min (max (sat_add (worker_budget E M conf) write_headroom) 10) (2 ^ 32 - 1))"

section \<open>Shares of memory\<close>

lemma shares_disjoint:
  assumes "p \<le> 100"
  shows "sat_mul u p div 100 + sat_mul u (100 - p) div 100 \<le> u"
proof -
  have "sat_mul u p div 100 + sat_mul u (100 - p) div 100 \<le> u * p div 100 + u * (100 - p) div 100"
    by (intro add_mono div_le_mono) (simp_all add: sat_mul_def)
  also have "\<dots> \<le> (u * p + u * (100 - p)) div 100" by (simp add: div_add1_eq [of "u * p" _ 100])
  also have "u * p + u * (100 - p) = u * 100" using assms by (simp add: add_mult_distrib2 [symmetric])
  finally show ?thesis by simp
qed

lemma percent_le: "code_memory_percent E conf \<le> 100"
  by (simp add: code_memory_percent_def)

lemma ceiling_pos: "1 \<le> task_memory_ceiling_mb E M conf"
  by (auto simp: task_memory_ceiling_mb_def detected_memory_limit_mb_def Let_def le_max_iff_disj split: option.splits)

lemma usable_le: "1 \<le> ceiling_mb \<Longrightarrow> task_usable_memory_mb E conf ceiling_mb \<le> ceiling_mb"
  by (simp add: task_usable_memory_mb_def Let_def)

lemma resolved_times:
  assumes "n \<le> max (share div unit) 1" "unit \<le> share" "0 < unit"
  shows "n * unit \<le> (share :: nat)"
proof -
  have "1 \<le> share div unit" using assms(2,3) by (simp add: div_greater_zero_iff Suc_leI)
  with assms(1) have "n * unit \<le> share div unit * unit" by (intro mult_le_mono1) simp
  then show ?thesis by (rule order_trans) simp
qed

definition setting_worker_memory :: "('d, 'b) val_env \<Rightarrow> ('d, 'b) val \<Rightarrow> nat" where
  "setting_worker_memory E conf = nat (max (get_int_or_default E conf ''task.worker-memory-mb'' 8192) 1)"

lemma same_ceiling:
  "(case detected_memory_limit_mb M of
      Some limit \<Rightarrow> min limit (max (setting_worker_memory E conf) 1)
    | None \<Rightarrow> max (setting_worker_memory E conf) 1) = task_memory_ceiling_mb E M conf"
  by (auto simp: task_memory_ceiling_mb_def setting_worker_memory_def Let_def split: option.splits)

lemma code_resolved: "resolved (derive_task_code_concurrency E M conf wanted) \<le> max (code_share_mb E M conf div code_vm_memory_mb E conf) 1"
  by (simp add: derive_task_code_concurrency_def at_most_def Let_def)

lemma clamped: "1 \<le> b \<Longrightarrow> max (min (min a b) c) 1 \<le> (b :: nat)"
  by simp

lemma ct_resolved_le:
  "ct_resolved (derive_task_container_concurrency E M conf n w disk m d t backend) \<le>
     max (ct_memory_budget_mb (derive_task_container_concurrency E M conf n w disk m d t backend) div max (sat_add m t) 1) 1"
  unfolding derive_task_container_concurrency_def Let_def derived_containers.simps by (rule clamped) simp

text \<open>C19. Code machines and containers together fit the memory of a task worker: when the share of each holds at
  least one of them, what the resolved numbers of both use is within the usable memory, which is within the
  smaller of the detected limit and the setting.\<close>
theorem task_memory_not_overcommitted:
  assumes "code_vm_memory_mb E conf \<le> code_share_mb E M conf"
    and "1 < ct_memory_budget_mb (derive_task_container_concurrency E M conf n (setting_worker_memory E conf) disk m d t backend)"
    and "max (sat_add m t) 1 \<le> ct_memory_budget_mb (derive_task_container_concurrency E M conf n (setting_worker_memory E conf) disk m d t backend)"
  shows "resolved (derive_task_code_concurrency E M conf wanted) * code_vm_memory_mb E conf +
      ct_resolved (derive_task_container_concurrency E M conf n (setting_worker_memory E conf) disk m d t backend) * max (sat_add m t) 1
    \<le> task_usable_memory_mb E conf (task_memory_ceiling_mb E M conf) \<and>
    task_usable_memory_mb E conf (task_memory_ceiling_mb E M conf) \<le> task_memory_ceiling_mb E M conf"
proof -
  let ?u = "task_usable_memory_mb E conf (task_memory_ceiling_mb E M conf)" and ?p = "code_memory_percent E conf"
  let ?ct = "derive_task_container_concurrency E M conf n (setting_worker_memory E conf) disk m d t backend"
  have budget: "ct_memory_budget_mb ?ct = max (sat_mul ?u (100 - ?p) div 100) 1"
    unfolding derive_task_container_concurrency_def Let_def derived_containers.simps same_ceiling ..
  have "code_vm_memory_mb E conf > 0" by (simp add: code_vm_memory_mb_def)
  then have code: "resolved (derive_task_code_concurrency E M conf wanted) * code_vm_memory_mb E conf \<le> code_share_mb E M conf"
    by (rule resolved_times [OF code_resolved assms(1)])
  have ct: "ct_resolved ?ct * max (sat_add m t) 1 \<le> ct_memory_budget_mb ?ct"
    by (rule resolved_times [OF ct_resolved_le assms(3)]) simp
  have "ct_memory_budget_mb ?ct = sat_mul ?u (100 - ?p) div 100" using assms(2) unfolding budget by (simp add: max_def split: if_splits)
  with code ct shares_disjoint [OF percent_le [of E conf], of ?u] have
    "resolved (derive_task_code_concurrency E M conf wanted) * code_vm_memory_mb E conf + ct_resolved ?ct * max (sat_add m t) 1 \<le> ?u"
    unfolding code_share_mb_def by linarith
  with usable_le [OF ceiling_pos] show ?thesis by blast
qed

lemma clamped_pos: "1 \<le> n \<Longrightarrow> max (at_most limit (min a n)) 1 \<le> n" for n :: nat
  by (auto simp: at_most_def split: option.splits)

lemma clamped_pos': "1 \<le> n \<Longrightarrow> max (at_most limit (min n a)) 1 \<le> n" for n :: nat
  by (auto simp: at_most_def split: option.splits)

lemma worker_resolved:
  "1 \<le> resolved (derive_worker_vm_concurrency E M conf wanted) \<and> resolved (derive_worker_vm_concurrency E M conf wanted) \<le> max wanted 1"
proof (cases "configured_usize conf ''worker.vm-concurrency''")
  case None
  show ?thesis
    unfolding derive_worker_vm_concurrency_def Let_def None option.case derived_concurrency.simps
    by (intro conjI clamped_pos') simp_all
next
  case (Some n)
  show ?thesis
    unfolding derive_worker_vm_concurrency_def Let_def Some option.case derived_concurrency.simps
    by (intro conjI clamped_pos) simp_all
qed

text \<open>A process always runs at least one machine and never more than were asked for; its Postgres pool has at
  least one connection, two when the scheduler holds one for its lock, and stays under the configured ceiling or
  50; its SQLite pool has at least ten.\<close>
theorem derived_limits_bounded:
  "1 \<le> resolved (derive_worker_vm_concurrency E M conf wanted) \<and>
   resolved (derive_worker_vm_concurrency E M conf wanted) \<le> max wanted 1 \<and>
   (if get_bool_or_default conf ''scheduler.singleton'' False \<and> val_get conf ''scheduler'' \<noteq> None then 2 else 1)
     \<le> derive_postgres_pool_connections E M conf \<and>
   derive_postgres_pool_connections E M conf \<le>
     (case configured_usize conf ''worker.db-max-connections'' of Some c \<Rightarrow> max c 2 | None \<Rightarrow> 50) \<and>
   10 \<le> derive_sqlite_pool_connections E M conf"
proof -
  have pool: "lo \<le> min (min (max n 10) (max c lo)) (2 ^ 32 - 1)" "min (min (max n 10) (max c lo)) (2 ^ 32 - 1) \<le> max c 2"
    "lo \<le> min (min (max n 10) 50) (2 ^ 32 - 1)" "min (min (max n 10) 50) (2 ^ 32 - 1) \<le> 50"
    if "lo = 1 \<or> lo = 2" for lo n c :: nat
    using that by auto
  have lo: "(if b then 2 else 1) = 1 \<or> (if b then 2 else 1) = (2 :: nat)" for b by simp
  have "derive_postgres_pool_connections E M conf \<le>
      (case configured_usize conf ''worker.db-max-connections'' of Some c \<Rightarrow> max c 2 | None \<Rightarrow> 50)"
    unfolding derive_postgres_pool_connections_def Let_def DEFAULT_DB_MAX_CONNECTIONS_def
    using pool(2,4) [OF lo] by (cases "configured_usize conf ''worker.db-max-connections''") (simp_all only: option.case)
  moreover have "(if get_bool_or_default conf ''scheduler.singleton'' False \<and> val_get conf ''scheduler'' \<noteq> None then 2 else 1)
     \<le> derive_postgres_pool_connections E M conf"
    unfolding derive_postgres_pool_connections_def Let_def DEFAULT_DB_MAX_CONNECTIONS_def
    using pool(1,3) [OF lo] by (cases "configured_usize conf ''worker.db-max-connections''") (simp_all only: option.case)
  moreover have "10 \<le> derive_sqlite_pool_connections E M conf" by (simp add: derive_sqlite_pool_connections_def)
  ultimately show ?thesis using worker_resolved by blast
qed

definition bare_machine :: machine where
  "bare_machine = \<lparr>read_file = (\<lambda>_. None), available_parallelism = Some 4\<rparr>"

lemma null_get: "val_get VNull k = (if k = [] \<or> length (split_on CHR ''.'' k) = 1 then Some VNull else None)"
proof -
  obtain p ps where "split_on CHR ''.'' k = p # ps" by (meson list.exhaust split_on_not_Nil)
  then show ?thesis by (simp add: val_get_def)
qed

lemma null_settings: "get_int_or_default E VNull k v = v" "get_bool_or_default VNull k b = b" "configured_usize VNull k = None"
  by (simp_all add: get_int_or_default_def get_bool_or_default_def configured_usize_def null_get)

lemma bare_settings:
  "detected_memory_limit_mb bare_machine = None" "cgroup_cpu_quota bare_machine = None" "available_parallelism bare_machine = Some 4"
  by (simp_all add: detected_memory_limit_mb_def cgroup_memory_limit_bytes_def bare_machine_def cgroup_cpu_quota_def v2_quota_def v1_quota_def)

theorem task_memory_not_overcommitted_witness:
  "resolved (derive_task_code_concurrency tenths_env bare_machine VNull 500) * 256 +
   ct_resolved (derive_task_container_concurrency tenths_env bare_machine VNull 10 8192 100000 1024 4096 64 ''docker'') * 1088 \<le> 8192"
proof -
  note d = code_vm_memory_mb_def code_share_mb_def task_usable_memory_mb_def task_memory_ceiling_mb_def code_memory_percent_def
    sat_mul_def sat_add_def u64_max_def TASK_PROCESS_RESERVE_MB_def setting_worker_memory_def bare_settings null_settings
  have f: "task_memory_ceiling_mb tenths_env bare_machine VNull = 8192" "code_vm_memory_mb tenths_env VNull = 256"
    "max (sat_add 1024 64) 1 = 1088" "setting_worker_memory tenths_env VNull = 8192" "task_usable_memory_mb tenths_env VNull 8192 = 7168"
    by (simp_all add: d)
  have share: "code_share_mb tenths_env bare_machine VNull = 3584" by (simp add: code_share_mb_def f) (simp add: d)
  have budget: "ct_memory_budget_mb (derive_task_container_concurrency tenths_env bare_machine VNull 10 8192 100000 1024 4096 64 ''docker'') = 3584"
    unfolding derive_task_container_concurrency_def Let_def derived_containers.simps by (simp add: f bare_settings) (simp add: d)
  note ok = task_memory_not_overcommitted [of tenths_env VNull bare_machine 10 100000 1024 4096 64 "''docker''" 500, unfolded f share budget]
  have "resolved (derive_task_code_concurrency tenths_env bare_machine VNull 500) * 256 +
    ct_resolved (derive_task_container_concurrency tenths_env bare_machine VNull 10 8192 100000 1024 4096 64 ''docker'') * 1088 \<le> 7168"
    by (rule conjunct1 [OF ok]) simp_all
  then show ?thesis by linarith
qed

end
