(* ===== verification/Hot_Masking.thy ===== *)
theory Hot_Masking
  imports Hot_Conf "HOL-Library.Product_Lexorder" "HOL-Library.List_Lexorder" "HOL-Library.Char_ord"
begin

text \<open>
  Keeping registered secrets out of records: \<^verbatim>\<open>crates/hot/src/lang/masking.rs\<close>, with \<^verbatim>\<open>hash_secret_value_recursive\<close> of
  \<^verbatim>\<open>crates/hot/src/lang/hot/ctx.rs\<close>. Sets of values and hashes are HOL sets. The record \<open>mask_env\<close> holds what other crates
  do: hashing, decimal numbers as text, the text encodings, base64 and the search for many patterns at once. The
  filter of credential fields works by regular expressions and is not modelled.
\<close>

section \<open>Parameters\<close>

record ('d, 'b) mask_env =
  value_hash :: "('d, 'b) val \<Rightarrow> 64 word"
  dec_text :: "'d \<Rightarrow> string"
  json_parse :: "string \<Rightarrow> ('d, 'b) val option"
  hex_encode :: "8 word list \<Rightarrow> string"
  base64_texts :: "8 word list \<Rightarrow> string list"
  percent_encode :: "string \<Rightarrow> string"
  form_encode :: "string \<Rightarrow> string"
  json_quoted :: "string \<Rightarrow> string option"
  encode64 :: "string \<Rightarrow> string"
  set_order :: "string set \<Rightarrow> string list"
  patterns_fit :: "string list \<Rightarrow> bool"
  find_overlapping :: "string list \<Rightarrow> string \<Rightarrow> (nat \<times> nat) list"
  utf8_lossy :: "string \<Rightarrow> string"








section \<open>The registry\<close>

definition MIN_SUBSTRING_LEN :: nat where "MIN_SUBSTRING_LEN = 8"
definition MAX_SUBSTRING_LEN :: nat where "MAX_SUBSTRING_LEN = 64 * 1024"
definition MAX_MINTED_SUBSTRINGS :: nat where "MAX_MINTED_SUBSTRINGS = 64"

text \<open>The matchers are built from the values and hashes when they are asked for; \<open>rg_matchers\<close> keeps what they
  were built from.\<close>

record registry =
  rg_values :: "string set"
  rg_hashes :: "64 word set"
  rg_minted :: nat
  rg_generation :: nat
  rg_matchers :: "(string set \<times> 64 word set) option"


definition bytes_text :: "8 word list \<Rightarrow> string" where
  "bytes_text bs = map (\<lambda>b. char_of (unat b)) bs"

definition ascii_whitespace :: "char \<Rightarrow> bool" where
  "ascii_whitespace c \<longleftrightarrow> of_char c \<in> {9, 10, 12, 13, 32 :: nat}"

definition push_value :: "string \<Rightarrow> string set" where
  "push_value v =
     (if MIN_SUBSTRING_LEN \<le> length v \<and> length v \<le> MAX_SUBSTRING_LEN \<and> list_ex (\<lambda>c. \<not> ascii_whitespace c) v then {v} else {})"

text \<open>\<^verbatim>\<open>split_once(char::is_whitespace)\<close>.\<close>

fun split_blank :: "string \<Rightarrow> (string \<times> string) option" where
  "split_blank [] = None"
| "split_blank (c # cs) =
     (case find (\<lambda>w. w \<noteq> [] \<and> starts_with (c # cs) w) white_space of
        Some w \<Rightarrow> Some ([], drop (length w) (c # cs))
      | None \<Rightarrow> (case split_blank cs of Some (a, b) \<Rightarrow> Some (c # a, b) | None \<Rightarrow> None))"

definition plain_texts :: "string \<Rightarrow> string set" where
  "plain_texts text =
     (let trimmed = trim text
      in push_value text \<union> push_value trimmed \<union>
         (case split_blank trimmed of
            Some (scheme, credential) \<Rightarrow>
              if list_ex (eq_ignore_ascii_case scheme) [''bearer'', ''basic'', ''token''] then push_value (trim credential) else {}
          | None \<Rightarrow> {}))"

text \<open>Parsing a string that holds JSON gives another value to collect; \<open>fuel\<close> bounds how often a string may hold
  JSON that holds such a string again. A string within JSON text is shorter than the text, so the length of the
  longest text is enough.\<close>

function collect_values :: "('d, 'b) mask_env \<Rightarrow> nat \<Rightarrow> ('d, 'b) val \<Rightarrow> string set" where
  "collect_values F fuel v =
     (case v of
        VMap m \<Rightarrow> (\<Union>(key, child) \<in> set m. collect_values F fuel child)
      | VVec items \<Rightarrow> (\<Union>child \<in> set items. collect_values F fuel child)
      | VStr text \<Rightarrow>
          plain_texts text \<union>
          (if starts_with (trim text) ''{''
           then case (json_parse F (trim text), fuel) of (Some parsed, Suc n) \<Rightarrow> collect_values F n parsed | _ \<Rightarrow> {}
           else {})
      | VBytes bs \<Rightarrow> push_value (bytes_text bs)
      | VInt n \<Rightarrow> plain_texts (show_int n)
      | VDec d \<Rightarrow> plain_texts (dec_text F d)
      | _ \<Rightarrow> {})"
  by pat_completeness auto
termination
  by (relation "inv_image (less_than <*lex*> less_than) (\<lambda>(_, fuel, v). (fuel, vsize v))")
    (auto dest: msize_mem vsizes_mem)

declare collect_values.simps [simp del]

function hash_secret_value_recursive :: "('d, 'b) mask_env \<Rightarrow> ('d, 'b) val \<Rightarrow> 64 word set" where
  "hash_secret_value_recursive F v =
     (if v = VNull \<or> (\<exists>b \<in> {False, True}. v = VBool b) \<or> v = VStr [] then {}
      else insert (value_hash F v)
        (case v of
           VMap m \<Rightarrow> (\<Union>(key, child) \<in> set m. hash_secret_value_recursive F child)
         | VVec items \<Rightarrow> (\<Union>child \<in> set items. hash_secret_value_recursive F child)
         | _ \<Rightarrow> {}))"
  by pat_completeness auto
termination
  by (relation "measure (\<lambda>(_, v). vsize v)") (auto dest: msize_mem vsizes_mem)

declare hash_secret_value_recursive.simps [simp del]

definition add :: "('d, 'b) mask_env \<Rightarrow> ('d, 'b) val \<Rightarrow> string set \<Rightarrow> registry \<Rightarrow> registry" where
  "add F v new_values r =
     (let before = card (rg_values r) + card (rg_hashes r);
          r1 = r\<lparr>rg_values := rg_values r \<union> new_values, rg_hashes := rg_hashes r \<union> hash_secret_value_recursive F v\<rparr>
      in if card (rg_values r1) + card (rg_hashes r1) \<noteq> before
         then r1\<lparr>rg_generation := rg_generation r1 + 1, rg_matchers := None\<rparr> else r1)"

definition register :: "('d, 'b) mask_env \<Rightarrow> nat \<Rightarrow> ('d, 'b) val \<Rightarrow> registry \<Rightarrow> registry" where
  "register F fuel v r = add F v (collect_values F fuel v) r"

definition register_exact :: "('d, 'b) mask_env \<Rightarrow> ('d, 'b) val \<Rightarrow> registry \<Rightarrow> registry" where
  "register_exact F v r = add F v {} r"

definition minted_hashes :: "('d, 'b) mask_env \<Rightarrow> ('d, 'b) val \<Rightarrow> 64 word set" where
  "minted_hashes F v =
     (case v of
        VBytes bs \<Rightarrow> insert (value_hash F (VStr (hex_encode F bs))) ((\<lambda>t. value_hash F (VStr t)) ` set (base64_texts F bs))
      | _ \<Rightarrow> {})"

definition register_minted :: "('d, 'b) mask_env \<Rightarrow> nat \<Rightarrow> ('d, 'b) val \<Rightarrow> registry \<Rightarrow> registry" where
  "register_minted F fuel v r =
     (let forms = v # (case v of VBytes bs \<Rightarrow> [VStr (hex_encode F bs)] | _ \<Rightarrow> []);
          new_values = (\<Union>form \<in> set forms. collect_values F fuel form);
          r1 = (if rg_minted r < MAX_MINTED_SUBSTRINGS
                then r\<lparr>rg_minted := rg_minted r + 1, rg_values := rg_values r \<union> new_values\<rparr> else r)
      in r1\<lparr>rg_hashes := rg_hashes r1 \<union> hash_secret_value_recursive F v \<union> minted_hashes F v, rg_matchers := None\<rparr>)"

definition register_key :: "('d, 'b) mask_env \<Rightarrow> nat \<Rightarrow> ('d, 'b) val \<Rightarrow> registry \<Rightarrow> registry" where
  "register_key F fuel key r =
     (if value_hash F key \<in> rg_hashes r then r
      else if MAX_MINTED_SUBSTRINGS \<le> rg_minted r then register_exact F key r
      else register F fuel key (r\<lparr>rg_minted := rg_minted r + 1\<rparr>))"

function register_hashed :: "('d, 'b) mask_env \<Rightarrow> nat \<Rightarrow> 64 word set \<Rightarrow> ('d, 'b) val \<Rightarrow> registry \<Rightarrow> registry" where
  "register_hashed F fuel hs v r =
     (if value_hash F v \<in> hs then register F fuel v r
      else case v of
             VMap m \<Rightarrow> fold (\<lambda>(key, child). register_hashed F fuel hs child) m r
           | VVec items \<Rightarrow> fold (\<lambda>child. register_hashed F fuel hs child) items r
           | _ \<Rightarrow> r)"
  by pat_completeness auto
termination
  by (relation "measure (\<lambda>(_, _, _, v, _). vsize v)") (auto dest: msize_mem vsizes_mem)

declare register_hashed.simps [simp del]

section \<open>Patterns\<close>











section \<open>Masking\<close>








text \<open>\<^verbatim>\<open>matchers()\<close>: the cached matchers, or those of the values and hashes registered so far.\<close>

definition matchers :: "registry \<Rightarrow> (string set \<times> 64 word set) \<times> registry" where
  "matchers r =
     (case rg_matchers r of
        Some m \<Rightarrow> (m, r)
      | None \<Rightarrow> ((rg_values r, rg_hashes r), r\<lparr>rg_matchers := Some (rg_values r, rg_hashes r)\<rparr>))"


definition is_exact :: "('d, 'b) mask_env \<Rightarrow> registry \<Rightarrow> 64 word set \<Rightarrow> ('d, 'b) val \<Rightarrow> bool" where
  "is_exact F r extra_hashes v \<longleftrightarrow> value_hash F v \<in> snd (fst (matchers r)) \<union> extra_hashes"

section \<open>Ranges are ordered, apart and cover what was found\<close>

fun apart :: "nat \<Rightarrow> (nat \<times> nat) list \<Rightarrow> bool" where
  "apart position [] \<longleftrightarrow> True"
| "apart position ((s, e) # rest) \<longleftrightarrow> position \<le> s \<and> s \<le> e \<and> apart e rest"

lemma apart_append: "apart p (rs @ [(s, e)]) \<longleftrightarrow> apart p rs \<and> (if rs = [] then p else snd (last rs)) \<le> s \<and> s \<le> e"
  by (induction p rs rule: apart.induct) auto





lemma last_start:
  assumes "merged \<noteq> []" "apart 0 merged"
  shows "fst (last merged) \<le> snd (last merged)"
  using assms by (cases merged rule: rev_cases) (auto simp: apart_append)








section \<open>What is left of a masked text\<close>










section \<open>Base64 of a text that holds the secret holds a fragment\<close>













section \<open>A registered secret is masked in plain, in text encodings and in base64\<close>
















section \<open>The cached matchers are those of what is registered\<close>

definition coherent :: "registry \<Rightarrow> bool" where
  "coherent r \<longleftrightarrow> finite (rg_values r) \<and> finite (rg_hashes r) \<and> rg_matchers r \<in> {None, Some (rg_values r, rg_hashes r)}"

lemma finite_push [simp]: "finite (push_value v)"
  by (simp add: push_value_def)

lemma finite_plain [simp]: "finite (plain_texts t)"
  by (auto simp: plain_texts_def Let_def split: option.splits)

lemma finite_collect [simp]: "finite (collect_values F fuel v)"
proof (induction F fuel v rule: collect_values.induct)
  case (1 F fuel v)
  then show ?case
    by (subst collect_values.simps) (auto split: val.splits option.splits nat.splits)
qed

lemma finite_hashes [simp]: "finite (hash_secret_value_recursive F v)"
proof (induction F v rule: hash_secret_value_recursive.induct)
  case (1 F v)
  then show ?case
    by (subst hash_secret_value_recursive.simps) (auto split: val.splits)
qed

lemma add_coherent:
  assumes "coherent r" "finite new_values"
  shows "coherent (add F v new_values r)"
proof (cases "rg_values r \<union> new_values = rg_values r \<and> rg_hashes r \<union> hash_secret_value_recursive F v = rg_hashes r")
  case True
  then show ?thesis using assms by (simp add: add_def Let_def coherent_def)
next
  case False
  let ?V = "rg_values r \<union> new_values" and ?H = "rg_hashes r \<union> hash_secret_value_recursive F v"
  have fin: "finite ?V" "finite ?H" using assms by (auto simp: coherent_def)
  have "card (rg_values r) \<le> card ?V" "card (rg_hashes r) \<le> card ?H" using fin by (auto intro: card_mono)
  moreover have "card (rg_values r) < card ?V \<or> card (rg_hashes r) < card ?H"
    using False fin psubset_card_mono [OF fin(1), of "rg_values r"] psubset_card_mono [OF fin(2), of "rg_hashes r"] by blast
  ultimately have "card ?V + card ?H \<noteq> card (rg_values r) + card (rg_hashes r)" by linarith
  then show ?thesis using fin by (simp add: add_def Let_def coherent_def)
qed

lemma register_coherent [intro]:
  "coherent r \<Longrightarrow> coherent (register F fuel v r)" "coherent r \<Longrightarrow> coherent (register_exact F v r)"
  by (simp_all add: register_def register_exact_def add_coherent)

lemma register_minted_coherent [intro]: "coherent r \<Longrightarrow> coherent (register_minted F fuel v r)"
  by (cases v) (auto simp: register_minted_def Let_def coherent_def minted_hashes_def)

lemma register_key_coherent [intro]:
  assumes "coherent r"
  shows "coherent (register_key F fuel k r)"
proof -
  have "coherent (r\<lparr>rg_minted := rg_minted r + 1\<rparr>)" using assms by (simp add: coherent_def)
  then show ?thesis using assms by (auto simp: register_key_def)
qed

lemma fold_coherent: "coherent r \<Longrightarrow> (\<And>x r. x \<in> set xs \<Longrightarrow> coherent r \<Longrightarrow> coherent (f x r)) \<Longrightarrow> coherent (fold f xs r)"
  by (induction xs arbitrary: r) auto

lemma register_hashed_coherent [intro]: "coherent r \<Longrightarrow> coherent (register_hashed F fuel hs v r)"
proof (induction F fuel hs v r rule: register_hashed.induct)
  case (1 F fuel hs v r)
  then show ?case
    by (subst register_hashed.simps) (auto split: val.splits intro!: fold_coherent)
qed

lemma matchers_coherent [intro]: "coherent r \<Longrightarrow> coherent (snd (matchers r))"
  by (auto simp: matchers_def coherent_def split: option.splits)
















end
