(* ===== verification/Hot_Types.thy ===== *)
theory Hot_Types
  imports Hot_Val "HOL-Library.Monad_Syntax"
begin

text \<open>
  Types in the type checker: \<^verbatim>\<open>crates/hot/src/lang/compiler/type_checker.rs\<close>. The type expressions, which type can flow
  into which (\<^verbatim>\<open>types_are_compatible\<close>), implicit coercions along registered arrows, the choice of a signature for a call
  and the union of inferred types. The relation unfolds declared structs, so it need not end for every set of
  declarations: \<open>compat\<close> is a partial function, \<open>None\<close> means that the check runs forever.
\<close>

section \<open>Type expressions\<close>

datatype lit_type =
    LitStr string
  | LitInt int
  | LitDec string
  | LitBool bool
  | LitNull

datatype ty_expr =
    TyInt
  | TyDec
  | TyStr
  | TyBool
  | TyVec (vec_of: ty_expr)
  | TyMap (key_of: ty_expr) (value_of: ty_expr)
  | TyBytes
  | TyByte
  | TyNull
  | TyLiteral (lit_of: lit_type)
  | TyAny
  | TyNever
  | TyOptional (opt_of: ty_expr)
  | TyUnion (parts_of: "ty_expr list")
  | TyFunction (params_of: "ty_expr list") (return_of: ty_expr)
  | TyRecord (fields_of: "(string \<times> ty_expr) list") (open_of: bool) (type_name_of: "string option")
  | TyNamed (name_of: string)
  | TyGeneric (generic_of: string) (args_of: "ty_expr list")
  | TyLazy (lazy_of: ty_expr)
  | TyVariadic (variadic_of: ty_expr)
  | TyNamespace string
  | TyTypeRef (ref_of: string)
  | TyConstrained (constrained_of: ty_expr) (constraints_of: "type_constraint list")
and type_constraint =
    HasMethod string "ty_expr list" ty_expr
  | Implements string
  | CoreType

record type_definition =
  td_is_open :: bool
  td_enum_is_open :: bool
  td_is_enum :: bool
  td_is_struct :: bool
  td_fields :: "(string \<times> ty_expr) list"
  td_variants :: "string list"
  td_variant_payloads :: "(string \<times> string) list"
  td_declaring_namespace :: string
  td_is_literal_union :: bool
  td_literal_members :: "lit_type list"

text \<open>What the checker knows when it compares types. Hash maps are association lists.\<close>

record type_context =
  tc_types :: "(string \<times> type_definition) list"
  tc_current_namespace :: string
  tc_current_aliases :: "(string \<times> string) list"
  tc_qualified_types :: "(string \<times> ty_expr) list"
  tc_core_types :: "(string \<times> string) list"
  tc_impl_registry :: "(string \<times> string) list"
  tc_in_pipe_flow :: bool

text \<open>\<^verbatim>\<open>name.rsplit('/').next()\<close>.\<close>

definition short_type_name :: "string \<Rightarrow> string" where
  "short_type_name name = rev (takeWhile (\<lambda>c. c \<noteq> CHR ''/'') (rev name))"

definition named_type_definition :: "type_context \<Rightarrow> string \<Rightarrow> type_definition option" where
  "named_type_definition C name =
     (case im_get (tc_types C) name of
        Some td \<Rightarrow> Some td
      | None \<Rightarrow> im_get (tc_types C) (short_type_name name))"

definition struct_fields :: "type_context \<Rightarrow> string \<Rightarrow> (string \<times> ty_expr) list option" where
  "struct_fields C name =
     (case named_type_definition C name of
        Some td \<Rightarrow> if td_is_struct td then Some (td_fields td) else None
      | None \<Rightarrow> None)"

fun known_fields_for_type :: "type_context \<Rightarrow> ty_expr \<Rightarrow> (string \<times> ty_expr) list option" where
  "known_fields_for_type C (TyRecord flds opn name) = Some flds"
| "known_fields_for_type C (TyNamed name) = struct_fields C name"
| "known_fields_for_type C (TyOptional inner) = known_fields_for_type C inner"
| "known_fields_for_type C t = None"

section \<open>Compatibility\<close>

definition names_result :: "ty_expr \<Rightarrow> bool" where
  "names_result t =
     (case t of
        TyNamed name \<Rightarrow> name \<in> {''Result'', ''::hot::type/Result''}
      | TyGeneric name _ \<Rightarrow> name \<in> {''Result'', ''::hot::type/Result''}
      | _ \<Rightarrow> False)"

definition scalar :: "ty_expr \<Rightarrow> bool" where
  "scalar t \<longleftrightarrow> t \<in> {TyNull, TyBool, TyInt, TyDec, TyStr, TyByte, TyBytes}"

definition exact_match :: "ty_expr \<Rightarrow> ty_expr \<Rightarrow> bool" where
  "exact_match e a \<longleftrightarrow> scalar e \<and> e = a \<or> e = TyDec \<and> a = TyInt"

fun literal_base :: "lit_type \<Rightarrow> ty_expr" where
  "literal_base (LitStr _) = TyStr"
| "literal_base (LitInt _) = TyInt"
| "literal_base (LitDec _) = TyDec"
| "literal_base (LitBool _) = TyBool"
| "literal_base LitNull = TyNull"

definition base_takes_literal :: "ty_expr \<Rightarrow> ty_expr \<Rightarrow> bool" where
  "base_takes_literal e a \<longleftrightarrow>
     is_TyLiteral a \<and> (e = literal_base (lit_of a) \<or> e = TyDec \<and> literal_base (lit_of a) = TyInt)"

definition literal_takes_base :: "ty_expr \<Rightarrow> ty_expr \<Rightarrow> bool" where
  "literal_takes_base e a \<longleftrightarrow> is_TyLiteral e \<and> a = literal_base (lit_of e)"

definition any_map :: "ty_expr \<Rightarrow> bool" where
  "any_map t \<longleftrightarrow> t = TyMap TyAny TyAny"

definition any_vec :: "ty_expr \<Rightarrow> bool" where
  "any_vec t \<longleftrightarrow> t = TyVec TyAny"

text \<open>A type whose constructor can stand for a function.\<close>

definition callable :: "type_context \<Rightarrow> ty_expr \<Rightarrow> bool" where
  "callable C a \<longleftrightarrow>
     is_TyNamed a \<and>
     (let actual = name_of a
      in actual = ''Fn'' \<or> starts_with actual ''::hot::type/'' \<or> im_contains (tc_qualified_types C) actual \<or>
         im_contains (tc_types C) actual \<or> im_contains (tc_core_types C) actual)"

text \<open>\<^verbatim>\<open>iter().all\<close> and \<^verbatim>\<open>iter().any\<close> of a test that may not return.\<close>

fun all_opt :: "('a \<Rightarrow> bool option) \<Rightarrow> 'a list \<Rightarrow> bool option" where
  "all_opt f [] = Some True"
| "all_opt f (x # xs) = f x \<bind> (\<lambda>b. if b then all_opt f xs else Some False)"

fun any_opt :: "('a \<Rightarrow> bool option) \<Rightarrow> 'a list \<Rightarrow> bool option" where
  "any_opt f [] = Some False"
| "any_opt f (x # xs) = f x \<bind> (\<lambda>b. if b then Some True else any_opt f xs)"

lemma all_opt_mono [partial_function_mono]:
  assumes "\<And>x. mono_option (\<lambda>f. B x f)"
  shows "mono_option (\<lambda>f. all_opt (\<lambda>x. B x f) xs)"
  using assms
proof (induction xs)
  case (Cons x xs)
  then have "mono_option (\<lambda>f. B x f)" "mono_option (\<lambda>f. all_opt (\<lambda>x. B x f) xs)" by simp_all
  then show ?case unfolding all_opt.simps by (intro partial_function_mono) simp_all
qed (simp add: option.const_mono)

lemma any_opt_mono [partial_function_mono]:
  assumes "\<And>x. mono_option (\<lambda>f. B x f)"
  shows "mono_option (\<lambda>f. any_opt (\<lambda>x. B x f) xs)"
  using assms
proof (induction xs)
  case (Cons x xs)
  then have "mono_option (\<lambda>f. B x f)" "mono_option (\<lambda>f. any_opt (\<lambda>x. B x f) xs)" by simp_all
  then show ?case unfolding any_opt.simps by (intro partial_function_mono) simp_all
qed (simp add: option.const_mono)

text \<open>
  The arms of \<^verbatim>\<open>types_are_compatible\<close> in their order, in three groups that end in the next one; \<open>e\<close> is the expected
  and \<open>a\<close> the actual type, \<open>rec\<close> the function itself.
\<close>

definition compat_named :: "type_context \<Rightarrow> (ty_expr \<Rightarrow> ty_expr \<Rightarrow> bool option) \<Rightarrow> ty_expr \<Rightarrow> ty_expr \<Rightarrow> bool option" where
  "compat_named C rec e a =
     (if is_TyNamed e \<and> is_TyNamed a then
        Some (e = a \<or> short_type_name (name_of e) = short_type_name (name_of a))
      else if is_TyGeneric e \<and> is_TyGeneric a then
        (if generic_of e = generic_of a \<and> length (args_of e) = length (args_of a)
         then all_opt (\<lambda>pair. rec (fst pair) (snd pair)) (zip (args_of e) (args_of a)) else Some False)
      else if is_TyLazy e then rec (lazy_of e) a
      else if is_TyLazy a then rec e (lazy_of a)
      else if is_TyVariadic e \<and> is_TyVec a then rec (variadic_of e) (vec_of a)
      else if is_TyVec e \<and> is_TyVariadic a then rec (vec_of e) (variadic_of a)
      else if is_TyNamespace e \<and> is_TyNamespace a then Some True
      else if is_TyTypeRef e \<and> is_TyTypeRef a then Some (ref_of e = ref_of a)
      else if is_TyConstrained e then rec (constrained_of e) a
      else if is_TyConstrained a then rec e (constrained_of a)
      else Some False)"

definition compat_union :: "type_context \<Rightarrow> (ty_expr \<Rightarrow> ty_expr \<Rightarrow> bool option) \<Rightarrow> ty_expr \<Rightarrow> ty_expr \<Rightarrow> bool option" where
  "compat_union C rec e a =
     (if is_TyNamed e \<and> any_map a \<or> any_map e \<and> is_TyNamed a then Some True
      else if is_TyNamed e \<and> any_vec a \<or> any_vec e \<and> is_TyNamed a then Some True
      else if literal_takes_base e a then Some True
      else if is_TyUnion a then all_opt (\<lambda>variant. rec e variant) (parts_of a)
      else if is_TyUnion e then any_opt (\<lambda>variant. rec variant a) (parts_of e)
      else if e = TyNamed ''Fn'' \<and> is_TyFunction a then Some True
      else if e = TyNamed ''Fn'' \<and> callable C a then Some True
      else if is_TyFunction e \<and> is_TyFunction a then
        (if length (params_of e) \<noteq> length (params_of a) then Some False
         else all_opt (\<lambda>pair. rec (snd pair) (fst pair)) (zip (params_of e) (params_of a)) \<bind>
                (\<lambda>params. rec (return_of e) (return_of a) \<bind> (\<lambda>ret. Some (params \<and> ret))))
      else compat_named C rec e a)"

text \<open>Every expected field is a known field of the actual record, with a compatible type.\<close>

definition compat_fields :: "(ty_expr \<Rightarrow> ty_expr \<Rightarrow> bool option) \<Rightarrow> (string \<times> ty_expr) list \<Rightarrow> (string \<times> ty_expr) list \<Rightarrow> bool option" where
  "compat_fields rec expected actual =
     all_opt (\<lambda>field. if im_get actual (fst field) = None then Some False
                      else rec (snd field) (the (im_get actual (fst field)))) expected"

definition compat_shape :: "type_context \<Rightarrow> (ty_expr \<Rightarrow> ty_expr \<Rightarrow> bool option) \<Rightarrow> ty_expr \<Rightarrow> ty_expr \<Rightarrow> bool option" where
  "compat_shape C rec e a =
     (if is_TyVec e \<and> is_TyVec a then (if vec_of e = TyAny then Some True else rec (vec_of e) (vec_of a))
      else if is_TyMap e \<and> is_TyMap a then
        (if key_of e = TyAny \<and> value_of e = TyAny then Some True
         else rec (key_of e) (key_of a) \<bind> (\<lambda>b. if b then rec (value_of e) (value_of a) else Some False))
      else if is_TyMap e \<and> is_TyRecord a then
        rec (key_of e) TyStr \<bind>
          (\<lambda>b. if b then if value_of e = TyAny then Some True
                         else all_opt (\<lambda>field. rec (value_of e) (snd field)) (fields_of a)
               else Some False)
      else if is_TyRecord e \<and> any_map a then Some True
      else if is_TyNamed e \<and> is_TyRecord a then
        (if struct_fields C (name_of e) = None then Some False
         else compat_fields rec (the (struct_fields C (name_of e))) (fields_of a))
      else if is_TyRecord e \<and> is_TyRecord a then compat_fields rec (fields_of e) (fields_of a)
      else compat_union C rec e a)"

lemma compat_named_mono [partial_function_mono]:
  assumes "\<And>x y. mono_option (\<lambda>f. B x y f)"
  shows "mono_option (\<lambda>f. compat_named C (\<lambda>x y. B x y f) e a)"
  unfolding compat_named_def by (intro partial_function_mono assms)

lemma compat_union_mono [partial_function_mono]:
  assumes "\<And>x y. mono_option (\<lambda>f. B x y f)"
  shows "mono_option (\<lambda>f. compat_union C (\<lambda>x y. B x y f) e a)"
  unfolding compat_union_def by (intro partial_function_mono assms)

lemma compat_fields_mono [partial_function_mono]:
  assumes "\<And>x y. mono_option (\<lambda>f. B x y f)"
  shows "mono_option (\<lambda>f. compat_fields (\<lambda>x y. B x y f) es as)"
  unfolding compat_fields_def by (intro partial_function_mono assms)

lemma compat_shape_mono [partial_function_mono]:
  assumes "\<And>x y. mono_option (\<lambda>f. B x y f)"
  shows "mono_option (\<lambda>f. compat_shape C (\<lambda>x y. B x y f) e a)"
  unfolding compat_shape_def by (intro partial_function_mono assms)

partial_function (option) types_are_compatible :: "type_context \<Rightarrow> ty_expr \<Rightarrow> ty_expr \<Rightarrow> bool option" where
  "types_are_compatible C e a =
     (if e = TyAny \<or> a = TyAny then Some True
      else if names_result e then Some True
      else if exact_match e a then Some True
      else if is_TyLiteral e \<and> is_TyLiteral a then Some (lit_of e = lit_of a)
      else if base_takes_literal e a then Some True
      else if is_TyOptional e \<and> is_TyOptional a then types_are_compatible C (opt_of e) (opt_of a)
      else if is_TyOptional e then types_are_compatible C (opt_of e) a \<bind> (\<lambda>b. Some (b \<or> a = TyNull))
      else if is_TyOptional a then types_are_compatible C e (opt_of a)
      else compat_shape C (\<lambda>x y. types_are_compatible C x y) e a)"

declare types_are_compatible.simps [code]

section \<open>Names and coercions\<close>

fun type_expr_name :: "ty_expr \<Rightarrow> string option" where
  "type_expr_name (TyNamed name) = Some name"
| "type_expr_name (TyRecord fs b (Some name)) = Some name"
| "type_expr_name (TyOptional inner) = type_expr_name inner"
| "type_expr_name t = None"

fun type_expr_short_name :: "ty_expr \<Rightarrow> string option" where
  "type_expr_short_name (TyNamed n) = Some (short_type_name n)"
| "type_expr_short_name TyStr = Some ''Str''"
| "type_expr_short_name TyInt = Some ''Int''"
| "type_expr_short_name TyDec = Some ''Dec''"
| "type_expr_short_name TyBool = Some ''Bool''"
| "type_expr_short_name TyBytes = Some ''Bytes''"
| "type_expr_short_name TyNull = Some ''Null''"
| "type_expr_short_name (TyOptional inner) = type_expr_short_name inner"
| "type_expr_short_name (TyRecord fs b (Some name)) = Some (short_type_name name)"
| "type_expr_short_name t = None"

definition is_primitive_type_name :: "string \<Rightarrow> bool" where
  "is_primitive_type_name name \<longleftrightarrow>
     name \<in> {''Str'', ''Int'', ''Dec'', ''Bool'', ''Bytes'', ''Byte'', ''Null'', ''Any'', ''Vec'', ''Map''}"

fun is_primitive_type_expr :: "ty_expr \<Rightarrow> bool" where
  "is_primitive_type_expr (TyOptional inner) = is_primitive_type_expr inner"
| "is_primitive_type_expr (TyVec t) = True"
| "is_primitive_type_expr (TyMap k v) = True"
| "is_primitive_type_expr t = (scalar t \<or> t = TyAny)"

text \<open>The part before the dot holds no slash and no dot, so resolving it looks it up.\<close>

definition resolve_plain :: "type_context \<Rightarrow> string \<Rightarrow> string \<Rightarrow> string" where
  "resolve_plain C name ns =
     (if name = [] then name
      else case im_get (tc_core_types C) name of
             Some fqn \<Rightarrow> fqn
           | None \<Rightarrow>
               if ns \<noteq> [] \<and> im_contains (tc_qualified_types C) (ns @ ''/'' @ name) then ns @ ''/'' @ name
               else if is_primitive_type_name name then ''::hot::type/'' @ name
               else name)"

definition resolve_to_fqn :: "type_context \<Rightarrow> string \<Rightarrow> string \<Rightarrow> string" where
  "resolve_to_fqn C name ns =
     (if CHR ''/'' \<in> set name then name
      else case split_once CHR ''.'' name of
             Some (enum_part, variant) \<Rightarrow> resolve_plain C enum_part ns @ ''.'' @ variant
           | None \<Rightarrow> resolve_plain C name ns)"

definition type_expr_to_fqn :: "type_context \<Rightarrow> ty_expr \<Rightarrow> string \<Rightarrow> string option" where
  "type_expr_to_fqn C t ns = map_option (\<lambda>short. resolve_to_fqn C short ns) (type_expr_short_name t)"

definition has_implementation :: "type_context \<Rightarrow> string \<Rightarrow> string \<Rightarrow> bool" where
  "has_implementation C source target \<longleftrightarrow>
     (source, target) \<in> set (tc_impl_registry C) \<or>
     (case split_once CHR ''.'' source of
        Some (enum_fqn, _) \<Rightarrow> (enum_fqn, target) \<in> set (tc_impl_registry C)
      | None \<Rightarrow> False)"

definition variant_of_enum :: "type_context \<Rightarrow> string \<Rightarrow> string \<Rightarrow> bool" where
  "variant_of_enum C src_fqn target_fqn \<longleftrightarrow>
     (case split_once CHR ''.'' src_fqn of
        Some (src_enum_fqn, src_variant) \<Rightarrow>
          src_enum_fqn = target_fqn \<and>
          (case im_get (tc_types C) (short_type_name src_enum_fqn) of
             Some td \<Rightarrow> td_enum_is_open td \<or> src_variant \<in> set (td_variants td)
           | None \<Rightarrow> False)
      | None \<Rightarrow> False)"

definition payload_of_enum :: "type_context \<Rightarrow> string \<Rightarrow> string \<Rightarrow> bool" where
  "payload_of_enum C src_fqn target_fqn \<longleftrightarrow>
     (case im_get (tc_types C) (short_type_name target_fqn) of
        Some td \<Rightarrow>
          td_is_enum td \<and>
          list_ex (\<lambda>(variant, payload). resolve_to_fqn C payload (td_declaring_namespace td) = src_fqn) (td_variant_payloads td)
      | None \<Rightarrow> False)"

definition coercion_available :: "type_context \<Rightarrow> ty_expr \<Rightarrow> ty_expr \<Rightarrow> bool" where
  "coercion_available C actual expected =
     (if is_primitive_type_expr actual \<and> is_primitive_type_expr expected then False
      else let ns = tc_current_namespace C
           in case (type_expr_to_fqn C actual ns,
                    case expected of TyNamed n \<Rightarrow> Some (resolve_to_fqn C n ns) | _ \<Rightarrow> type_expr_to_fqn C expected ns) of
                (Some src_fqn, Some target_fqn) \<Rightarrow>
                  if src_fqn = target_fqn then False
                  else has_implementation C src_fqn target_fqn \<or>
                       (case split_once CHR ''.'' target_fqn of
                          Some (enum_fqn, _) \<Rightarrow> (src_fqn, enum_fqn) \<in> set (tc_impl_registry C)
                        | None \<Rightarrow> False) \<or>
                       variant_of_enum C src_fqn target_fqn \<or> payload_of_enum C src_fqn target_fqn
              | _ \<Rightarrow> False)"

section \<open>Inferred types\<close>

definition key_text :: "('d, 'b) val \<Rightarrow> string option" where
  "key_text k = (case k of VStr s \<Rightarrow> Some s | _ \<Rightarrow> None)"

text \<open>A map whose keys are all strings is a closed record.\<close>

function infer_val_type :: "('d, 'b) val \<Rightarrow> ty_expr" where
  "infer_val_type v =
     (case v of
        VNull \<Rightarrow> TyNull
      | VBool _ \<Rightarrow> TyBool
      | VInt _ \<Rightarrow> TyInt
      | VDec _ \<Rightarrow> TyDec
      | VStr _ \<Rightarrow> TyStr
      | VByte _ \<Rightarrow> TyByte
      | VBytes _ \<Rightarrow> TyBytes
      | VVec elements \<Rightarrow> (case elements of [] \<Rightarrow> TyVec TyAny | x # _ \<Rightarrow> TyVec (infer_val_type x))
      | VMap m \<Rightarrow>
          if list_ex (\<lambda>(k, _). key_text k = None) m then TyMap TyAny TyAny
          else TyRecord (map (\<lambda>(k, w). (the (key_text k), infer_val_type w)) m) False None
      | VBox _ \<Rightarrow> TyAny)"
  by pat_completeness auto
termination
  by (relation "measure vsize") (auto dest: msize_mem)

declare infer_val_type.simps [simp del]

text \<open>One type for a value that may have any of several.\<close>

fun add_parts :: "ty_expr list \<Rightarrow> ty_expr list \<Rightarrow> ty_expr list option" where
  "add_parts members [] = Some members"
| "add_parts members (part # rest) =
     (if part = TyAny \<or> part = TyOptional TyAny then None
      else add_parts (if part \<in> set members then members else members @ [part]) rest)"

fun union_members :: "ty_expr list \<Rightarrow> ty_expr list \<Rightarrow> ty_expr list option" where
  "union_members members [] = Some members"
| "union_members members (t # ts) =
     (case add_parts members (case t of TyUnion parts \<Rightarrow> parts | _ \<Rightarrow> [t]) of
        Some members' \<Rightarrow> union_members members' ts
      | None \<Rightarrow> None)"

definition union_of :: "ty_expr list \<Rightarrow> ty_expr" where
  "union_of types =
     (case union_members [] types of
        None \<Rightarrow> TyAny
      | Some [] \<Rightarrow> TyAny
      | Some [t] \<Rightarrow> t
      | Some members \<Rightarrow> TyUnion members)"

text \<open>\<open>local_signature\<close> tells whether the current namespace declares a function of the short name itself.\<close>

definition logic_result_type :: "type_context \<Rightarrow> (string \<Rightarrow> bool) \<Rightarrow> string \<Rightarrow> ty_expr list \<Rightarrow> ty_expr option" where
  "logic_result_type C local_signature name arg_types =
     (let short = (case strip_prefix name ''::hot::bool/'' of Some s \<Rightarrow> s | None \<Rightarrow> name)
      in if short \<notin> {''and'', ''or'', ''if'', ''not''} then None
         else if name = short \<and> tc_current_namespace C \<noteq> ''::hot::bool'' \<and>
              local_signature (tc_current_namespace C @ ''/'' @ short) then None
         else if short = ''not'' then Some TyBool
         else if short = ''if''
              then Some (union_of (drop 1 arg_types @ (if length arg_types = 2 then [TyNull] else [])))
         else Some (union_of arg_types))"

section \<open>Calls\<close>

record signature =
  sg_return_type :: ty_expr
  sg_parameter_types :: "ty_expr list"
  sg_variadic :: bool

text \<open>An argument of a call: whether it is spread, and its value when it is written as a literal.\<close>

record ('d, 'b) call_arg =
  ca_spread :: bool
  ca_literal :: "('d, 'b) val option"

definition parameter_at :: "signature \<Rightarrow> nat \<Rightarrow> ty_expr option" where
  "parameter_at sig position =
     (if position < length (sg_parameter_types sig) then Some (sg_parameter_types sig ! position)
      else if sg_variadic sig \<and> sg_parameter_types sig \<noteq> [] then Some (last (sg_parameter_types sig))
      else None)"

definition positioned_args :: "('d, 'b) call_arg list \<Rightarrow> nat" where
  "positioned_args args = length (takeWhile (\<lambda>arg. \<not> ca_spread arg) args)"

definition arity_fits :: "signature \<Rightarrow> nat \<Rightarrow> bool \<Rightarrow> bool" where
  "arity_fits sig written has_spread =
     (let params = length (sg_parameter_types sig)
      in case (sg_variadic sig, has_spread) of
           (True, True) \<Rightarrow> True
         | (True, False) \<Rightarrow> params \<le> written + 1
         | (False, True) \<Rightarrow> written \<le> params
         | (False, False) \<Rightarrow> written = params)"

definition written_args :: "type_context \<Rightarrow> ('d, 'b) call_arg list \<Rightarrow> nat" where
  "written_args C args = length (filter (\<lambda>arg. \<not> ca_spread arg) args) + (if tc_in_pipe_flow C then 1 else 0)"

text \<open>The check of two types returns for every set of declarations a program can make, see below.\<close>

definition type_fits :: "type_context \<Rightarrow> ty_expr \<Rightarrow> ty_expr \<Rightarrow> bool" where
  "type_fits C e a \<longleftrightarrow> types_are_compatible C e a = Some True"

definition param_offset :: "type_context \<Rightarrow> nat" where
  "param_offset C = (if tc_in_pipe_flow C then 1 else 0)"

definition signature_accepts :: "type_context \<Rightarrow> signature \<Rightarrow> ('d, 'b) call_arg list \<Rightarrow> ty_expr list \<Rightarrow> bool" where
  "signature_accepts C sig args arg_types \<longleftrightarrow>
     arity_fits sig (written_args C args) (positioned_args args < length args) \<and>
     list_all (\<lambda>(i, actual). case parameter_at sig (i + param_offset C) of
                  None \<Rightarrow> True
                | Some expected \<Rightarrow> type_fits C expected actual \<or> coercion_available C actual expected)
       (enumerate 0 (take (positioned_args args) arg_types))"

definition find_matching_signature :: "type_context \<Rightarrow> ('d, 'b) call_arg list \<Rightarrow> ty_expr list \<Rightarrow> signature list \<Rightarrow> signature option" where
  "find_matching_signature C args arg_types sigs = find (\<lambda>sig. signature_accepts C sig args arg_types) sigs"

definition spread_call_type :: "type_context \<Rightarrow> ('d, 'b) call_arg list \<Rightarrow> ty_expr list \<Rightarrow> signature list \<Rightarrow> ty_expr" where
  "spread_call_type C args arg_types sigs =
     union_of (map sg_return_type (filter (\<lambda>sig. signature_accepts C sig args arg_types) sigs))"

definition literal_type_of_value :: "('d, 'b) val option \<Rightarrow> ty_expr option" where
  "literal_type_of_value v =
     (case v of
        Some (VStr s) \<Rightarrow> Some (TyLiteral (LitStr s))
      | Some (VInt n) \<Rightarrow> Some (TyLiteral (LitInt n))
      | Some (VBool b) \<Rightarrow> Some (TyLiteral (LitBool b))
      | Some VNull \<Rightarrow> Some (TyLiteral LitNull)
      | _ \<Rightarrow> None)"

definition is_scalar_literal :: "('d, 'b) val option \<Rightarrow> bool" where
  "is_scalar_literal v =
     (case v of Some (VStr _) \<Rightarrow> True | Some (VInt _) \<Rightarrow> True | Some (VDec _) \<Rightarrow> True | Some (VBool _) \<Rightarrow> True | _ \<Rightarrow> False)"

datatype call_error =
    ArityMismatch nat nat
  | TypeMismatch nat ty_expr ty_expr

definition argument_fits :: "type_context \<Rightarrow> ('d, 'b) call_arg \<Rightarrow> ty_expr \<Rightarrow> ty_expr \<Rightarrow> bool" where
  "argument_fits C arg expected actual \<longleftrightarrow>
     type_fits C expected actual \<or>
     (case literal_type_of_value (ca_literal arg) of Some lit \<Rightarrow> type_fits C expected lit | None \<Rightarrow> False) \<or>
     coercion_available C actual expected"

definition type_errors :: "type_context \<Rightarrow> signature \<Rightarrow> ('d, 'b) call_arg list \<Rightarrow> ty_expr list \<Rightarrow> (nat \<times> ty_expr \<times> ty_expr) list" where
  "type_errors C sig args arg_types =
     concat (map (\<lambda>(i, arg, actual).
                    case parameter_at sig (i + param_offset C) of
                      Some expected \<Rightarrow> if argument_fits C arg expected actual then [] else [(i, expected, actual)]
                    | None \<Rightarrow> [])
       (enumerate 0 (take (positioned_args args) (zip args arg_types))))"

text \<open>The overloads of fitting arity in turn: \<open>None\<close> once one accepts the call, otherwise the fewest errors of one
  overload and whether every overload refuses a literal.\<close>

fun try_overloads ::
  "type_context \<Rightarrow> ('d, 'b) call_arg list \<Rightarrow> ty_expr list \<Rightarrow> (nat \<times> ty_expr \<times> ty_expr) list option \<Rightarrow> bool \<Rightarrow> signature list \<Rightarrow>
   ((nat \<times> ty_expr \<times> ty_expr) list option \<times> bool) option" where
  "try_overloads C args arg_types best ruled_out [] = Some (best, ruled_out)"
| "try_overloads C args arg_types best ruled_out (sig # sigs) =
     (let errs = type_errors C sig args arg_types
      in if errs = [] then None
         else try_overloads C args arg_types
                (case best of Some existing \<Rightarrow> if length existing \<le> length errs then best else Some errs | None \<Rightarrow> Some errs)
                (ruled_out \<and> list_ex (\<lambda>(i, _). is_scalar_literal (ca_literal (args ! i))) errs) sigs)"

definition validate_function_call_arguments ::
  "type_context \<Rightarrow> bool \<Rightarrow> ('d, 'b) call_arg list \<Rightarrow> ty_expr list \<Rightarrow> signature list \<Rightarrow> call_error list" where
  "validate_function_call_arguments C in_fn_body args arg_types sigs =
     (let call_arity = written_args C args;
          matching = filter (\<lambda>sig. arity_fits sig call_arity (positioned_args args < length args)) sigs
      in if matching = [] then [ArityMismatch (length (sg_parameter_types (hd sigs))) call_arity]
         else case try_overloads C args arg_types None True matching of
                None \<Rightarrow> []
              | Some (best, ruled_out) \<Rightarrow>
                  (case best of
                     Some errs \<Rightarrow>
                       if \<not> in_fn_body \<or> ruled_out
                       then map (\<lambda>(i, expected, actual). TypeMismatch i expected actual)
                              (filter (\<lambda>(i, _). \<not> in_fn_body \<or> is_scalar_literal (ca_literal (args ! i))) errs)
                       else []
                   | None \<Rightarrow> []))"

section \<open>The check ends\<close>

text \<open>The number of record types in a type and the number of its constructors.\<close>

fun records :: "ty_expr \<Rightarrow> nat" where
  "records (TyVec t) = records t"
| "records (TyMap k v) = records k + records v"
| "records (TyOptional t) = records t"
| "records (TyUnion ts) = sum_list (map records ts)"
| "records (TyFunction ps r) = sum_list (map records ps) + records r"
| "records (TyRecord fs b n) = 1 + sum_list (map (\<lambda>f. records (snd f)) fs)"
| "records (TyGeneric g ts) = sum_list (map records ts)"
| "records (TyLazy t) = records t"
| "records (TyVariadic t) = records t"
| "records (TyConstrained t cs) = records t"
| "records t = 0"

fun weight :: "ty_expr \<Rightarrow> nat" where
  "weight (TyVec t) = 1 + weight t"
| "weight (TyMap k v) = 1 + weight k + weight v"
| "weight (TyOptional t) = 1 + weight t"
| "weight (TyUnion ts) = 1 + sum_list (map weight ts)"
| "weight (TyFunction ps r) = 1 + sum_list (map weight ps) + weight r"
| "weight (TyRecord fs b n) = 1 + sum_list (map (\<lambda>f. weight (snd f)) fs)"
| "weight (TyGeneric g ts) = 1 + sum_list (map weight ts)"
| "weight (TyLazy t) = 1 + weight t"
| "weight (TyVariadic t) = 1 + weight t"
| "weight (TyConstrained t cs) = 1 + weight t"
| "weight t = 1"

text \<open>No field of a declared struct has a record type. Fields collected from annotations satisfy this, since the syntax has
  no record types; a field whose annotation is resolved through a variable may have the inferred record type of its value.\<close>

definition decls_record_free :: "type_context \<Rightarrow> bool" where
  "decls_record_free C \<longleftrightarrow>
     list_all (\<lambda>(name, td). td_is_struct td \<longrightarrow> list_all (\<lambda>(f, t). records t = 0) (td_fields td)) (tc_types C)"

definition smaller :: "((ty_expr \<times> ty_expr) \<times> (ty_expr \<times> ty_expr)) set" where
  "smaller = inv_image (less_than <*lex*> less_than) (\<lambda>(e, a). (records e + records a, weight e + weight a))"

lemma wf_smaller: "wf smaller"
  unfolding smaller_def by auto

lemma in_smaller: "((x, y), (e, a)) \<in> smaller \<longleftrightarrow>
    records x + records y < records e + records a \<or>
    records x + records y = records e + records a \<and> weight x + weight y < weight e + weight a"
  by (simp add: smaller_def)

lemma smallerI:
  assumes "records x + records y \<le> records e + records a" "weight x + weight y < weight e + weight a"
  shows "((x, y), (e, a)) \<in> smaller"
  using assms by (auto simp: in_smaller)

lemma weight_pos: "0 < weight t"
  by (cases t) auto

lemma part_le:
  "t \<in> set ts \<Longrightarrow> records t \<le> sum_list (map records ts)" "t \<in> set ts \<Longrightarrow> weight t \<le> sum_list (map weight ts)"
  by (auto intro: member_le_sum_list)

lemma field_le:
  assumes "(f, t) \<in> set fs"
  shows "records t \<le> sum_list (map (\<lambda>f. records (snd f)) fs)" "weight t \<le> sum_list (map (\<lambda>f. weight (snd f)) fs)"
  using assms by (force intro: member_le_sum_list)+

lemma all_opt_total: "(\<And>x. x \<in> set xs \<Longrightarrow> f x \<noteq> None) \<Longrightarrow> all_opt f xs \<noteq> None"
  by (induction xs) (auto simp: Option.bind_eq_None_conv split: if_splits)

lemma any_opt_total: "(\<And>x. x \<in> set xs \<Longrightarrow> f x \<noteq> None) \<Longrightarrow> any_opt f xs \<noteq> None"
  by (induction xs) (auto simp: Option.bind_eq_None_conv split: if_splits)

lemma zip_parts:
  assumes "pair \<in> set (zip xs ys)"
  shows "records (fst pair) \<le> sum_list (map records xs) \<and> records (snd pair) \<le> sum_list (map records ys) \<and>
    weight (fst pair) \<le> sum_list (map weight xs) \<and> weight (snd pair) \<le> sum_list (map weight ys)"
proof -
  obtain x y where p: "pair = (x, y)" by (cases pair)
  then have "x \<in> set xs" "y \<in> set ys" using assms set_zip_leftD set_zip_rightD by fastforce+
  then show ?thesis by (simp add: p part_le)
qed

lemma struct_fields_record_free:
  assumes "decls_record_free C" "struct_fields C name = Some fs" "(f, t) \<in> set fs"
  shows "records t = 0"
proof -
  obtain n td where "(n, td) \<in> set (tc_types C)" "td_is_struct td" "fs = td_fields td"
    using assms(2) by (auto simp: struct_fields_def named_type_definition_def split: option.splits if_splits dest!: im_get_SomeD)
  then show ?thesis using assms(1,3) by (fastforce simp: decls_record_free_def list_all_iff)
qed

text \<open>The pairs of types that a pair of types leads to.\<close>

lemma calls_one:
  "is_TyLazy e \<Longrightarrow> ((lazy_of e, a), (e, a)) \<in> smaller" "is_TyLazy a \<Longrightarrow> ((e, lazy_of a), (e, a)) \<in> smaller"
  "is_TyConstrained e \<Longrightarrow> ((constrained_of e, a), (e, a)) \<in> smaller" "is_TyConstrained a \<Longrightarrow> ((e, constrained_of a), (e, a)) \<in> smaller"
  "is_TyOptional e \<Longrightarrow> ((opt_of e, a), (e, a)) \<in> smaller" "is_TyOptional a \<Longrightarrow> ((e, opt_of a), (e, a)) \<in> smaller"
  by (auto simp: in_smaller is_TyLazy_def is_TyConstrained_def is_TyOptional_def)

lemma calls_both:
  "is_TyVariadic e \<Longrightarrow> is_TyVec a \<Longrightarrow> ((variadic_of e, vec_of a), (e, a)) \<in> smaller"
  "is_TyVec e \<Longrightarrow> is_TyVariadic a \<Longrightarrow> ((vec_of e, variadic_of a), (e, a)) \<in> smaller"
  "is_TyVec e \<Longrightarrow> is_TyVec a \<Longrightarrow> ((vec_of e, vec_of a), (e, a)) \<in> smaller"
  "is_TyOptional e \<Longrightarrow> is_TyOptional a \<Longrightarrow> ((opt_of e, opt_of a), (e, a)) \<in> smaller"
  "is_TyMap e \<Longrightarrow> is_TyMap a \<Longrightarrow> ((key_of e, key_of a), (e, a)) \<in> smaller"
  "is_TyMap e \<Longrightarrow> is_TyMap a \<Longrightarrow> ((value_of e, value_of a), (e, a)) \<in> smaller"
  "is_TyFunction e \<Longrightarrow> is_TyFunction a \<Longrightarrow> ((return_of e, return_of a), (e, a)) \<in> smaller"
  "is_TyMap e \<Longrightarrow> is_TyRecord a \<Longrightarrow> ((key_of e, TyStr), (e, a)) \<in> smaller"
  by (auto simp: in_smaller is_TyVariadic_def is_TyVec_def is_TyOptional_def is_TyMap_def is_TyFunction_def is_TyRecord_def)

lemma calls_part:
  "is_TyUnion a \<Longrightarrow> t \<in> set (parts_of a) \<Longrightarrow> ((e, t), (e, a)) \<in> smaller"
  "is_TyUnion e \<Longrightarrow> t \<in> set (parts_of e) \<Longrightarrow> ((t, a), (e, a)) \<in> smaller"
  by (auto simp: is_TyUnion_def intro!: smallerI dest: part_le)

lemma calls_pair:
  "is_TyGeneric e \<Longrightarrow> is_TyGeneric a \<Longrightarrow> pair \<in> set (zip (args_of e) (args_of a)) \<Longrightarrow> (pair, (e, a)) \<in> smaller"
  "is_TyFunction e \<Longrightarrow> is_TyFunction a \<Longrightarrow> pair \<in> set (zip (params_of e) (params_of a)) \<Longrightarrow> ((snd pair, fst pair), (e, a)) \<in> smaller"
  by (cases pair; auto simp: is_TyGeneric_def is_TyFunction_def intro!: smallerI dest!: zip_parts)+

lemma field_weights:
  assumes "is_TyRecord a" "field \<in> set (fields_of a)"
  shows "records (snd field) < records a" "weight (snd field) < weight a"
  using assms field_le [of "fst field" "snd field" "fields_of a"] by (auto simp: is_TyRecord_def)

lemma calls_field:
  "is_TyMap e \<Longrightarrow> is_TyRecord a \<Longrightarrow> field \<in> set (fields_of a) \<Longrightarrow> ((value_of e, snd field), (e, a)) \<in> smaller"
  "is_TyRecord e \<Longrightarrow> is_TyRecord a \<Longrightarrow> field \<in> set (fields_of e) \<Longrightarrow> im_get (fields_of a) f = Some t \<Longrightarrow> ((snd field, t), (e, a)) \<in> smaller"
  "is_TyRecord a \<Longrightarrow> records x = 0 \<Longrightarrow> im_get (fields_of a) f = Some t \<Longrightarrow> ((x, t), (e, a)) \<in> smaller"
proof -
  show "((value_of e, snd field), (e, a)) \<in> smaller" if "is_TyMap e" "is_TyRecord a" "field \<in> set (fields_of a)"
    using field_weights [OF that(2,3)] that(1) by (auto simp: in_smaller is_TyMap_def)
next
  assume a: "is_TyRecord a" and t: "im_get (fields_of a) f = Some t"
  have less: "records t < records a" "weight t < weight a" using field_weights [OF a, of "(f, t)"] im_get_SomeD [OF t] by simp_all
  show "((snd field, t), (e, a)) \<in> smaller" if "is_TyRecord e" "field \<in> set (fields_of e)"
    using less field_weights [OF that] by (simp add: in_smaller)
  show "((x, t), (e, a)) \<in> smaller" if "records x = 0"
    using less that by (simp add: in_smaller)
qed

lemma if_total: "(c \<Longrightarrow> x \<noteq> None) \<Longrightarrow> (\<not> c \<Longrightarrow> y \<noteq> None) \<Longrightarrow> (if c then x else y) \<noteq> None"
  by simp

lemma bind_total: "x \<noteq> None \<Longrightarrow> (\<And>b. g b \<noteq> None) \<Longrightarrow> x \<bind> g \<noteq> None"
  by (cases x) auto

lemma Some_total: "Some b \<noteq> None"
  by simp

lemmas total_intros = if_total bind_total Some_total all_opt_total any_opt_total

lemma compat_named_total:
  assumes "\<And>x y. ((x, y), (e, a)) \<in> smaller \<Longrightarrow> rec x y \<noteq> None"
  shows "compat_named C rec e a \<noteq> None"
  unfolding compat_named_def
  by (intro total_intros assms) (simp_all add: calls_one calls_both calls_pair)

lemma compat_union_total:
  assumes "\<And>x y. ((x, y), (e, a)) \<in> smaller \<Longrightarrow> rec x y \<noteq> None"
  shows "compat_union C rec e a \<noteq> None"
  unfolding compat_union_def
  by (intro total_intros assms compat_named_total) (simp_all add: calls_part calls_both calls_pair)

lemma compat_fields_total:
  assumes "\<And>field t. field \<in> set es \<Longrightarrow> im_get as (fst field) = Some t \<Longrightarrow> rec (snd field) t \<noteq> None"
  shows "compat_fields rec es as \<noteq> None"
  unfolding compat_fields_def using assms by (intro all_opt_total) auto

lemma compat_shape_total:
  assumes "\<And>x y. ((x, y), (e, a)) \<in> smaller \<Longrightarrow> rec x y \<noteq> None" "decls_record_free C"
  shows "compat_shape C rec e a \<noteq> None"
proof -
  have struct: "((snd field, t), e, a) \<in> smaller"
    if h: "is_TyRecord a" "struct_fields C (name_of e) \<noteq> None" "field \<in> set (the (struct_fields C (name_of e)))"
      "im_get (fields_of a) (fst field) = Some t" for field t
  proof -
    obtain fs where "struct_fields C (name_of e) = Some fs" "field \<in> set fs" using h(2,3) by auto
    then have "records (snd field) = 0" using struct_fields_record_free [OF assms(2)] by (cases field) auto
    then show ?thesis by (rule calls_field(3) [OF h(1) _ h(4)])
  qed
  show ?thesis
    unfolding compat_shape_def
    by (intro total_intros assms(1) compat_union_total compat_fields_total)
      (simp_all add: calls_both calls_field struct del: not_None_eq)
qed

lemma compat_total:
  assumes "decls_record_free C"
  shows "types_are_compatible C e a \<noteq> None"
proof (induction "(e, a)" arbitrary: e a rule: wf_induct_rule [OF wf_smaller])
  case 1
  then have ih: "types_are_compatible C x y \<noteq> None" if "((x, y), (e, a)) \<in> smaller" for x y using that by blast
  show ?case
    unfolding types_are_compatible.simps [of C e a]
    by (intro total_intros ih compat_shape_total assms) (simp_all add: calls_one calls_both)
qed

section \<open>Every type is compatible with itself\<close>

text \<open>Types without the constructors that no code of the checker builds; the fields of a record are distinct.\<close>

fun ordinary :: "ty_expr \<Rightarrow> bool" where
  "ordinary (TyVec t) \<longleftrightarrow> ordinary t"
| "ordinary (TyMap k v) \<longleftrightarrow> ordinary k \<and> ordinary v"
| "ordinary (TyOptional t) \<longleftrightarrow> ordinary t"
| "ordinary (TyUnion ts) \<longleftrightarrow> list_all ordinary ts"
| "ordinary (TyFunction ps r) \<longleftrightarrow> list_all ordinary ps \<and> ordinary r"
| "ordinary (TyRecord fs b n) \<longleftrightarrow> distinct (map fst fs) \<and> list_all (\<lambda>f. ordinary (snd f)) fs"
| "ordinary (TyGeneric g ts) \<longleftrightarrow> list_all ordinary ts"
| "ordinary (TyLazy t) \<longleftrightarrow> False"
| "ordinary (TyVariadic t) \<longleftrightarrow> False"
| "ordinary (TyConstrained t cs) \<longleftrightarrow> False"
| "ordinary TyNever \<longleftrightarrow> False"
| "ordinary t \<longleftrightarrow> True"

text \<open>What is left of a type when optional types and unions around it are taken off.\<close>

inductive peels :: "ty_expr \<Rightarrow> ty_expr \<Rightarrow> bool" where
  self: "peels t t"
| opt: "peels t x \<Longrightarrow> peels (TyOptional t) x"
| union: "t \<in> set ts \<Longrightarrow> peels t x \<Longrightarrow> peels (TyUnion ts) x"

lemma peels_trans: "peels t x \<Longrightarrow> peels x y \<Longrightarrow> peels t y"
  by (induction rule: peels.induct) (auto intro: peels.intros)

lemma peels_weight: "peels t x \<Longrightarrow> weight x \<le> weight t"
  by (induction rule: peels.induct) (auto dest: part_le(2))

lemma peels_ordinary: "peels t x \<Longrightarrow> ordinary t \<Longrightarrow> ordinary x"
  by (induction rule: peels.induct) (auto simp: list_all_iff)

lemma all_opt_True: "(\<And>x. x \<in> set xs \<Longrightarrow> f x = Some True) \<Longrightarrow> all_opt f xs = Some True"
  by (induction xs) auto

lemma all_opt_TrueD: "all_opt f xs = Some True \<Longrightarrow> x \<in> set xs \<Longrightarrow> f x = Some True"
  by (induction xs) (auto simp: Option.bind_eq_Some_conv split: if_splits)

lemma any_opt_True:
  assumes "y \<in> set xs" "f y = Some True" "\<And>x. f x \<noteq> None"
  shows "any_opt f xs = Some True"
  using assms(1)
proof (induction xs)
  case (Cons x xs)
  obtain b where "f x = Some b" using assms(3) by blast
  then show ?case using Cons assms(2) by (cases b) auto
qed simp

lemma any_opt_TrueD: "any_opt f xs = Some True \<Longrightarrow> \<exists>x \<in> set xs. f x = Some True"
  by (induction xs) (auto simp: Option.bind_eq_Some_conv split: if_splits)

lemmas compat_defs = compat_shape_def compat_union_def compat_named_def names_result_def exact_match_def scalar_def
  base_takes_literal_def literal_takes_base_def any_map_def any_vec_def

lemma literal_base_shape [simp]:
  "literal_base l \<noteq> TyOptional t" "literal_base l \<noteq> TyUnion ts" "literal_base l \<noteq> TyAny"
  "TyOptional t \<noteq> literal_base l" "TyUnion ts \<noteq> literal_base l"
  by (cases l; simp)+

lemma compat_optional:
  "\<not> is_TyOptional x \<Longrightarrow> x \<noteq> TyAny \<Longrightarrow> types_are_compatible C (TyOptional t) x = types_are_compatible C t x \<bind> (\<lambda>b. Some (b \<or> x = TyNull))"
  by (subst types_are_compatible.simps) (auto simp: names_result_def exact_match_def scalar_def base_takes_literal_def)

lemma compat_from_optional:
  "\<not> is_TyOptional e \<Longrightarrow> e \<noteq> TyAny \<Longrightarrow> \<not> names_result e \<Longrightarrow> types_are_compatible C e (TyOptional t) = types_are_compatible C e t"
  by (subst types_are_compatible.simps) (auto simp: exact_match_def scalar_def base_takes_literal_def)

lemma compat_union_actual:
  "types_are_compatible C (TyUnion ts) (TyUnion us) = all_opt (\<lambda>u. types_are_compatible C (TyUnion ts) u) us"
  by (subst types_are_compatible.simps) (simp add: compat_defs)

lemma compat_union_expected:
  "\<not> is_TyOptional x \<Longrightarrow> \<not> is_TyUnion x \<Longrightarrow> x \<noteq> TyAny \<Longrightarrow> types_are_compatible C (TyUnion ts) x = any_opt (\<lambda>t. types_are_compatible C t x) ts"
  by (subst types_are_compatible.simps) (auto simp: compat_defs)

lemma compat_any [simp]: "types_are_compatible C TyAny a = Some True" "types_are_compatible C e TyAny = Some True"
  by (simp_all add: types_are_compatible.simps)

lemma compat_peeled:
  assumes "peels p x" "decls_record_free C" "\<not> is_TyOptional x" "\<not> is_TyUnion x" "types_are_compatible C x x = Some True"
  shows "types_are_compatible C p x = Some True"
  using assms
proof (induction rule: peels.induct)
  case (opt t x)
  then show ?case by (cases "x = TyAny") (simp_all add: compat_optional)
next
  case (union t ts x)
  then show ?case
    using any_opt_True [of t ts "\<lambda>t. types_are_compatible C t x"] compat_total [OF union.prems(1)]
    by (cases "x = TyAny") (simp_all add: compat_union_expected)
qed

lemma compat_union_part:
  assumes "peels p x" "p \<in> set ts" "decls_record_free C"
    and "\<And>y. peels p y \<Longrightarrow> \<not> is_TyOptional y \<Longrightarrow> \<not> is_TyUnion y \<Longrightarrow> types_are_compatible C y y = Some True"
  shows "types_are_compatible C (TyUnion ts) x = Some True"
  using assms(1)
proof (induction "weight x" arbitrary: x rule: less_induct)
  case less
  consider (o) y where "x = TyOptional y" | (u) us where "x = TyUnion us" | (a) "x = TyAny"
    | (leaf) "\<not> is_TyOptional x" "\<not> is_TyUnion x" "x \<noteq> TyAny"
    by (cases x) auto
  then show ?case
  proof cases
    case o
    then have "types_are_compatible C (TyUnion ts) y = Some True"
      using less peels_trans [OF less.prems, of y] by (auto intro: peels.intros)
    then show ?thesis using o by (simp add: compat_from_optional names_result_def)
  next
    case u
    have "types_are_compatible C (TyUnion ts) y = Some True" if "y \<in> set us" for y
      using less.hyps [of y] u that peels_trans [OF less.prems, of y] part_le(2) [OF that] by (auto intro: peels.intros)
    then show ?thesis using u by (simp add: compat_union_actual all_opt_True)
  next
    case leaf
    then have "types_are_compatible C p x = Some True" using compat_peeled [OF less.prems assms(3)] assms(4) less.prems by blast
    then show ?thesis
      using any_opt_True [OF assms(2), of "\<lambda>t. types_are_compatible C t x"] compat_total [OF assms(3)] leaf
      by (simp add: compat_union_expected)
  qed simp
qed

lemma compat_refl_weight:
  assumes "decls_record_free C"
  shows "ordinary t \<Longrightarrow> types_are_compatible C t t = Some True"
proof (induction "weight t" arbitrary: t rule: less_induct)
  case less
  note ih = less.hyps
  have pairs: "all_opt (\<lambda>pair. types_are_compatible C (snd pair) (fst pair)) (zip ts ts) = Some True"
    "all_opt (\<lambda>pair. types_are_compatible C (fst pair) (snd pair)) (zip ts ts) = Some True"
    if "list_all ordinary ts" "sum_list (map weight ts) < weight t" for ts
    using that part_le(2) [of _ ts] by (auto intro!: all_opt_True ih simp: zip_same list_all_iff) (meson le_less_trans)+
  show ?case
  proof (cases t)
    case (TyUnion ts)
    have "types_are_compatible C t x = Some True" if "x \<in> set ts" for x
    proof -
      have "types_are_compatible C y y = Some True" if "peels x y" for y
        using ih [of y] TyUnion less.prems \<open>x \<in> set ts\<close> peels_weight [OF that] part_le(2) [OF \<open>x \<in> set ts\<close>]
          peels_ordinary [OF that] by (auto simp: list_all_iff)
      then show ?thesis using compat_union_part [OF peels.self that assms] TyUnion by simp
    qed
    then show ?thesis using TyUnion by (simp add: compat_union_actual all_opt_True)
  next
    case (TyFunction ps r)
    then show ?thesis using less.prems ih [of r] pairs [of ps] by (subst types_are_compatible.simps) (simp add: compat_defs)
  next
    case (TyGeneric g ts)
    then show ?thesis using less.prems pairs [of ts] by (subst types_are_compatible.simps) (simp add: compat_defs)
  next
    case (TyRecord fs b n)
    have "types_are_compatible C (snd f) (snd f) = Some True" if "f \<in> set fs" for f
      using that ih [of "snd f"] less.prems TyRecord field_le(2) [of "fst f" "snd f" fs] by (auto simp: list_all_iff)
    moreover have "im_get fs (fst f) = Some (snd f)" if "f \<in> set fs" for f
      using that less.prems TyRecord by (auto simp: map_of_is_SomeI)
    ultimately have "compat_fields (types_are_compatible C) fs fs = Some True" by (auto simp: compat_fields_def intro!: all_opt_True)
    then show ?thesis using TyRecord by (subst types_are_compatible.simps) (simp add: compat_defs)
  next
    case (TyLiteral l)
    then show ?thesis by (subst types_are_compatible.simps) (simp add: compat_defs)
  qed (use less.prems ih in \<open>(subst types_are_compatible.simps, simp add: compat_defs)+\<close>)
qed

section \<open>What a type promises of its values\<close>

text \<open>
  The values of a type, for the types whose values need no declarations. \<open>D\<close> reads the text of a decimal literal. An
  integer serves as a decimal. A closed record has no other entries than its fields.
\<close>

fun lit_value :: "(string \<Rightarrow> 'd option) \<Rightarrow> lit_type \<Rightarrow> ('d, 'b) val \<Rightarrow> bool" where
  "lit_value D (LitStr s) v \<longleftrightarrow> v = VStr s"
| "lit_value D (LitInt n) v \<longleftrightarrow> v = VInt n"
| "lit_value D (LitDec d) v \<longleftrightarrow> (case D d of Some x \<Rightarrow> v = VDec x | None \<Rightarrow> False)"
| "lit_value D (LitBool b) v \<longleftrightarrow> v = VBool b"
| "lit_value D LitNull v \<longleftrightarrow> v = VNull"

definition shaped :: "ty_expr \<Rightarrow> ('d, 'b) val \<Rightarrow> bool" where
  "shaped t v =
     (case v of
        VNull \<Rightarrow> t = TyNull
      | VBool _ \<Rightarrow> t = TyBool
      | VInt _ \<Rightarrow> t = TyInt \<or> t = TyDec
      | VDec _ \<Rightarrow> t = TyDec
      | VStr _ \<Rightarrow> t = TyStr
      | VByte _ \<Rightarrow> t = TyByte
      | VBytes _ \<Rightarrow> t = TyBytes
      | _ \<Rightarrow> False)"

function inhabits :: "(string \<Rightarrow> 'd option) \<Rightarrow> ty_expr \<Rightarrow> ('d, 'b) val \<Rightarrow> bool" where
  "inhabits D t v =
     (case t of
        TyAny \<Rightarrow> True
      | TyLiteral l \<Rightarrow> lit_value D l v
      | TyOptional u \<Rightarrow> v = VNull \<or> inhabits D u v
      | TyUnion ts \<Rightarrow> list_ex (\<lambda>u. inhabits D u v) ts
      | TyVec u \<Rightarrow> (case v of VVec xs \<Rightarrow> list_all (inhabits D u) xs | _ \<Rightarrow> False)
      | TyMap k w \<Rightarrow> (case v of VMap m \<Rightarrow> list_all (\<lambda>(x, y). inhabits D k x \<and> inhabits D w y) m | _ \<Rightarrow> False)
      | TyRecord fs opn _ \<Rightarrow>
          (case v of
             VMap m \<Rightarrow>
               list_all (\<lambda>f. case str_get m (fst f) of Some w \<Rightarrow> inhabits D (snd f) w | None \<Rightarrow> False) fs \<and>
               (opn \<or> list_all (\<lambda>(x, y). case key_text x of
                                  Some s \<Rightarrow> list_ex (\<lambda>f. fst f = s \<and> inhabits D (snd f) y) fs
                                | None \<Rightarrow> False) m)
           | _ \<Rightarrow> False)
      | _ \<Rightarrow> shaped t v)"
  by pat_completeness auto
termination
  by (relation "measure (\<lambda>(_, t, _). weight t)")
    (auto dest: part_le(2) field_le(2) intro: le_imp_less_Suc)

declare inhabits.simps [simp del]

text \<open>Types whose values the checker knows exactly, on the side of the argument and on the side of the parameter. A
  parameter takes records with further fields; the keys of its maps are no literals.\<close>

fun known_type :: "ty_expr \<Rightarrow> bool" where
  "known_type (TyLiteral l) \<longleftrightarrow> True"
| "known_type (TyUnion ts) \<longleftrightarrow> list_all known_type ts"
| "known_type (TyVec t) \<longleftrightarrow> known_type t"
| "known_type (TyMap k v) \<longleftrightarrow> known_type k \<and> known_type v"
| "known_type (TyRecord fs opn n) \<longleftrightarrow> \<not> opn \<and> list_all (\<lambda>f. known_type (snd f)) fs"
| "known_type t \<longleftrightarrow> scalar t"

fun literal_free :: "ty_expr \<Rightarrow> bool" where
  "literal_free (TyLiteral l) \<longleftrightarrow> False"
| "literal_free (TyOptional t) \<longleftrightarrow> literal_free t"
| "literal_free (TyUnion ts) \<longleftrightarrow> list_all literal_free ts"
| "literal_free (TyVec t) \<longleftrightarrow> literal_free t"
| "literal_free (TyMap k v) \<longleftrightarrow> literal_free k \<and> literal_free v"
| "literal_free (TyRecord fs opn n) \<longleftrightarrow> list_all (\<lambda>f. literal_free (snd f)) fs"
| "literal_free t \<longleftrightarrow> True"

fun exact_type :: "ty_expr \<Rightarrow> bool" where
  "exact_type TyAny \<longleftrightarrow> True"
| "exact_type (TyLiteral l) \<longleftrightarrow> True"
| "exact_type (TyOptional t) \<longleftrightarrow> exact_type t"
| "exact_type (TyUnion ts) \<longleftrightarrow> list_all exact_type ts"
| "exact_type (TyVec t) \<longleftrightarrow> exact_type t"
| "exact_type (TyMap k v) \<longleftrightarrow> exact_type k \<and> literal_free k \<and> exact_type v"
| "exact_type (TyRecord fs opn n) \<longleftrightarrow> opn \<and> list_all (\<lambda>f. exact_type (snd f)) fs"
| "exact_type t \<longleftrightarrow> scalar t"

text \<open>A type without a scalar that a literal could stand for.\<close>

fun base_free :: "ty_expr \<Rightarrow> bool" where
  "base_free (TyUnion ts) \<longleftrightarrow> list_all base_free ts"
| "base_free (TyVec t) \<longleftrightarrow> base_free t"
| "base_free (TyMap k v) \<longleftrightarrow> base_free k \<and> base_free v"
| "base_free (TyRecord fs opn n) \<longleftrightarrow> list_all (\<lambda>f. base_free (snd f)) fs"
| "base_free t \<longleftrightarrow> t \<notin> {TyNull, TyBool, TyInt, TyDec, TyStr}"

definition sound_pair :: "ty_expr \<Rightarrow> ty_expr \<Rightarrow> bool" where
  "sound_pair e a \<longleftrightarrow> exact_type e \<and> known_type a \<and> (literal_free e \<or> base_free a)"

lemma lit_value_shaped:
  assumes "lit_value D l v"
  shows "shaped (literal_base l) v" "literal_base l = TyInt \<Longrightarrow> shaped TyDec v"
  using assms by (cases l; auto simp: shaped_def split: option.splits)+

lemma base_free_literal: "base_free (literal_base l) \<longleftrightarrow> False"
  by (cases l) auto

lemma compat_to_union:
  assumes "types_are_compatible C e (TyUnion us) = Some True" "\<not> is_TyOptional e" "e \<noteq> TyAny" "\<not> names_result e" "u \<in> set us"
  shows "types_are_compatible C e u = Some True"
proof -
  have "all_opt (\<lambda>u. types_are_compatible C e u) us = Some True"
    using assms(1-4) by (subst (asm) types_are_compatible.simps) (auto simp: compat_defs split: if_splits)
  then show ?thesis using all_opt_TrueD assms(5) by fast
qed

lemma compat_of_union:
  assumes "types_are_compatible C (TyUnion ts) a = Some True" "\<not> is_TyOptional a" "\<not> is_TyUnion a" "a \<noteq> TyAny"
  shows "\<exists>t \<in> set ts. types_are_compatible C t a = Some True"
  using assms any_opt_TrueD [of "\<lambda>t. types_are_compatible C t a" ts] by (simp add: compat_union_expected)

lemma inhabits_simps [simp]:
  "inhabits D TyAny v" "inhabits D (TyLiteral l) v \<longleftrightarrow> lit_value D l v"
  "inhabits D (TyOptional t) v \<longleftrightarrow> v = VNull \<or> inhabits D t v" "inhabits D (TyUnion ts) v \<longleftrightarrow> (\<exists>t \<in> set ts. inhabits D t v)"
  "inhabits D (TyVec t) v \<longleftrightarrow> (\<exists>xs. v = VVec xs \<and> (\<forall>x \<in> set xs. inhabits D t x))"
  "inhabits D (TyMap k w) v \<longleftrightarrow> (\<exists>m. v = VMap m \<and> (\<forall>(x, y) \<in> set m. inhabits D k x \<and> inhabits D w y))"
  "scalar t \<Longrightarrow> inhabits D t v \<longleftrightarrow> shaped t v"
  by (subst inhabits.simps; auto simp: list_ex_iff list_all_iff scalar_def split: val.splits)+

lemma inhabits_record:
  "inhabits D (TyRecord fs opn n) v \<longleftrightarrow>
     (\<exists>m. v = VMap m \<and> (\<forall>f \<in> set fs. \<exists>w. str_get m (fst f) = Some w \<and> inhabits D (snd f) w) \<and>
       (opn \<or> (\<forall>(x, y) \<in> set m. \<exists>f \<in> set fs. x = VStr (fst f) \<and> inhabits D (snd f) y)))"
proof (cases v)
  case (VMap m)
  have key: "(case key_text x of Some s \<Rightarrow> list_ex (\<lambda>f. fst f = s \<and> inhabits D (snd f) y) fs | None \<Rightarrow> False) \<longleftrightarrow>
      (\<exists>f \<in> set fs. x = VStr (fst f) \<and> inhabits D (snd f) y)" for x y
    by (cases x) (auto simp: key_text_def list_ex_iff)
  have field: "(case str_get m (fst f) of Some w \<Rightarrow> inhabits D (snd f) w | None \<Rightarrow> False) \<longleftrightarrow>
      (\<exists>w. str_get m (fst f) = Some w \<and> inhabits D (snd f) w)" for f :: "string \<times> ty_expr"
    by (simp split: option.splits)
  show ?thesis
    unfolding inhabits.simps [of D "TyRecord fs opn n"] by (simp add: VMap key field list_all_iff)
qed (simp_all add: inhabits.simps [of D "TyRecord fs opn n"])

lemma known_not: "known_type a \<Longrightarrow> \<not> is_TyOptional a \<and> a \<noteq> TyAny"
  by (cases a) (auto simp: scalar_def)

lemma exact_not: "exact_type e \<Longrightarrow> \<not> names_result e"
  by (cases e) (auto simp: scalar_def names_result_def)

definition plain_form :: "ty_expr \<Rightarrow> bool" where
  "plain_form t \<longleftrightarrow> \<not> is_TyNamed t \<and> \<not> is_TyFunction t \<and> \<not> is_TyGeneric t \<and> \<not> is_TyLazy t \<and> \<not> is_TyVariadic t \<and> \<not> is_TyNamespace t \<and>
     \<not> is_TyTypeRef t \<and> \<not> is_TyConstrained t"

lemma exact_plain: "exact_type e \<Longrightarrow> plain_form e"
  by (cases e) (auto simp: plain_form_def scalar_def)

lemma known_plain: "known_type a \<Longrightarrow> plain_form a"
  by (cases a) (auto simp: plain_form_def scalar_def)

text \<open>The remaining shapes are compatible only pairwise.\<close>

lemma shape_forms:
  assumes c: "compat_shape C r e a = Some True" and s: "sound_pair e a" and e: "\<not> is_TyOptional e" "\<not> is_TyUnion e" "e \<noteq> TyAny"
    and a: "\<not> is_TyUnion a"
  shows "is_TyVec e \<and> is_TyVec a \<or> is_TyMap e \<and> (is_TyMap a \<or> is_TyRecord a) \<or> is_TyRecord e \<and> is_TyRecord a"
proof (rule ccontr)
  assume n: "\<not> ?thesis"
  have nm: "\<not> any_map a" using s by (auto simp: any_map_def sound_pair_def scalar_def)
  have forms: "plain_form e" "plain_form a" using s exact_plain known_plain by (auto simp: sound_pair_def)
  have "\<not> literal_takes_base e a"
    using s base_free_literal by (auto simp: literal_takes_base_def sound_pair_def is_TyLiteral_def)
  then have "compat_union C r e a = Some False"
    using forms e a unfolding compat_union_def compat_named_def plain_form_def by (simp add: is_TyNamed_def)
  moreover have "compat_shape C r e a = compat_union C r e a"
    using n nm forms unfolding compat_shape_def plain_form_def by auto
  ultimately show False using c by simp
qed

lemma sound_step:
  fixes v :: "('d, 'b) val"
  assumes ih: "\<And>x y (v :: ('d, 'b) val). ((x, y), (e, a)) \<in> smaller \<Longrightarrow> types_are_compatible C x y = Some True \<Longrightarrow> sound_pair x y \<Longrightarrow>
      inhabits D y v \<Longrightarrow> inhabits D x v"
    and c: "types_are_compatible C e a = Some True" and s: "sound_pair e a" and v: "inhabits D a v"
    and e: "\<not> is_TyOptional e" "\<not> is_TyUnion e" "e \<noteq> TyAny" and a: "\<not> is_TyUnion a"
  shows "inhabits D e v"
proof -
  have a': "\<not> is_TyOptional a" "a \<noteq> TyAny" and e': "\<not> names_result e"
    using s known_not exact_not by (auto simp: sound_pair_def)
  have arms: "types_are_compatible C e a =
      (if exact_match e a then Some True
       else if is_TyLiteral e \<and> is_TyLiteral a then Some (lit_of e = lit_of a)
       else if base_takes_literal e a then Some True
       else compat_shape C (types_are_compatible C) e a)"
    using a' e e' by (subst types_are_compatible.simps) simp
  consider (exact) "exact_match e a" | (lits) "is_TyLiteral e" "is_TyLiteral a" "lit_of e = lit_of a" | (base) "base_takes_literal e a"
    | (shape) "\<not> is_TyLiteral e \<or> \<not> is_TyLiteral a" "compat_shape C (types_are_compatible C) e a = Some True"
    using c unfolding arms by (auto split: if_splits)
  then show ?thesis
  proof cases
    case exact
    then show ?thesis using v by (auto simp: exact_match_def scalar_def shaped_def split: val.splits)
  next
    case lits
    then have "e = a" by (auto simp: is_TyLiteral_def)
    then show ?thesis using v by simp
  next
    case base
    then obtain l where "a = TyLiteral l" "e = literal_base l \<or> e = TyDec \<and> literal_base l = TyInt"
      by (auto simp: base_takes_literal_def is_TyLiteral_def)
    moreover have "scalar (literal_base l)" "scalar TyDec" by (cases l; simp add: scalar_def) (simp add: scalar_def)
    moreover have "lit_value D l v" using v \<open>a = TyLiteral l\<close> by simp
    ultimately have "scalar e" "shaped e v" using lit_value_shaped [of D l v] by metis+
    then show ?thesis by simp
  next
    case shape
    let ?r = "types_are_compatible C"
    have "is_TyVec e \<and> is_TyVec a \<or> is_TyMap e \<and> (is_TyMap a \<or> is_TyRecord a) \<or> is_TyRecord e \<and> is_TyRecord a"
      using shape_forms [OF shape(2) s e a] .
    then consider (vec) t u where "e = TyVec t" "a = TyVec u" | (map) k w k' w' where "e = TyMap k w" "a = TyMap k' w'"
      | (maprec) k w fs opn n where "e = TyMap k w" "a = TyRecord fs opn n"
      | (rec) es eo en fs opn n where "e = TyRecord es eo en" "a = TyRecord fs opn n"
      by (auto simp: is_TyVec_def is_TyMap_def is_TyRecord_def)
    then show ?thesis
    proof cases
      case vec
      then have "t = TyAny \<or> ?r t u = Some True" using shape by (auto simp: compat_shape_def split: if_splits)
      then show ?thesis
        using vec s v ih [of t u] calls_both(3) [of e a] by (auto simp: sound_pair_def)
    next
      case map
      then have "k = TyAny \<and> w = TyAny \<or> ?r k k' = Some True \<and> ?r w w' = Some True"
        using shape by (auto simp: compat_shape_def Option.bind_eq_Some_conv split: if_splits)
      then show ?thesis
        using map s v ih [of k k'] ih [of w w'] calls_both(5,6) [of e a] by (fastforce simp: sound_pair_def)
    next
      case maprec
      then have key: "?r k TyStr = Some True" and val: "w = TyAny \<or> all_opt (\<lambda>f. ?r w (snd f)) fs = Some True"
        using shape by (auto simp: compat_shape_def Option.bind_eq_Some_conv split: if_splits)
      have "inhabits D k (VStr x :: ('d, 'b) val)" for x
        using ih [of k TyStr "VStr x"] key s maprec calls_both(8) [of e a] by (simp add: sound_pair_def scalar_def shaped_def)
      moreover have "inhabits D w y" if "f \<in> set fs" "inhabits D (snd f) y" for f and y :: "('d, 'b) val"
        using val
      proof
        assume "all_opt (\<lambda>f. ?r w (snd f)) fs = Some True"
        then have "?r w (snd f) = Some True" using all_opt_TrueD [OF _ that(1)] by fast
        moreover have "sound_pair w (snd f)" using s maprec that(1) by (auto simp: sound_pair_def list_all_iff)
        ultimately show ?thesis using ih [of w "snd f" y] calls_field(1) [of e a f] maprec that by simp
      qed simp
      ultimately show ?thesis using v s maprec by (fastforce simp: inhabits_record sound_pair_def)
    next
      case rec
      then have "compat_fields ?r es fs = Some True" using shape by (auto simp: compat_shape_def any_map_def split: if_splits)
      then have fields: "\<exists>u. im_get fs (fst f) = Some u \<and> ?r (snd f) u = Some True" if "f \<in> set es" for f
        using all_opt_TrueD [OF _ that] unfolding compat_fields_def by (fastforce split: if_splits)
      obtain m where m: "v = VMap m" "\<And>f. f \<in> set fs \<Longrightarrow> \<exists>w. str_get m (fst f) = Some w \<and> inhabits D (snd f) w"
        using v rec by (auto simp: inhabits_record)
      have "\<exists>w. str_get m (fst f) = Some w \<and> inhabits D (snd f) w" if h: "f \<in> set es" for f
      proof -
        obtain u where u: "im_get fs (fst f) = Some u" "?r (snd f) u = Some True" using fields [OF h] by blast
        then obtain w where w: "str_get m (fst f) = Some w" "inhabits D u w" using m(2) im_get_SomeD [OF u(1)] by fastforce
        moreover have "sound_pair (snd f) u"
          using s rec h im_get_SomeD [OF u(1)] by (force simp: sound_pair_def list_all_iff)
        ultimately show ?thesis using ih [of "snd f" u w] calls_field(2) [of e a f "fst f" u] u rec h by simp
      qed
      then show ?thesis using m(1) s rec by (auto simp: inhabits_record sound_pair_def)
    qed
  qed
qed

lemma compat_sound:
  fixes v :: "('d, 'b) val"
  assumes "types_are_compatible C e a = Some True" "sound_pair e a" "inhabits D a v"
  shows "inhabits D e v"
  using assms
proof (induction "(e, a)" arbitrary: e a v rule: wf_induct_rule [OF wf_smaller])
  case 1
  note ih = "1.hyps"
  have k: "known_type a" and x: "exact_type e" and l: "literal_free e \<or> base_free a" using "1.prems" by (auto simp: sound_pair_def)
  show ?case
  proof (cases "e = TyAny")
    case False
    consider (opt) t where "e = TyOptional t" | (au) us where "a = TyUnion us" "\<not> is_TyOptional e"
      | (eu) ts where "e = TyUnion ts" "\<not> is_TyUnion a" | (rest) "\<not> is_TyOptional e" "\<not> is_TyUnion e" "\<not> is_TyUnion a"
      by (cases e; cases a) auto
    then show ?thesis
    proof cases
      case opt
      then have "types_are_compatible C t a = Some True \<or> a = TyNull"
        using "1.prems"(1) known_not [OF k] by (auto simp: compat_optional Option.bind_eq_Some_conv)
      moreover have "((t, a), (e, a)) \<in> smaller" using opt calls_one(5) [of e a] by simp
      moreover have "sound_pair t a" using "1.prems"(2) opt by (simp add: sound_pair_def)
      ultimately show ?thesis
        using ih [of t a v] "1.prems"(3) opt by (auto simp: scalar_def shaped_def split: val.splits)
    next
      case au
      then obtain u where u: "u \<in> set us" "inhabits D u v" using "1.prems"(3) by auto
      have "types_are_compatible C e u = Some True"
        using compat_to_union [of C e us u] "1.prems"(1) au False exact_not [OF x] u(1) by blast
      moreover have "((e, u), (e, a)) \<in> smaller" using au u calls_part(1) [of a u e] by simp
      moreover have "sound_pair e u" using k x l au u by (auto simp: sound_pair_def list_all_iff)
      ultimately show ?thesis using ih u(2) by blast
    next
      case eu
      then obtain t where t: "t \<in> set ts" "types_are_compatible C t a = Some True"
        using compat_of_union [of C ts a] "1.prems"(1) known_not [OF k] by auto
      moreover have "((t, a), (e, a)) \<in> smaller" using eu t calls_part(2) [of e t a] by simp
      moreover have "sound_pair t a" using k x l eu t by (auto simp: sound_pair_def list_all_iff)
      ultimately show ?thesis using ih [of t a v] "1.prems"(3) eu by auto
    next
      case rest
      show ?thesis
      proof (rule sound_step [OF _ "1.prems"])
        fix x y and w :: "('d, 'b) val"
        assume "((x, y), e, a) \<in> smaller" "types_are_compatible C x y = Some True" "sound_pair x y" "inhabits D y w"
        then show "inhabits D x w" by (rule ih)
      qed (use rest False in auto)
    qed
  qed simp
qed

section \<open>Properties\<close>

text \<open>
  C15. Where no declared field has a record type, the comparison of two types returns, however the types and the declared structs are nested, mutually recursive
  structs included: unfolding a struct uses up a record of the two types.
\<close>

theorem type_check_ends:
  assumes "decls_record_free C"
  shows "\<exists>compatible. types_are_compatible C expected actual = Some compatible"
  using compat_total [OF assms] by blast

definition list_decl :: type_definition where
  "list_decl =
     \<lparr>td_is_open = False, td_enum_is_open = False, td_is_enum = False, td_is_struct = True,
      td_fields = [(''head'', TyInt), (''tail'', TyOptional (TyNamed ''List''))], td_variants = [], td_variant_payloads = [],
      td_declaring_namespace = ''::app'', td_is_literal_union = False, td_literal_members = []\<rparr>"

definition list_context :: type_context where
  "list_context =
     \<lparr>tc_types = [(''List'', list_decl)], tc_current_namespace = ''::app'', tc_current_aliases = [], tc_qualified_types = [],
      tc_core_types = [], tc_impl_registry = [], tc_in_pipe_flow = False\<rparr>"

lemma list_context_free: "decls_record_free list_context"
  by (simp add: decls_record_free_def list_context_def list_decl_def)

theorem type_check_ends_witness:
  "\<exists>compatible. types_are_compatible list_context (TyNamed ''List'')
     (TyRecord [(''head'', TyInt), (''tail'', TyRecord [(''head'', TyStr)] False None)] False None) = Some compatible"
  by (rule type_check_ends [OF list_context_free])

text \<open>C35. Where no declared field has a record type, a type is compatible with itself, a union of types included: every type
  without lazy, variadic, constrained and never types whose records name each field once.\<close>

theorem compatible_with_itself:
  assumes "decls_record_free C" "ordinary t"
  shows "types_are_compatible C t t = Some True"
  using compat_refl_weight [OF assms] .

theorem compatible_with_itself_witness:
  "types_are_compatible list_context (TyUnion [TyOptional (TyUnion [TyInt, TyStr]), TyVec TyDec, TyNamed ''List''])
     (TyUnion [TyOptional (TyUnion [TyInt, TyStr]), TyVec TyDec, TyNamed ''List'']) = Some True"
  by (rule compatible_with_itself [OF list_context_free]) simp

text \<open>
  C14. An argument whose type is known (scalars, literals, unions, vectors, maps and closed records of such) and compatible with the
  type of the parameter is a value of that type, for parameters of \<^verbatim>\<open>Any\<close>, scalars, literals, optional types, unions, vectors,
  maps whose keys have no literal and open records, where not both a literal stands in the type of the parameter and a plain scalar, for which the code
  lets a literal stand, in that of the argument.
\<close>

theorem compatible_types_sound:
  assumes "types_are_compatible C expected actual = Some True" "sound_pair expected actual" "inhabits D actual v"
  shows "inhabits D expected v"
  using compat_sound [OF assms] .

theorem compatible_types_sound_witness:
  "inhabits (\<lambda>s. None :: int option) (TyMap TyStr (TyUnion [TyDec, TyOptional TyBool]))
     (VMap [(VStr ''a'', VInt 1), (VStr ''b'', VBool True)] :: (int, unit) val)"
proof (rule compatible_types_sound)
  let ?e = "TyMap TyStr (TyUnion [TyDec, TyOptional TyBool])"
  let ?a = "TyRecord [(''a'', TyInt), (''b'', TyBool)] False None"
  show "types_are_compatible list_context ?e ?a = Some True" by code_simp
  show "sound_pair ?e ?a" by (simp add: sound_pair_def scalar_def)
  show "inhabits (\<lambda>s. None) ?a (VMap [(VStr ''a'', VInt 1), (VStr ''b'', VBool True)] :: (int, unit) val)"
    by code_simp
qed

text \<open>A signature takes a call if its arity fits and each argument with a known position fits its parameter.\<close>

definition takes_call :: "type_context \<Rightarrow> ('d, 'b) call_arg list \<Rightarrow> ty_expr list \<Rightarrow> signature \<Rightarrow> bool" where
  "takes_call C args arg_types sig \<longleftrightarrow>
     arity_fits sig (written_args C args) (positioned_args args < length args) \<and>
     (\<forall>i < min (positioned_args args) (min (length args) (length arg_types)).
        case parameter_at sig (i + param_offset C) of
          Some expected \<Rightarrow> argument_fits C (args ! i) expected (arg_types ! i)
        | None \<Rightarrow> True)"

lemma no_type_errors:
  "type_errors C sig args arg_types = [] \<longleftrightarrow>
     (\<forall>i < min (positioned_args args) (min (length args) (length arg_types)).
        case parameter_at sig (i + param_offset C) of
          Some expected \<Rightarrow> argument_fits C (args ! i) expected (arg_types ! i)
        | None \<Rightarrow> True)"
proof -
  let ?xs = "take (positioned_args args) (zip args arg_types)"
  let ?bad = "\<lambda>(i, arg, actual). case parameter_at sig (i + param_offset C) of
      Some expected \<Rightarrow> if argument_fits C arg expected actual then [] else [(i, expected, actual)] | None \<Rightarrow> []"
  have "type_errors C sig args arg_types = [] \<longleftrightarrow> (\<forall>p \<in> set (enumerate 0 ?xs). ?bad p = [])"
    by (simp add: type_errors_def)
  also have "\<dots> \<longleftrightarrow> (\<forall>i < length ?xs. ?bad (i, ?xs ! i) = [])"
    by (auto simp: in_set_enumerate_eq Ball_def)
  also have "\<dots> \<longleftrightarrow> (\<forall>i < length ?xs. case parameter_at sig (i + param_offset C) of
      Some expected \<Rightarrow> argument_fits C (args ! i) expected (arg_types ! i) | None \<Rightarrow> True)"
    by (auto split: option.splits)
  finally show ?thesis by (simp add: min.commute min.left_commute)
qed

lemma try_overloads_None:
  "try_overloads C args arg_types best ruled_out sigs = None \<longleftrightarrow> (\<exists>sig \<in> set sigs. type_errors C sig args arg_types = [])"
  by (induction sigs arbitrary: best ruled_out) (auto simp: Let_def)

lemma try_overloads_best:
  assumes "try_overloads C args arg_types best ruled_out sigs = Some (b, r)" "sigs \<noteq> [] \<or> best \<noteq> None" "best \<noteq> Some []"
  shows "\<exists>errs. b = Some errs \<and> errs \<noteq> []"
  using assms
  by (induction sigs arbitrary: best ruled_out) (fastforce simp: Let_def split: if_splits option.splits)+

text \<open>C16. Outside function bodies a call is accepted exactly if an overload takes it.\<close>

theorem call_accepted_iff:
  "validate_function_call_arguments C False args arg_types sigs = [] \<longleftrightarrow> (\<exists>sig \<in> set sigs. takes_call C args arg_types sig)"
proof -
  define matching where
    "matching = filter (\<lambda>sig. arity_fits sig (written_args C args) (positioned_args args < length args)) sigs"
  have takes: "(\<exists>sig \<in> set sigs. takes_call C args arg_types sig) \<longleftrightarrow> (\<exists>sig \<in> set matching. type_errors C sig args arg_types = [])"
    unfolding no_type_errors takes_call_def matching_def by auto
  show ?thesis
  proof (cases "try_overloads C args arg_types None True matching")
    case None
    then have "\<exists>sig \<in> set matching. type_errors C sig args arg_types = []" using try_overloads_None by blast
    moreover from this have "matching \<noteq> []" by auto
    ultimately show ?thesis
      using takes None by (simp add: validate_function_call_arguments_def Let_def matching_def [symmetric])
  next
    case (Some res)
    then have "\<not> (\<exists>sig \<in> set matching. type_errors C sig args arg_types = [])" using try_overloads_None by (metis option.distinct(1))
    moreover obtain b r where "res = (b, r)" by (cases res)
    moreover from this Some have "matching \<noteq> [] \<Longrightarrow> \<exists>errs. b = Some errs \<and> errs \<noteq> []"
      using try_overloads_best [of C args arg_types None True matching b r] by simp
    ultimately show ?thesis
      using Some takes by (auto simp: validate_function_call_arguments_def Let_def matching_def [symmetric])
  qed
qed

text \<open>
  \<^verbatim>\<open>if(c, 1)\<close> has the type \<^verbatim>\<open>Int | Null\<close>. A parameter \<^verbatim>\<open>Int?\<close> takes an \<^verbatim>\<open>Int\<close> and takes \<^verbatim>\<open>null\<close>, but a call with that argument
  outside a function body is reported as a type error.
\<close>

theorem optional_refuses_union:
  "logic_result_type list_context local_signature ''::hot::bool/if'' [TyBool, TyInt] = Some (TyUnion [TyInt, TyNull]) \<and>
   type_fits list_context (TyOptional TyInt) TyInt \<and> type_fits list_context (TyOptional TyInt) TyNull \<and>
   validate_function_call_arguments list_context False [\<lparr>ca_spread = False, ca_literal = (None :: (int, unit) val option)\<rparr>]
     [TyUnion [TyInt, TyNull]] [\<lparr>sg_return_type = TyAny, sg_parameter_types = [TyOptional TyInt], sg_variadic = False\<rparr>] =
     [TypeMismatch 0 (TyOptional TyInt) (TyUnion [TyInt, TyNull])]"
proof (intro conjI)
  show "logic_result_type list_context local_signature ''::hot::bool/if'' [TyBool, TyInt] = Some (TyUnion [TyInt, TyNull])"
    by (simp add: logic_result_type_def Let_def strip_prefix_def starts_with_def union_of_def)
qed code_simp+

text \<open>
  A literal that is no member of a literal union is accepted where the union is expected: its inferred type is that of
  all strings, which is compatible with each member, so the literal itself is never compared.
\<close>

theorem foreign_literal_accepted:
  "let fruit = TyUnion [TyLiteral (LitStr ''apple''), TyLiteral (LitStr ''banana'')]; kiwi = (VStr ''kiwi'' :: (int, unit) val)
   in \<not> type_fits list_context fruit (TyLiteral (LitStr ''kiwi'')) \<and>
      validate_function_call_arguments list_context False [\<lparr>ca_spread = False, ca_literal = Some kiwi\<rparr>] [infer_val_type kiwi]
        [\<lparr>sg_return_type = TyAny, sg_parameter_types = [fruit], sg_variadic = False\<rparr>] = []"
  by code_simp

end
