(* ===== verification/Hot_Match.thy ===== *)
theory Hot_Match
  imports Hot_Types "HOL-Library.List_Lexorder" "HOL-Library.Char_ord" "HOL-Library.Product_Lexorder"
begin

text \<open>
  Match expressions: the check that the arms of a \<^verbatim>\<open>match\<close> cover its subject
  (\<^verbatim>\<open>crates/hot/src/lang/compiler/type_checker.rs\<close>) and the tests the compiler emits for the arms
  (\<^verbatim>\<open>crates/hot/src/lang/compiler/mod.rs\<close>, run by \<^verbatim>\<open>crates/hot/src/lang/runtime/vm.rs\<close>). The type an annotation denotes and the
  text of a type are parameters of the check, the constraint check of an alias is a parameter of the test. The subject is
  a value that has been computed; forcing a lazy one is left out.
\<close>

section \<open>Arms\<close>

text \<open>A value pattern is a literal, or the text of another expression.\<close>

record ('d, 'b) pattern_atom =
  pa_type_name :: "string option"
  pa_variant :: "string option"
  pa_value_literal :: "(('d, 'b) val + string) option"

record ('d, 'b) match_arm =
  ma_atom :: "('d, 'b) pattern_atom"
  ma_alternatives :: "('d, 'b) pattern_atom list"

definition arm_atoms :: "('d, 'b) match_arm \<Rightarrow> ('d, 'b) pattern_atom list" where
  "arm_atoms arm = ma_atom arm # ma_alternatives arm"

definition is_default :: "('d, 'b) match_arm \<Rightarrow> bool" where
  "is_default arm \<longleftrightarrow>
     pa_type_name (ma_atom arm) = None \<and> pa_variant (ma_atom arm) = None \<and> pa_value_literal (ma_atom arm) = None \<and>
     ma_alternatives arm = []"

text \<open>\<^verbatim>\<open>name.rsplit_once('/')\<close>.\<close>

definition rsplit_slash :: "string \<Rightarrow> (string \<times> string) option" where
  "rsplit_slash name =
     (if CHR ''/'' \<in> set name
      then Some (take (length name - length (short_type_name name) - 1) name, short_type_name name) else None)"

definition atom_names_result :: "type_context \<Rightarrow> ('d, 'b) pattern_atom \<Rightarrow> bool" where
  "atom_names_result C atom \<longleftrightarrow>
     (case pa_type_name atom of
        None \<Rightarrow> False
      | Some name \<Rightarrow>
          (case rsplit_slash name of
             Some (ns, short) \<Rightarrow>
               short = ''Result'' \<and>
               (case im_get (tc_current_aliases C) ns of Some target \<Rightarrow> target | None \<Rightarrow> ns) = ''::hot::type''
           | None \<Rightarrow> name = ''Result'' \<and> \<not> im_contains (tc_qualified_types C) (tc_current_namespace C @ ''/Result''))) \<and>
     (case pa_variant atom of None \<Rightarrow> True | Some v \<Rightarrow> v = ''Ok'' \<or> v = ''Err'')"

definition atom_takes_every_ok :: "type_context \<Rightarrow> ('d, 'b) pattern_atom \<Rightarrow> bool" where
  "atom_takes_every_ok C atom \<longleftrightarrow> atom_names_result C atom \<and> pa_variant atom \<noteq> Some ''Err''"

datatype match_error =
    OpenEnumMatchMissingDefault string
  | NonExhaustiveMatch string "string list" bool

section \<open>Literal unions\<close>

definition literal_union_def :: "type_context \<Rightarrow> string \<Rightarrow> type_definition option" where
  "literal_union_def C name =
     (case named_type_definition C name of
        Some td \<Rightarrow> if td_is_literal_union td \<and> \<not> td_is_enum td \<and> \<not> td_is_struct td then Some td else None
      | None \<Rightarrow> None)"

text \<open>An open match wins, otherwise the first name in order.\<close>

definition declared_literal_union :: "type_context \<Rightarrow> lit_type list \<Rightarrow> (string \<times> bool) option" where
  "declared_literal_union C members =
     (let found = filter (\<lambda>(name, td). CHR ''/'' \<in> set name \<and> td_is_literal_union td \<and>
                    length (td_literal_members td) = length members \<and> set members \<subseteq> set (td_literal_members td)) (tc_types C);
          named = map (\<lambda>(name, td). (short_type_name name, td_is_open td)) found
      in if named = [] then None else Some (hd (sort_key (\<lambda>(name, opn). (\<not> opn, name)) named)))"

definition push_member :: "lit_type list \<Rightarrow> lit_type \<Rightarrow> lit_type list" where
  "push_member members l = (if l \<in> set members then members else members @ [l])"

text \<open>The members and whether a part is open, \<open>None\<close> for a type with a part that is no literal.\<close>

fun collect_literal_members :: "type_context \<Rightarrow> ty_expr \<Rightarrow> lit_type list \<Rightarrow> bool \<Rightarrow> (lit_type list \<times> bool) option"
  and collect_parts :: "type_context \<Rightarrow> ty_expr list \<Rightarrow> lit_type list \<Rightarrow> bool \<Rightarrow> (lit_type list \<times> bool) option" where
  "collect_literal_members C (TyLiteral l) members opn = Some (push_member members l, opn)"
| "collect_literal_members C TyNull members opn = Some (push_member members LitNull, opn)"
| "collect_literal_members C (TyConstrained inner cs) members opn = collect_literal_members C inner members opn"
| "collect_literal_members C (TyOptional inner) members opn =
     (case collect_literal_members C inner members opn of
        Some (ms, o') \<Rightarrow> Some (push_member ms LitNull, o')
      | None \<Rightarrow> None)"
| "collect_literal_members C (TyNamed name) members opn =
     (case literal_union_def C name of
        Some td \<Rightarrow> Some (fold (\<lambda>l ms. push_member ms l) (td_literal_members td) members, opn \<or> td_is_open td)
      | None \<Rightarrow> None)"
| "collect_literal_members C (TyUnion parts) members opn =
     (case collect_parts C parts [] opn of
        Some (own, o') \<Rightarrow>
          Some (fold (\<lambda>l ms. push_member ms l) own members,
                o' \<or> (case declared_literal_union C own of Some (_, True) \<Rightarrow> True | _ \<Rightarrow> False))
      | None \<Rightarrow> None)"
| "collect_literal_members C t members opn = None"
| "collect_parts C [] own opn = Some (own, opn)"
| "collect_parts C (part # parts) own opn =
     (case collect_literal_members C part own opn of
        Some (own', opn') \<Rightarrow> collect_parts C parts own' opn'
      | None \<Rightarrow> None)"

record literal_subject =
  ls_name :: string
  ls_base_name :: string
  ls_members :: "lit_type list"
  ls_is_open :: bool

definition literal_union_subject :: "type_context \<Rightarrow> (ty_expr \<Rightarrow> string) \<Rightarrow> ty_expr \<Rightarrow> literal_subject option" where
  "literal_union_subject C type_text subject =
     (case collect_literal_members C subject [] False of
        None \<Rightarrow> None
      | Some (members, opn) \<Rightarrow>
          if \<not> list_ex (\<lambda>m. m \<noteq> LitNull) members then None
          else let (base, nullable) = (case subject of TyOptional inner \<Rightarrow> (inner, True) | _ \<Rightarrow> (subject, False));
                   (base_name, opn') =
                     (case base of
                        TyNamed name \<Rightarrow> (short_type_name name, opn)
                      | _ \<Rightarrow>
                          (case declared_literal_union C (if nullable then filter (\<lambda>m. m \<noteq> LitNull) members else members) of
                             Some (name, o') \<Rightarrow> (name, opn \<or> o')
                           | None \<Rightarrow> (type_text base, opn)))
               in Some \<lparr>ls_name = (if nullable then base_name @ ''?'' else base_name), ls_base_name = base_name,
                        ls_members = members, ls_is_open = opn'\<rparr>)"

definition literal_equals_val :: "('d, 'b) val_env \<Rightarrow> lit_type \<Rightarrow> ('d, 'b) val \<Rightarrow> bool" where
  "literal_equals_val E member v =
     (case (member, v) of
        (LitStr a, VStr b) \<Rightarrow> a = b
      | (LitInt a, VInt b) \<Rightarrow> a = b
      | (LitDec a, VDec b) \<Rightarrow> (case dec_parse E a of Some d \<Rightarrow> dec_eq E d b | None \<Rightarrow> False)
      | (LitBool a, VBool b) \<Rightarrow> a = b
      | (LitNull, VNull) \<Rightarrow> True
      | _ \<Rightarrow> False)"

fun lit_text :: "lit_type \<Rightarrow> string" where
  "lit_text (LitStr s) = CHR 34 # s @ [CHR 34]"
| "lit_text (LitInt n) = show_int n"
| "lit_text (LitDec d) = d"
| "lit_text (LitBool b) = (if b then ''true'' else ''false'')"
| "lit_text LitNull = ''null''"

fun lit_kind :: "lit_type \<Rightarrow> string" where
  "lit_kind (LitStr _) = ''Str''"
| "lit_kind (LitInt _) = ''Int''"
| "lit_kind (LitDec _) = ''Dec''"
| "lit_kind (LitBool _) = ''Bool''"
| "lit_kind LitNull = ''Null''"

text \<open>What an atom covers: \<open>Inl ()\<close> everything, \<open>Inr p\<close> the members with the property \<open>p\<close>.\<close>

definition atom_covers_literals ::
  "('d, 'b) val_env \<Rightarrow> type_context \<Rightarrow> (string \<Rightarrow> ty_expr) \<Rightarrow> literal_subject \<Rightarrow> ('d, 'b) pattern_atom \<Rightarrow> unit + (lit_type \<Rightarrow> bool)" where
  "atom_covers_literals E C annotation subject atom =
     (case pa_value_literal atom of
        Some (Inl v) \<Rightarrow> Inr (\<lambda>member. literal_equals_val E member v)
      | Some (Inr _) \<Rightarrow> Inr (\<lambda>member. False)
      | None \<Rightarrow>
          (case (pa_type_name atom, pa_variant atom) of
             (Some type_name, None) \<Rightarrow>
               let short = short_type_name type_name
               in if short = ''Any'' then Inl ()
                  else let arm_members = (case collect_literal_members C (annotation type_name) [] False of
                                            Some (ms, _) \<Rightarrow> ms | None \<Rightarrow> [])
                       in Inr (\<lambda>member. member \<in> set arm_members \<or> short = lit_kind member \<or>
                                 short = ls_base_name subject \<and> member \<noteq> LitNull)
           | _ \<Rightarrow> Inr (\<lambda>member. False)))"

definition check_literal_union_exhaustiveness ::
  "('d, 'b) val_env \<Rightarrow> type_context \<Rightarrow> (string \<Rightarrow> ty_expr) \<Rightarrow> literal_subject \<Rightarrow> ('d, 'b) match_arm list \<Rightarrow> match_error list" where
  "check_literal_union_exhaustiveness E C annotation subject arms =
     (let covers = map (atom_covers_literals E C annotation subject) (concat (map arm_atoms arms));
          missing = filter (\<lambda>member. \<not> list_ex (\<lambda>c. case c of Inl _ \<Rightarrow> True | Inr p \<Rightarrow> p member) covers) (ls_members subject)
      in if ls_is_open subject \<or> list_ex is_default arms \<or> list_ex isl covers \<or> missing = [] then []
         else [NonExhaustiveMatch (ls_name subject) (map lit_text missing) True])"

section \<open>Enums\<close>

text \<open>What an atom adds for an enum: a default, a cover of the whole type, a variant, or nothing.\<close>

datatype enum_cover = EveryValue | WholeType | OneVariant string | Nothing

definition atom_covers_enum :: "type_context \<Rightarrow> string \<Rightarrow> ('d, 'b) pattern_atom \<Rightarrow> enum_cover" where
  "atom_covers_enum C short_name atom =
     (if atom_names_result C atom then Nothing
      else case (pa_variant atom, pa_value_literal atom, pa_type_name atom) of
             (None, None, Some type_name) \<Rightarrow>
               if short_type_name type_name = ''Any'' then EveryValue
               else if short_type_name type_name = short_name then WholeType else Nothing
           | (Some variant, _, _) \<Rightarrow> OneVariant variant
           | _ \<Rightarrow> Nothing)"

definition enum_covers :: "type_context \<Rightarrow> string \<Rightarrow> ('d, 'b) match_arm list \<Rightarrow> enum_cover list" where
  "enum_covers C short_name arms =
     concat (map (\<lambda>arm. if is_default arm then [EveryValue] else map (atom_covers_enum C short_name) (arm_atoms arm)) arms)"

definition check_enum_exhaustiveness :: "type_context \<Rightarrow> string \<Rightarrow> type_definition \<Rightarrow> ('d, 'b) match_arm list \<Rightarrow> match_error list" where
  "check_enum_exhaustiveness C short_name td arms =
     (let covers = enum_covers C short_name arms;
          missing = filter (\<lambda>v. OneVariant v \<notin> set covers) (td_variants td)
      in if td_enum_is_open td
         then if EveryValue \<in> set covers then [] else [OpenEnumMatchMissingDefault short_name]
         else if EveryValue \<in> set covers \<or> WholeType \<in> set covers \<or> missing = [] then []
         else [NonExhaustiveMatch short_name (sort missing) False])"

definition subject_declaration :: "type_context \<Rightarrow> ty_expr \<Rightarrow> string \<Rightarrow> type_definition option" where
  "subject_declaration C subject short_name =
     (case Option.bind (type_expr_name subject) (im_get (tc_types C)) of
        Some td \<Rightarrow> Some td
      | None \<Rightarrow> im_get (tc_types C) short_name)"

definition check_match_exhaustiveness_for ::
  "('d, 'b) val_env \<Rightarrow> type_context \<Rightarrow> (string \<Rightarrow> ty_expr) \<Rightarrow> (ty_expr \<Rightarrow> string) \<Rightarrow> ty_expr \<Rightarrow> ('d, 'b) match_arm list \<Rightarrow> match_error list" where
  "check_match_exhaustiveness_for E C annotation type_text subject arms =
     (if list_ex (\<lambda>arm. list_ex (atom_takes_every_ok C) (arm_atoms arm)) arms then []
      else case literal_union_subject C type_text subject of
             Some s \<Rightarrow> check_literal_union_exhaustiveness E C annotation s arms
           | None \<Rightarrow>
               (case type_expr_short_name subject of
                  None \<Rightarrow> []
                | Some short_name \<Rightarrow>
                    (case subject_declaration C subject short_name of
                       Some td \<Rightarrow> if td_is_enum td then check_enum_exhaustiveness C short_name td arms else []
                     | None \<Rightarrow> [])))"

section \<open>Arms at run time\<close>

text \<open>What the compiler knows of names: the variables of the current namespace with their full names, the core types with
  their namespaces and the aliases of namespaces.\<close>

record names =
  nm_current_namespace :: string
  nm_variables :: "(string \<times> string) list"
  nm_core :: "(string \<times> string) list"
  nm_aliases :: "(string \<times> string) list"

definition resolve_type_path :: "names \<Rightarrow> string \<Rightarrow> string \<times> bool" where
  "resolve_type_path N type_name =
     (if starts_with type_name ''::''
      then (case rsplit_slash type_name of
              Some (ns, name) \<Rightarrow> ((case im_get (nm_aliases N) ns of Some target \<Rightarrow> target | None \<Rightarrow> ns) @ ''/'' @ name, True)
            | None \<Rightarrow> (type_name, True))
      else let local_path = nm_current_namespace N @ ''/'' @ type_name
           in if im_contains (nm_variables N) local_path then (local_path, True)
              else case im_get (nm_variables N) type_name of
                     Some full_name \<Rightarrow> (full_name, True)
                   | None \<Rightarrow>
                       (case im_get (nm_core N) type_name of
                          Some core_ns \<Rightarrow> (core_ns @ ''/'' @ type_name, True)
                        | None \<Rightarrow> (local_path, False)))"

text \<open>\<open>box_path\<close> is the type of a boxed value.\<close>

definition get_value_type_path :: "('b \<Rightarrow> string) \<Rightarrow> ('d, 'b) val \<Rightarrow> string" where
  "get_value_type_path box_path v =
     (case v of
        VStr _ \<Rightarrow> ''::hot::type/Str''
      | VInt _ \<Rightarrow> ''::hot::type/Int''
      | VDec _ \<Rightarrow> ''::hot::type/Dec''
      | VBool _ \<Rightarrow> ''::hot::type/Bool''
      | VNull \<Rightarrow> ''::hot::type/Null''
      | VVec _ \<Rightarrow> ''::hot::type/Vec''
      | VByte _ \<Rightarrow> ''::hot::type/Byte''
      | VBytes _ \<Rightarrow> ''::hot::type/Bytes''
      | VMap m \<Rightarrow> (case tagged_type_name m of Some name \<Rightarrow> name | None \<Rightarrow> ''::hot::type/Map'')
      | VBox b \<Rightarrow> box_path b)"

definition ends_with :: "string \<Rightarrow> string \<Rightarrow> bool" where
  "ends_with s e \<longleftrightarrow> starts_with (rev s) (rev e)"

definition is_type_path :: "string \<Rightarrow> string \<Rightarrow> bool" where
  "is_type_path actual expected \<longleftrightarrow> actual = expected \<or> starts_with actual (expected @ ''.'')"

text \<open>The test of an atom, \<open>None\<close> when the compiler refuses the pattern. \<open>alias_check\<close> is the constraint check of a refinement
  or literal union, \<open>pattern_value\<close> the value of an expression.\<close>

definition match_atom_comparison ::
  "('d, 'b) val_env \<Rightarrow> names \<Rightarrow> ('b \<Rightarrow> string) \<Rightarrow> (string \<Rightarrow> (('d, 'b) val \<Rightarrow> bool) option) \<Rightarrow> (string \<Rightarrow> ('d, 'b) val) \<Rightarrow> ('d, 'b) pattern_atom \<Rightarrow>
   ('d, 'b) val \<Rightarrow> bool option" where
  "match_atom_comparison E N box_path alias_check pattern_value atom v =
     (let path = get_value_type_path box_path v
      in case pa_value_literal atom of
           Some l \<Rightarrow> Some (val_eq E v (case l of Inl w \<Rightarrow> w | Inr e \<Rightarrow> pattern_value e))
         | None \<Rightarrow>
             (case (pa_type_name atom, pa_variant atom) of
                (Some type_name, Some variant) \<Rightarrow>
                  (case resolve_type_path N type_name of
                     (full, True) \<Rightarrow> Some (path = full @ ''.'' @ variant)
                   | (_, False) \<Rightarrow> None)
              | (Some type_name, None) \<Rightarrow>
                  (case resolve_type_path N type_name of
                     (full, True) \<Rightarrow>
                       if full = ''::hot::type/Any'' then Some True
                       else (case alias_check full of Some check \<Rightarrow> Some (check v) | None \<Rightarrow> Some (is_type_path path full))
                   | (_, False) \<Rightarrow> None)
              | (None, Some variant) \<Rightarrow> Some (ends_with path (''.'' @ variant))
              | (None, None) \<Rightarrow> Some True))"

text \<open>Arms that name the core \<^verbatim>\<open>Result\<close> wrap the subject; the other atoms then test what an \<open>Ok\<close> holds.\<close>

definition match_has_result_patterns :: "names \<Rightarrow> ('d, 'b) match_arm list \<Rightarrow> bool" where
  "match_has_result_patterns N arms =
     list_ex (\<lambda>arm. list_ex (\<lambda>atom. case pa_type_name atom of
                Some t \<Rightarrow> fst (resolve_type_path N t) = ''::hot::type/Result'' | None \<Rightarrow> False) (arm_atoms arm)) arms"

definition atom_tests_result :: "names \<Rightarrow> ('d, 'b) pattern_atom \<Rightarrow> bool" where
  "atom_tests_result N atom =
     (if pa_value_literal atom \<noteq> None then False
      else case pa_type_name atom of
             Some t \<Rightarrow> fst (resolve_type_path N t) \<in> {''::hot::type/Result'', ''::hot::type/Any''}
           | None \<Rightarrow> pa_variant atom = None)"

definition ensure_result :: "('b \<Rightarrow> string) \<Rightarrow> ('d, 'b) val \<Rightarrow> ('d, 'b) val" where
  "ensure_result box_path v =
     (if get_value_type_path box_path v \<in> {''::hot::type/Result.Ok'', ''::hot::type/Result.Err''} then v
      else VMap [(VStr ''$type'', VStr ''::hot::type/Result.Ok''), (VStr ''$val'', v)])"

definition extract_inner_val :: "('d, 'b) val \<Rightarrow> ('d, 'b) val" where
  "extract_inner_val v =
     (case v of
        VMap m \<Rightarrow> if tagged_type_name m \<noteq> None then (case str_get m ''$val'' of Some w \<Rightarrow> w | None \<Rightarrow> v) else v
      | _ \<Rightarrow> v)"

text \<open>\<open>unwrap\<close> says that the arms name \<^verbatim>\<open>Result\<close>.\<close>

definition match_atom_test ::
  "('d, 'b) val_env \<Rightarrow> names \<Rightarrow> ('b \<Rightarrow> string) \<Rightarrow> (string \<Rightarrow> (('d, 'b) val \<Rightarrow> bool) option) \<Rightarrow> (string \<Rightarrow> ('d, 'b) val) \<Rightarrow> bool \<Rightarrow>
   ('d, 'b) pattern_atom \<Rightarrow> ('d, 'b) val \<Rightarrow> bool option" where
  "match_atom_test E N box_path alias_check pattern_value unwrap atom v =
     (if unwrap \<and> \<not> atom_tests_result N atom
      then (case match_atom_comparison E N box_path alias_check pattern_value atom (extract_inner_val v) of
              Some held \<Rightarrow> Some (get_value_type_path box_path v = ''::hot::type/Result.Ok'' \<and> held)
            | None \<Rightarrow> None)
      else match_atom_comparison E N box_path alias_check pattern_value atom v)"

text \<open>\<open>None\<close> when the compiler refuses a pattern, otherwise the first arm with an atom that holds. Without such an arm
  the match is \<^verbatim>\<open>null\<close>.\<close>

definition compile_match_expression ::
  "('d, 'b) val_env \<Rightarrow> names \<Rightarrow> ('b \<Rightarrow> string) \<Rightarrow> (string \<Rightarrow> (('d, 'b) val \<Rightarrow> bool) option) \<Rightarrow> (string \<Rightarrow> ('d, 'b) val) \<Rightarrow> ('d, 'b) match_arm list \<Rightarrow>
   ('d, 'b) val \<Rightarrow> ('d, 'b) match_arm option option" where
  "compile_match_expression E N box_path alias_check pattern_value arms v =
     (let unwrap = match_has_result_patterns N arms;
          subject = (if unwrap then ensure_result box_path v else v);
          test = (\<lambda>atom. match_atom_test E N box_path alias_check pattern_value unwrap atom subject)
      in if list_ex (\<lambda>arm. list_ex (\<lambda>atom. test atom = None) (arm_atoms arm)) arms then None
         else Some (find (\<lambda>arm. list_ex (\<lambda>atom. test atom = Some True) (arm_atoms arm)) arms))"

section \<open>An accepted match takes every value of a closed enum\<close>

text \<open>What the compiler and the checker make of the names in an atom agrees: an atom that is \<^verbatim>\<open>Result\<close> for the checker is so
  for the compiler, variants are of the enum \<open>Q\<close> or bare, and a type with the name of \<open>Q\<close> is \<open>Q\<close>. A value pattern
  has no type and no variant.\<close>

definition about_enum :: "type_context \<Rightarrow> names \<Rightarrow> string \<Rightarrow> ('d, 'b) pattern_atom \<Rightarrow> bool" where
  "about_enum C N Q atom \<longleftrightarrow>
     (pa_value_literal atom \<noteq> None \<longrightarrow> pa_type_name atom = None \<and> pa_variant atom = None) \<and>
     (case pa_type_name atom of
        None \<Rightarrow> True
      | Some t \<Rightarrow>
          if atom_names_result C atom then resolve_type_path N t = (''::hot::type/Result'', True)
          else (pa_variant atom \<noteq> None \<longrightarrow> resolve_type_path N t = (Q, True)) \<and>
               (short_type_name t = ''Any'' \<longrightarrow> pa_variant atom = None \<longrightarrow> resolve_type_path N t = (''::hot::type/Any'', True)) \<and>
               (short_type_name t \<noteq> ''Any'' \<longrightarrow> short_type_name t = short_type_name Q \<longrightarrow> resolve_type_path N t = (Q, True)))"

lemma ends_with_append: "ends_with (a @ b) b"
  by (simp add: ends_with_def)

lemma literal_subject_enum:
  assumes "im_get (tc_types C) Q = Some td" "td_is_enum td"
  shows "literal_union_subject C type_text (TyNamed Q) = None"
  using assms by (simp add: literal_union_subject_def literal_union_def_def named_type_definition_def)

lemma covers_mem:
  assumes "c \<in> set (enum_covers C short arms)"
  obtains arm where "arm \<in> set arms" "is_default arm" "c = EveryValue"
  | arm atom where "arm \<in> set arms" "atom \<in> set (arm_atoms arm)" "c = atom_covers_enum C short atom"
  using assms by (auto simp: enum_covers_def split: if_splits)

lemma atom_variant:
  "atom_covers_enum C short atom = OneVariant V \<Longrightarrow> pa_variant atom = Some V \<and> \<not> atom_names_result C atom"
  by (auto simp: atom_covers_enum_def split: if_splits option.splits)

lemma atom_whole:
  "atom_covers_enum C short atom = WholeType \<Longrightarrow>
     pa_variant atom = None \<and> \<not> atom_names_result C atom \<and>
     (\<exists>t. pa_type_name atom = Some t \<and> short_type_name t \<noteq> ''Any'' \<and> short_type_name t = short)"
  by (auto simp: atom_covers_enum_def split: if_splits option.splits)

lemma atom_every:
  "atom_covers_enum C short atom = EveryValue \<Longrightarrow>
     pa_variant atom = None \<and> \<not> atom_names_result C atom \<and> (\<exists>t. pa_type_name atom = Some t \<and> short_type_name t = ''Any'')"
  by (auto simp: atom_covers_enum_def split: if_splits option.splits)

text \<open>An atom that takes a value of the enum.\<close>

definition covering :: "type_context \<Rightarrow> string \<Rightarrow> string \<Rightarrow> ('d, 'b) pattern_atom \<Rightarrow> bool" where
  "covering C short V atom \<longleftrightarrow>
     atom_takes_every_ok C atom \<or>
     pa_type_name atom = None \<and> pa_variant atom = None \<and> pa_value_literal atom = None \<or>
     \<not> atom_names_result C atom \<and>
       (pa_variant atom = Some V \<or>
        pa_variant atom = None \<and> (\<exists>t. pa_type_name atom = Some t \<and> (short_type_name t = ''Any'' \<or> short_type_name t = short)))"

lemma covers_covering:
  assumes "c \<in> set (enum_covers C short arms)" "c \<in> {EveryValue, WholeType, OneVariant V}"
  shows "\<exists>arm \<in> set arms. \<exists>atom \<in> set (arm_atoms arm). covering C short V atom"
  using assms(1)
proof (rule covers_mem)
  fix arm assume "arm \<in> set arms" "is_default arm"
  then show ?thesis by (intro bexI [of _ arm] bexI [of _ "ma_atom arm"]) (auto simp: is_default_def arm_atoms_def covering_def)
next
  fix arm atom assume a: "arm \<in> set arms" "atom \<in> set (arm_atoms arm)" "c = atom_covers_enum C short atom"
  have "covering C short V atom"
    using assms(2) a(3) atom_variant [of C short atom V] atom_whole [of C short atom] atom_every [of C short atom]
    by (auto simp: covering_def)
  with a show ?thesis by blast
qed

lemma accepted_covering:
  assumes "im_get (tc_types C) Q = Some td" "td_is_enum td" "\<not> td_enum_is_open td" "V \<in> set (td_variants td)"
    and "check_match_exhaustiveness_for E C annotation type_text (TyNamed Q) arms = []"
  shows "\<exists>arm \<in> set arms. \<exists>atom \<in> set (arm_atoms arm). covering C (short_type_name Q) V atom"
proof (cases "list_ex (\<lambda>arm. list_ex (atom_takes_every_ok C) (arm_atoms arm)) arms")
  case True
  then show ?thesis by (auto simp: list_ex_iff covering_def)
next
  case False
  then have "check_enum_exhaustiveness C (short_type_name Q) td arms = []"
    using assms(1,2,5) literal_subject_enum [OF assms(1,2), of type_text]
    by (simp add: check_match_exhaustiveness_for_def subject_declaration_def)
  then have "\<exists>c \<in> set (enum_covers C (short_type_name Q) arms). c \<in> {EveryValue, WholeType, OneVariant V}"
    using assms(3,4) by (auto simp: check_enum_exhaustiveness_def Let_def filter_empty_conv split: if_splits)
  then show ?thesis using covers_covering by blast
qed

lemma last_dot: "a @ CHR ''.'' # b = c @ CHR ''.'' # d \<Longrightarrow> CHR ''.'' \<notin> set b \<Longrightarrow> CHR ''.'' \<notin> set d \<Longrightarrow> a = c \<and> b = d"
  by (auto simp: append_eq_append_conv2 append_eq_Cons_conv Cons_eq_append_conv)

text \<open>The subject of a match with arms that name \<^verbatim>\<open>Result\<close>.\<close>

lemma ensured:
  assumes "get_value_type_path box_path v \<notin> {''::hot::type/Result.Ok'', ''::hot::type/Result.Err''}"
  shows "get_value_type_path box_path (ensure_result box_path v) = ''::hot::type/Result.Ok''" "extract_inner_val (ensure_result box_path v) = v"
  using assms by (simp_all add: ensure_result_def get_value_type_path_def extract_inner_val_def tagged_type_name_def str_get_def)

lemma no_result_path:
  assumes "Q \<noteq> ''::hot::type/Result''" "CHR ''.'' \<notin> set V"
  shows "Q @ ''.'' @ V \<notin> {''::hot::type/Result.Ok'', ''::hot::type/Result.Err''}"
  using assms last_dot [of Q V "''::hot::type/Result''" "''Ok''"] last_dot [of Q V "''::hot::type/Result''" "''Err''"] by auto

lemma compared:
  assumes "covering C (short_type_name Q) V atom" "\<not> atom_names_result C atom" "about_enum C N Q atom"
    and "alias_check Q = None" "get_value_type_path box_path v = Q @ ''.'' @ V"
  shows "match_atom_comparison E N box_path alias_check pattern_value atom v = Some True"
  using assms ends_with_append [of Q "''.'' @ V"]
  by (cases "pa_type_name atom"; cases "pa_variant atom"; cases "pa_value_literal atom")
    (auto simp: match_atom_comparison_def covering_def about_enum_def atom_takes_every_ok_def is_type_path_def starts_with_iff Let_def)

lemma tested:
  assumes "covering C (short_type_name Q) V atom" "about_enum C N Q atom" "arm \<in> set arms" "atom \<in> set (arm_atoms arm)"
    and "alias_check Q = None" "alias_check ''::hot::type/Result'' = None" "get_value_type_path box_path v = Q @ ''.'' @ V"
    and "Q \<notin> {''::hot::type/Result'', ''::hot::type/Any''}" "CHR ''.'' \<notin> set V"
  shows "match_atom_test E N box_path alias_check pattern_value (match_has_result_patterns N arms) atom
    (if match_has_result_patterns N arms then ensure_result box_path v else v) = Some True"
proof (cases "atom_names_result C atom")
  case True
  then obtain t where t: "pa_type_name atom = Some t" by (auto simp: atom_names_result_def split: option.splits)
  have r: "resolve_type_path N t = (''::hot::type/Result'', True)" "pa_value_literal atom = None"
    using assms(2) True t by (auto simp: about_enum_def)
  have "pa_variant atom = None \<or> pa_variant atom = Some ''Ok''"
    using True assms(1) t by (auto simp: covering_def atom_takes_every_ok_def atom_names_result_def split: option.splits)
  moreover have "match_has_result_patterns N arms"
    using assms(3,4) t r by (force simp: match_has_result_patterns_def list_ex_iff)
  moreover have "get_value_type_path box_path (ensure_result box_path v) = ''::hot::type/Result.Ok''"
    using ensured(1) no_result_path [of Q V] assms(7,8,9) by (metis insertI1)
  ultimately show ?thesis
    using t r assms(6)
    by (auto simp: match_atom_test_def atom_tests_result_def match_atom_comparison_def is_type_path_def starts_with_def Let_def)
next
  case False
  have c: "match_atom_comparison E N box_path alias_check pattern_value atom v = Some True"
    by (rule compared [where alias_check = alias_check, OF assms(1) False assms(2,5,7)])
  show ?thesis
  proof (cases "match_has_result_patterns N arms \<and> atom_tests_result N atom")
    case True
    then have "match_atom_comparison E N box_path alias_check pattern_value atom w = Some True" for w
      using assms(1,2,8) False
      by (cases "pa_type_name atom"; cases "pa_variant atom"; cases "pa_value_literal atom")
        (auto simp: match_atom_comparison_def atom_tests_result_def covering_def about_enum_def atom_takes_every_ok_def Let_def)
    then show ?thesis using True by (simp add: match_atom_test_def)
  next
    case False
    then show ?thesis
      using c ensured [of box_path v] no_result_path [of Q V] assms(7,8,9) by (auto simp: match_atom_test_def)
  qed
qed

lemma taken_arm:
  assumes "compile_match_expression E N box_path alias_check pattern_value arms v = Some taken" "arm \<in> set arms" "atom \<in> set (arm_atoms arm)"
    and t: "match_atom_test E N box_path alias_check pattern_value (match_has_result_patterns N arms) atom
      (if match_has_result_patterns N arms then ensure_result box_path v else v) = Some True"
  shows "\<exists>arm \<in> set arms. taken = Some arm"
proof -
  let ?unwrap = "match_has_result_patterns N arms"
  let ?takes = "\<lambda>arm. list_ex (\<lambda>atom. match_atom_test E N box_path alias_check pattern_value ?unwrap atom
      (if ?unwrap then ensure_result box_path v else v) = Some True) (arm_atoms arm)"
  have "taken = find ?takes arms"
    using assms(1) unfolding compile_match_expression_def Let_def by (metis option.inject option.distinct(1))
  moreover have "?takes arm" using assms(3) t unfolding list_ex_iff by blast
  ultimately have "taken \<noteq> None" "taken = Some x \<Longrightarrow> x \<in> set arms" for x
    using assms(2) by (metis find_None_iff, metis find_Some_iff nth_mem)
  then show ?thesis by blast
qed

text \<open>
  C17. A match on a closed enum that the checker accepts and that compiles takes every value of the enum: for every declared
  variant some arm matches at run time, whether the arms name variants of the enum, the enum itself, \<^verbatim>\<open>Any\<close> or the
  core \<^verbatim>\<open>Result\<close>, provided that checker and compiler resolve the names in the arms alike, variants are of this enum, the enum is not the core
  \<^verbatim>\<open>Result\<close> itself, and neither is an alias with constraints.
\<close>

theorem accepted_match_takes_variant:
  assumes "im_get (tc_types C) Q = Some td" "td_is_enum td" "\<not> td_enum_is_open td"
    and "check_match_exhaustiveness_for E C annotation type_text (TyNamed Q) arms = []"
    and "\<forall>arm \<in> set arms. \<forall>atom \<in> set (arm_atoms arm). about_enum C N Q atom"
    and "Q \<notin> {''::hot::type/Result'', ''::hot::type/Any''}" "alias_check Q = None" "alias_check ''::hot::type/Result'' = None"
    and "V \<in> set (td_variants td)" "CHR ''.'' \<notin> set V" "get_value_type_path box_path v = Q @ ''.'' @ V"
    and "compile_match_expression E N box_path alias_check pattern_value arms v = Some taken"
  shows "\<exists>arm \<in> set arms. taken = Some arm"
proof -
  obtain arm atom where a: "arm \<in> set arms" "atom \<in> set (arm_atoms arm)" "covering C (short_type_name Q) V atom"
    using accepted_covering [OF assms(1-3,9,4)] by blast
  have "about_enum C N Q atom" using assms(5) a by blast
  from tested [where alias_check = alias_check, OF a(3) this a(1,2) assms(7,8,11,6,10)] show ?thesis
    by (rule taken_arm [OF assms(12) a(1,2)])
qed

section \<open>An accepted match takes every member of a closed literal union\<close>


text \<open>The members an arm of the type \<open>t\<close> covers by what the type denotes.\<close>

definition arm_members :: "type_context \<Rightarrow> (string \<Rightarrow> ty_expr) \<Rightarrow> string \<Rightarrow> lit_type set" where
  "arm_members C annotation t = (case collect_literal_members C (annotation t) [] False of Some (ms, _) \<Rightarrow> set ms | None \<Rightarrow> {})"









definition color_decl :: type_definition where
  "color_decl =
     \<lparr>td_is_open = False, td_enum_is_open = False, td_is_enum = True, td_is_struct = False, td_fields = [],
      td_variants = [''Red'', ''Green''], td_variant_payloads = [], td_declaring_namespace = ''::app'', td_is_literal_union = False,
      td_literal_members = []\<rparr>"

definition color_context :: type_context where
  "color_context =
     \<lparr>tc_types = [(''::app/Color'', color_decl), (''Color'', color_decl), (''::app/Fruit'', color_decl)],
      tc_current_namespace = ''::app'', tc_current_aliases = [],
      tc_qualified_types = [(''::app/Color'', TyNamed ''::app/Color''), (''::app/Fruit'', TyNamed ''::app/Fruit'')], tc_core_types = [],
      tc_impl_registry = [], tc_in_pipe_flow = False\<rparr>"

definition color_names :: names where
  "color_names =
     \<lparr>nm_current_namespace = ''::app'', nm_variables = [(''::app/Color'', ''::app/Color''), (''::app/Fruit'', ''::app/Fruit'')],
      nm_core = [], nm_aliases = []\<rparr>"

definition variant_arm :: "string \<Rightarrow> string \<Rightarrow> (int, unit) match_arm" where
  "variant_arm t v =
     \<lparr>ma_atom = \<lparr>pa_type_name = Some t, pa_variant = Some v, pa_value_literal = None\<rparr>, ma_alternatives = []\<rparr>"

definition red :: "(int, unit) val" where
  "red = VMap [(VStr ''$type'', VStr ''::app/Color.Red'')]"

lemma red_path: "get_value_type_path box_path red = ''::app/Color'' @ ''.'' @ ''Red''"
  by (simp add: get_value_type_path_def red_def tagged_type_name_def str_get_def)

lemma color_short: "short_type_name ''::app/Color'' = ''Color''" "short_type_name ''Color'' = ''Color''" "short_type_name ''Fruit'' = ''Fruit''"
  by (simp_all add: short_type_name_def)

lemmas color_eval = variant_arm_def arm_atoms_def color_short rsplit_slash_def color_context_def color_names_def resolve_type_path_def
  starts_with_def atom_names_result_def

lemma color_result: "\<not> atom_names_result color_context (ma_atom (variant_arm t v))" if "t \<in> {''Color'', ''::app/Color'', ''Fruit''}"
  using that by (auto simp: color_eval)

lemma color_check:
  assumes "set ts \<subseteq> {''Color'', ''::app/Color'', ''Fruit''}" "snd ` set tvs = {''Red'', ''Green''}" "fst ` set tvs \<subseteq> set ts"
  shows "check_match_exhaustiveness_for tenths_env color_context annotation type_text (TyNamed ''::app/Color'')
    (map (\<lambda>(t, v). variant_arm t v) tvs) = []"
proof -
  have names: "\<not> atom_names_result color_context (ma_atom (variant_arm t v))" if "(t, v) \<in> set tvs" for t v
    using color_result [of t v] assms(1,3) that by force
  have decl: "im_get (tc_types color_context) ''::app/Color'' = Some color_decl" "td_is_enum color_decl"
    by (simp_all add: color_context_def color_decl_def)
  have none: "\<not> list_ex (\<lambda>arm. list_ex (atom_takes_every_ok color_context) (arm_atoms arm)) (map (\<lambda>(t, v). variant_arm t v) tvs)"
  proof -
    have "\<not> list_ex (atom_takes_every_ok color_context) (arm_atoms (variant_arm t v))" if "(t, v) \<in> set tvs" for t v
      using names [OF that] by (simp add: atom_takes_every_ok_def arm_atoms_def) (simp add: variant_arm_def)
    then show ?thesis by (metis (no_types, lifting) Bex_set case_prod_beta' imageE list.set_map prod.collapse)
  qed
  have "OneVariant v \<in> set (enum_covers color_context ''Color'' (map (\<lambda>(t, v). variant_arm t v) tvs))" if "v \<in> {''Red'', ''Green''}" for v
  proof -
    have "v \<in> snd ` set tvs" using that unfolding assms(2) .
    then obtain t where "(t, v) \<in> set tvs" by (metis imageE prod.collapse)
    moreover from this have "atom_covers_enum color_context ''Color'' (ma_atom (variant_arm t v)) = OneVariant v"
      using names by (simp add: atom_covers_enum_def) (simp add: variant_arm_def)
    moreover have "\<not> is_default (variant_arm t v)" by (simp add: is_default_def variant_arm_def)
    ultimately show ?thesis
      unfolding enum_covers_def by (auto simp: arm_atoms_def intro!: bexI [of _ "(t, v)"])
  qed
  then have "check_enum_exhaustiveness color_context ''Color'' color_decl (map (\<lambda>(t, v). variant_arm t v) tvs) = []"
    by (simp add: check_enum_exhaustiveness_def Let_def color_decl_def)
  then show ?thesis
    using none decl literal_subject_enum [OF decl, of type_text]
    by (simp add: check_match_exhaustiveness_for_def subject_declaration_def color_short)
qed

lemma color_taken:
  "compile_match_expression tenths_env color_names box_path (\<lambda>t. None) (\<lambda>e. VNull)
     [variant_arm ''Color'' ''Green'', variant_arm ''::app/Color'' ''Red''] red = Some (Some (variant_arm ''::app/Color'' ''Red''))"
  "compile_match_expression tenths_env color_names box_path (\<lambda>t. None) (\<lambda>e. VNull)
     [variant_arm ''Fruit'' ''Red'', variant_arm ''Color'' ''Green''] red = Some None"
  by (simp_all add: compile_match_expression_def match_has_result_patterns_def match_atom_test_def match_atom_comparison_def red_path color_eval Let_def)

theorem accepted_match_takes_variant_witness:
  "\<exists>arm \<in> set [variant_arm ''Color'' ''Green'', variant_arm ''::app/Color'' ''Red''].
     compile_match_expression tenths_env color_names (\<lambda>b. ''::hot::type/Any'') (\<lambda>t. None) (\<lambda>e. VNull)
       [variant_arm ''Color'' ''Green'', variant_arm ''::app/Color'' ''Red''] red = Some (Some arm)"
proof -
  have check: "check_match_exhaustiveness_for tenths_env color_context (\<lambda>t. TyAny) (\<lambda>t. []) (TyNamed ''::app/Color'')
      [variant_arm ''Color'' ''Green'', variant_arm ''::app/Color'' ''Red''] = []"
    using color_check [of "[''Color'', ''::app/Color'']" "[(''Color'', ''Green''), (''::app/Color'', ''Red'')]"] by auto
  have about: "\<forall>arm \<in> set [variant_arm ''Color'' ''Green'', variant_arm ''::app/Color'' ''Red'']. \<forall>atom \<in> set (arm_atoms arm).
      about_enum color_context color_names ''::app/Color'' atom"
    by (simp add: color_eval about_enum_def)
  note w = accepted_match_takes_variant [OF _ _ _ check about, where td = color_decl and V = "''Red''" and alias_check = "\<lambda>t. None" and v = red
      and pattern_value = "\<lambda>e. VNull" and box_path = "\<lambda>b. ''::hot::type/Any''", OF _ _ _ _ _ _ _ _ _ color_taken(1)]
  show ?thesis
    using w by (simp add: color_context_def color_decl_def red_path color_taken)
qed







text \<open>
  The check does not compare the type of a variant pattern with the subject: an arm for \<^verbatim>\<open>Fruit.Red\<close> counts as one for
  \<^verbatim>\<open>Color.Red\<close>. The match is accepted as exhaustive, and no arm takes the value.
\<close>

theorem foreign_variant_counts:
  "let arms = [variant_arm ''Fruit'' ''Red'', variant_arm ''Color'' ''Green'']
   in check_match_exhaustiveness_for tenths_env color_context (\<lambda>t. TyAny) (\<lambda>t. []) (TyNamed ''::app/Color'') arms = [] \<and>
      ''Red'' \<in> set (td_variants color_decl) \<and> get_value_type_path box_path red = ''::app/Color.Red'' \<and>
      compile_match_expression tenths_env color_names box_path (\<lambda>t. None) (\<lambda>e. VNull) arms red = Some None"
  unfolding Let_def
proof (intro conjI)
  show "check_match_exhaustiveness_for tenths_env color_context (\<lambda>t. TyAny) (\<lambda>t. []) (TyNamed ''::app/Color'')
      [variant_arm ''Fruit'' ''Red'', variant_arm ''Color'' ''Green''] = []"
    using color_check [of "[''Fruit'', ''Color'']" "[(''Fruit'', ''Red''), (''Color'', ''Green'')]"] by auto
qed (simp_all add: color_decl_def red_path color_taken)

end
