(* ===== verification/Spec2Isabelle.thy ===== *)
theory Spec2Isabelle
  imports Hot_Path Hot_Update Hot_Fast Hot_Permission Hot_OrgKey Hot_Codegen Hot_Scan Hot_MemQueue Hot_Levels Hot_Admission Hot_Budget
    Hot_ClientIp Hot_Bit Hot_Capacity Hot_Masking Hot_Match
begin

text \<open>
  A verification library for the Hot language platform: a language with values, declared types and constraints, its compiler
  and virtual machine (crate \<^verbatim>\<open>hot\<close>), the HTTP service that runs programs for tenants (\<^verbatim>\<open>hot_api\<close>) and the workers that run
  tasks in containers (\<^verbatim>\<open>hot_task_worker\<close>). Paths below are relative to \<^verbatim>\<open>src/crates/\<close>. The definitions are translated from the Rust
  sources and keep their names; a suffix or a prefix marks a name that HOL uses already.

  \<^bold>\<open>How the parts interact.\<close> A source text is read by the lexer; the parser and the formatter are clients of its tokens, and the
  skill generator writes texts for it. The type checker decides which calls are accepted, the dependency analysis which bindings
  of a parallel flow may run together. The compiler hands type specs to the virtual machine, which checks values against them at
  the boundaries of a program (parameters, constructors, updates). A request to the service passes the client-address resolver, the
  rate limits and the permission check of its key; what it starts goes through a queue to a worker, which admits it to its memory and
  disk. A program reaches the network only through the outbound policy, and what is recorded of it passes the masking of secrets.

  \<^bold>\<open>Shared base.\<close>
  \<^item> \<^verbatim>\<open>Hot_Prelude\<close>: the parts of \<^verbatim>\<open>std\<close> that several components call. A \<^verbatim>\<open>str\<close> is the list of its bytes; an \<^verbatim>\<open>IndexMap\<close> or \<^verbatim>\<open>HashMap\<close> is an
    association list. The locale \<open>ordered_map\<close> states the laws of insertion, removal and lookup and is interpreted on them; the
    locale \<open>invariant_system\<close> turns a preserved predicate into one of all reachable states, and is interpreted on the step relations
    of the queue, of the connection counters and of the resource budget.
  \<^item> \<^verbatim>\<open>Hot_Val\<close>, \<^verbatim>\<open>Hot_Path\<close> (\<^verbatim>\<open>hot/src/val.rs\<close>): \<^verbatim>\<open>enum Val\<close>, equality, tagged maps, deep \<open>get\<close> and \<open>set\<close>, \<open>merge\<close>. Reading a path just written
    gives what was written, and the exception of typed maps is exact. \<^verbatim>\<open>Hot_Conf\<close>: the typed getters over them.

  \<^bold>\<open>Language.\<close>
  \<^item> \<^verbatim>\<open>Hot_Lexer\<close>, \<^verbatim>\<open>Hot_Tokens\<close> (\<^verbatim>\<open>hot/src/lang/lexer.rs\<close>): all readers and the tokenizer with its recovery from errors. It ends; tokens are in order,
    with true positions, and cover an error-free source up to blanks.
  \<^item> \<^verbatim>\<open>Hot_Scan\<close> (\<^verbatim>\<open>lang/fmt/scan.rs\<close>): the formatter's classification of characters and the application of edits, over the locale
    \<open>token_stream\<close>, interpreted on the lexer. \<^verbatim>\<open>Hot_Codegen\<close> (\<^verbatim>\<open>hot/src/skill_codegen.rs\<close>): written literals are read back by the lexer as the one
    token they stand for, with the strings for which this fails.
  \<^item> \<^verbatim>\<open>Hot_Types\<close> (\<^verbatim>\<open>lang/compiler/type_checker.rs\<close>): which type flows into which, coercions, the choice of a signature. A parameter
    type without named types and closed records admits every value of a known type that flows into it, but where a literal meets a
    plain scalar; a call is accepted exactly when some signature fits. Where no declared field has a record type, the check ends and
    every ordinary type flows into itself.
  \<^item> \<^verbatim>\<open>Hot_Match\<close> (\<^verbatim>\<open>type_checker.rs\<close>, \<^verbatim>\<open>lang/compiler/mod.rs\<close>, \<^verbatim>\<open>lang/runtime/vm.rs\<close>): the check that the arms of a match cover an enum or a union of
    literals, and the tests compiled for the arms. A match that is accepted takes an arm for every value of the enum and for every member
    of the union, as long as no arm names a variant of another enum.
  \<^item> \<^verbatim>\<open>Hot_DepGraph\<close>, \<^verbatim>\<open>Hot_Levels\<close> (\<^verbatim>\<open>lang/compiler/dependency_graph.rs\<close>): Kahn's algorithm finds an order exactly when there is no cycle, and the
    levels are the earliest ones; a dependency inside a collection literal is missed.
  \<^item> \<^verbatim>\<open>Hot_Constraint\<close>, \<^verbatim>\<open>Hot_Check\<close>, \<^verbatim>\<open>Hot_Boundary\<close> (\<^verbatim>\<open>lang/runtime/vm/constraints.rs\<close>, \<^verbatim>\<open>lang/compiler/constraint_specs.rs\<close>, masks of
    \<^verbatim>\<open>lang/bytecode.rs\<close>): specs, the check of a value and its entry points. \<^verbatim>\<open>Hot_Cycles\<close>: the search for types defined by themselves is exact.
    \<^verbatim>\<open>Hot_Conform\<close>, \<^verbatim>\<open>Hot_Ends\<close>, \<^verbatim>\<open>Hot_Sound\<close>: a check ends, changes a value only by exact conversion of numbers, and what it returns conforms.
    \<^verbatim>\<open>Hot_Update\<close>: so do the values of updates. \<^verbatim>\<open>Hot_Fast\<close>: the fast path of constructors agrees with the check it saves.
  \<^item> \<^verbatim>\<open>Hot_Range\<close> (\<^verbatim>\<open>lang/hot/coll.rs\<close>, \<^verbatim>\<open>lang/runtime/limits.rs\<close>), \<^verbatim>\<open>Hot_Bit\<close> (\<^verbatim>\<open>lang/hot/bit.rs\<close>): integer ranges and bit operations at 64 bits; the
    interpreter's range is exact, and the library's agrees with it as long as its addition does not wrap; where it wraps, it may never end.
  \<^item> \<^verbatim>\<open>Hot_Masking\<close> (\<^verbatim>\<open>lang/masking.rs\<close>): the registry of secrets and the matcher. A secret of 8 bytes to 64 KiB does not
    survive in a masked text, provided that no registered value is a base64 fragment of it.

  \<^bold>\<open>Platform.\<close>
  \<^item> \<^verbatim>\<open>Hot_Permission\<close>, \<^verbatim>\<open>Hot_OrgKey\<close> (\<^verbatim>\<open>hot/src/permission.rs\<close>): matching of URNs, validation, subset, intersection, projection of organization keys.
    A validated child grants nothing that its parent, whose wildcards stand at the end of patterns, does not; with a wildcard
    elsewhere it may. The locale \<open>grant_matcher\<close> carries what this needs of matching, \<open>grant_loop\<close>
    what the loops that collect grants share; both are interpreted on the code's functions.
  \<^item> \<^verbatim>\<open>Hot_MemQueue\<close> (\<^verbatim>\<open>hot/src/queue/mem.rs\<close>, \<^verbatim>\<open>queue/mod.rs\<close>): interleavings of producers, workers, consumers, cancelled futures and detached
    tasks, inside and outside a runtime. Items are never duplicated, and lost only in three situations, one at a time: a claim cancelled while it
    waits for a full dead-letter channel, a detached requeue aborted, a lease dropped outside a runtime on a full channel. The queue refines a FIFO;
    retries are bounded; a message that always fails reaches the dead-letter channel while that has room.
  \<^item> \<^verbatim>\<open>Hot_Admission\<close> (\<^verbatim>\<open>hot_api/src/rate_limit.rs\<close>), \<^verbatim>\<open>Hot_ClientIp\<close> (\<^verbatim>\<open>hot_api/src/client_ip.rs\<close>): the sliding window counts exactly what was admitted
    under a limit, connections stay within
    their limits, forged entries of the forwarding chain are ignored.
  \<^item> \<^verbatim>\<open>Hot_Ip\<close>, \<^verbatim>\<open>Hot_Outbound\<close> (\<^verbatim>\<open>hot/src/outbound.rs\<close>): an address that passes the check of isolated code is none of the machine,
    of link-local services or of metadata, in all its IPv6 forms but two that the code lets pass; a client connects to the addresses that were checked.
    Names handed to an egress proxy are left to it.
  \<^item> \<^verbatim>\<open>Hot_Budget\<close> (\<^verbatim>\<open>hot_task_worker/src/resource_budget.rs\<close>), \<^verbatim>\<open>Hot_Capacity\<close> (\<^verbatim>\<open>hot/src/runtime_budget.rs\<close>): memory and disk are never oversubscribed, in any
    interleaving of the atomic operations; the derived numbers of machines and containers fit the memory whose shares hold one of each.

  \<^bold>\<open>Termination and fuel.\<close> Loops are recursive functions with termination proofs, except the following. \<open>check_value\<close> and the entry points above
  it take fuel, since a check follows references of arbitrary tables of types; \<open>check_value_ends\<close> shows that enough fuel gives a result,
  which more fuel does not change. The loops of \<open>range\<close>, the draining of a channel and \<open>types_are_compatible\<close> are partial functions
  (\<open>None\<close>: it never returns), and returning is stated and proved where it holds. \<open>collect_values\<close> takes fuel for strings that hold JSON that
  holds strings; the masking theorem holds for every amount of it. Machine integers are words, or numbers with their wrap-around and
  saturation written out.

  \<^bold>\<open>Parameters.\<close> Third-party crates and services are arguments of the definitions, and what is relied on is a named hypothesis with a witness:
  the \<^verbatim>\<open>uuid\<close> parser (\<open>canon\<close>), Unicode tables and decimals (\<open>lexer_env\<close>, \<open>val_env\<close>), \<^verbatim>\<open>async_channel\<close> (\<open>fifo_channel\<close>), address ranges (\<open>nets_ok\<close>), URLs, the
  resolver and the HTTP client, hashing, encodings and the multi-pattern search (\<open>mask_env\<close>), functions of the checked program
  (\<open>ctx_call\<close>), the database, the clock and the files of the control group.

  \<^bold>\<open>Not modelled.\<close> The parser, the lowering to bytecode (but for the tests of match arms), the instruction loop and the just-in-time compiler, whose meaning rests on the
  whole syntax tree and instruction set; of the type checker, the walk over the tree and the collection of declarations; ordering,
  hashing and JSON of values; the layout rules of the formatter. Natives that forward to crates (time, regular expressions, HTTP, cryptography) and
  the filter of credential fields, which is a regular expression. SQL, Redis and SQLite access, object stores, HTTP handlers, pages,
  command line, language server, scheduler and container back ends: input and output around the parts above. Metrics, tracing and
  the wording of log messages are left out everywhere, and so are failing allocations (a huge range capacity or vector index).
\<close>

end
